(* ===== verification/Prelude.thy ===== *)
theory Prelude
  imports Complex_Main "HOL-Library.Word" "HOL-Library.AList"
begin

text \<open>
  Shared material of the development: machine integer types, the exceptions the code throws,
  the outcome type of the stateful operations (a return, a C++ exception, undefined behaviour,
  a wait that never ends, a call of \<open>std::terminate\<close>) with its sequencing, the maps with
  stable element addresses that stand for \<open>std::deque\<close> and \<open>std::map\<close>, and the generic
  interface of an operation that keeps an invariant.
\<close>

section \<open>Machine integers and exceptions\<close>

type_synonym u8 = "8 word"
type_synonym u16 = "16 word"
type_synonym u32 = "32 word"
type_synonym u64 = "64 word"

datatype exn =
    Runtime_error string      \<comment> \<open>ChimeraTK::runtime_error\<close>
  | Logic_error string        \<comment> \<open>ChimeraTK::logic_error\<close>
  | Invalid_argument          \<comment> \<open>std::invalid_argument\<close>
  | Out_of_range              \<comment> \<open>std::out_of_range\<close>
  | Std_logic_error string    \<comment> \<open>std::logic_error\<close>

text \<open>The collections of the development: \<open>typing\<close> holds that operations yield values of their type,
  \<open>ownership\<close> that they leave every block of memory with one owner.\<close>

named_theorems typing "operations yield values of their type"
named_theorems ownership "operations leave every block with one owner"

section \<open>Outcomes of stateful operations\<close>

text \<open>
  \<open>Done s\<close> is a normal return in state \<open>s\<close>, \<open>Throws e s\<close> an exception that leaves the
  operation in state \<open>s\<close> (the effects before the throw stay), \<open>Undefined\<close> the use of an
  invalidated pointer or iterator, \<open>Blocked\<close> a lock or join that is never granted and
  \<open>Terminated\<close> a call of \<open>std::terminate\<close>.
\<close>

datatype 's result = Done 's | Throws exn 's | Undefined | Blocked | Terminated

fun seq :: "'s result \<Rightarrow> ('s \<Rightarrow> 's result) \<Rightarrow> 's result" where
  "seq (Done s) f = f s"
| "seq (Throws e s) f = Throws e s"
| "seq Undefined f = Undefined"
| "seq Blocked f = Blocked"
| "seq Terminated f = Terminated"

primrec run_all :: "('x \<Rightarrow> 's \<Rightarrow> 's result) \<Rightarrow> 'x list \<Rightarrow> 's \<Rightarrow> 's result" where
  "run_all f [] s = Done s"
| "run_all f (x # xs) s = seq (f x s) (run_all f xs)"

fun post :: "('s \<Rightarrow> bool) \<Rightarrow> 's result \<Rightarrow> bool" where
  "post P (Done s) = P s"
| "post P (Throws e s) = P s"
| "post P Undefined = True"
| "post P Blocked = True"
| "post P Terminated = True"

fun no_ub :: "'s result \<Rightarrow> bool" where
  "no_ub Undefined = False"
| "no_ub _ = True"

fun no_deadlock :: "'s result \<Rightarrow> bool" where
  "no_deadlock Blocked = False"
| "no_deadlock _ = True"

text \<open>\<open>try ... catch\<close>: the handler gets the exception and the state the operation left behind.\<close>

fun on_throw :: "(exn \<Rightarrow> 's \<Rightarrow> 's result) \<Rightarrow> 's result \<Rightarrow> 's result" where
  "on_throw h (Throws e s) = h e s"
| "on_throw h r = r"

lemma post_on_throw: "post P r \<Longrightarrow> (\<And>e s. P s \<Longrightarrow> post P (h e s)) \<Longrightarrow> post P (on_throw h r)"
  by (cases r) auto

lemma on_throw_no_ub: "no_ub r \<Longrightarrow> (\<And>e s. no_ub (h e s)) \<Longrightarrow> no_ub (on_throw h r)"
  by (cases r) auto

text \<open>A function that returns a new state or throws, on the state it is given.\<close>

fun from_sum :: "'s \<Rightarrow> exn + 's \<Rightarrow> 's result" where
  "from_sum s (Inl e) = Throws e s"
| "from_sum s (Inr s') = Done s'"

lemma map_result_eq_Done: "map_result f r = Done t \<longleftrightarrow> (\<exists>s. r = Done s \<and> t = f s)"
  by (cases r) auto

lemma no_ub_iff: "no_ub r \<longleftrightarrow> r \<noteq> Undefined"
  by (cases r) auto

lemma no_deadlock_iff: "no_deadlock r \<longleftrightarrow> r \<noteq> Blocked"
  by (cases r) auto

lemma seq_Done_right [simp]: "seq r Done = r"
  by (cases r) auto

lemma run_all_Nil [simp]: "run_all f [] = Done"
  by (rule ext) simp

lemma run_all_Cons: "run_all f (x # xs) = (\<lambda>s. seq (f x s) (run_all f xs))"
  by (rule ext) simp

lemma seq_assoc: "seq (seq r f) g = seq r (\<lambda>s. seq (f s) g)"
  by (cases r) auto

lemma post_seq: "post P r \<Longrightarrow> (\<And>s. P s \<Longrightarrow> post P (f s)) \<Longrightarrow> post P (seq r f)"
  by (cases r) auto

lemma post_seqI:
  "post Q r \<Longrightarrow> (\<And>s. r = Done s \<Longrightarrow> Q s \<Longrightarrow> post P (f s)) \<Longrightarrow>
   (\<And>e s. r = Throws e s \<Longrightarrow> Q s \<Longrightarrow> P s) \<Longrightarrow> post P (seq r f)"
  by (cases r) auto

lemma post_mono: "post P r \<Longrightarrow> (\<And>s. P s \<Longrightarrow> Q s) \<Longrightarrow> post Q r"
  by (cases r) auto

lemma post_conj: "post (\<lambda>s. P s \<and> Q s) r \<longleftrightarrow> post P r \<and> post Q r"
  by (cases r) auto

lemma no_ub_seq: "no_ub r \<Longrightarrow> (\<And>s. r = Done s \<Longrightarrow> no_ub (f s)) \<Longrightarrow> no_ub (seq r f)"
  by (cases r) auto

lemma no_deadlock_seq:
  "no_deadlock r \<Longrightarrow> (\<And>s. r = Done s \<Longrightarrow> no_deadlock (f s)) \<Longrightarrow> no_deadlock (seq r f)"
  by (cases r) auto

lemma seq_eq_Done: "seq r f = Done t \<longleftrightarrow> (\<exists>s. r = Done s \<and> f s = Done t)"
  by (cases r) auto

lemma seq_cong: "r = r' \<Longrightarrow> (\<And>s. r' = Done s \<Longrightarrow> f s = g s) \<Longrightarrow> seq r f = seq r' g"
  by (cases r') auto

lemma run_all_append: "run_all f (xs @ ys) s = seq (run_all f xs s) (run_all f ys)"
  by (induction xs arbitrary: s) (simp_all add: seq_assoc cong: seq_cong)

text \<open>
  The interface of an operation that keeps an invariant whatever its argument is. A loop over
  such an operation keeps the invariant, and is free of undefined behaviour and of deadlock
  when each pass is.
\<close>

locale keeps_invariant =
  fixes inv :: "'s \<Rightarrow> bool"
    and oper :: "'x \<Rightarrow> 's \<Rightarrow> 's result"
  assumes oper_inv: "inv s \<Longrightarrow> post inv (oper x s)"
begin

lemma run_all_inv: "inv s \<Longrightarrow> post inv (run_all oper xs s)"
  by (induction xs arbitrary: s) (auto intro!: post_seq dest: oper_inv)

lemma run_all_no_ub:
  assumes safe: "\<And>x s. inv s \<Longrightarrow> no_ub (oper x s)"
  shows "inv s \<Longrightarrow> no_ub (run_all oper xs s)"
proof (induction xs arbitrary: s)
  case Nil
  then show ?case by simp
next
  case (Cons x xs)
  from oper_inv [OF Cons.prems, of x] show ?case
    by (auto intro!: no_ub_seq safe Cons)
qed

lemma run_all_no_deadlock:
  assumes live: "\<And>x s. inv s \<Longrightarrow> no_deadlock (oper x s)"
  shows "inv s \<Longrightarrow> no_deadlock (run_all oper xs s)"
proof (induction xs arbitrary: s)
  case Nil
  then show ?case by simp
next
  case (Cons x xs)
  from oper_inv [OF Cons.prems, of x] show ?case
    by (auto intro!: no_deadlock_seq live Cons)
qed

end

lemmas run_all_post = keeps_invariant.run_all_inv [OF keeps_invariant.intro]

section \<open>Outcomes of functions\<close>

text \<open>
  The outcome of a function without state: \<open>Some (Inr x)\<close> is a value, \<open>Some (Inl e)\<close> an exception,
  and \<open>None\<close> the dereference of a null pointer or the use of an uninitialised variable.
\<close>

type_synonym 'a outcome = "(exn + 'a) option"

abbreviation value_of :: "'a \<Rightarrow> 'a outcome" where
  "value_of x \<equiv> Some (Inr x)"

abbreviation error_of :: "exn \<Rightarrow> 'a outcome" where
  "error_of e \<equiv> Some (Inl e)"

fun andThen :: "'a outcome \<Rightarrow> ('a \<Rightarrow> 'b outcome) \<Rightarrow> 'b outcome" where
  "andThen None f = None"
| "andThen (Some (Inl e)) f = error_of e"
| "andThen (Some (Inr x)) f = f x"

primrec foldThen :: "('x \<Rightarrow> 'a \<Rightarrow> 'a outcome) \<Rightarrow> 'x list \<Rightarrow> 'a \<Rightarrow> 'a outcome" where
  "foldThen f [] a = value_of a"
| "foldThen f (x # xs) a = andThen (f x a) (foldThen f xs)"

lemma andThen_assoc: "andThen (andThen r f) g = andThen r (\<lambda>x. andThen (f x) g)"
  by (cases "(r, f)" rule: andThen.cases) auto

lemma list_all2_set2: "list_all2 P xs ys \<Longrightarrow> y \<in> set ys \<Longrightarrow> \<exists>x \<in> set xs. P x y"
  by (induction rule: list_all2_induct) auto

lemma andThen_eq_value: "andThen r f = value_of y \<longleftrightarrow> (\<exists>x. r = value_of x \<and> f x = value_of y)"
  by (cases "(r, f)" rule: andThen.cases) auto

lemma foldThen_append: "foldThen f (xs @ ys) a = andThen (foldThen f xs a) (foldThen f ys)"
proof (induction xs arbitrary: a)
  case (Cons x xs)
  show ?case by (cases "(f x a, foldThen f xs)" rule: andThen.cases) (simp_all add: Cons)
qed simp

lemma foldThen_filter: "(\<And>x a. \<not> P x \<Longrightarrow> f x a = value_of a) \<Longrightarrow>
    foldThen f (filter P xs) a = foldThen f xs a"
proof (induction xs arbitrary: a)
  case (Cons x xs)
  show ?case
  proof (cases "P x")
    case True
    then show ?thesis
      by (cases "(f x a, foldThen f xs)" rule: andThen.cases) (simp_all add: Cons)
  qed (simp add: Cons)
qed simp

section \<open>Containers with stable element addresses\<close>

text \<open>
  A \<open>std::deque\<close> whose elements are pointed at from elsewhere: a list of elements, each with
  the address a pointer to it holds. \<open>push_back\<close> leaves the addresses of the other elements
  alone. \<open>erase\<close> leaves them alone only when it removes the first or the last element; anywhere
  else the standard invalidates every pointer into the deque, so the remaining elements move to
  fresh addresses. Reading through an address that no element has is undefined behaviour.
\<close>

type_synonym addr = nat
type_synonym 'a deque = "(addr \<times> 'a) list"

definition deque_modify :: "addr \<Rightarrow> ('a \<Rightarrow> 'a) \<Rightarrow> 'a deque \<Rightarrow> 'a deque" where
  "deque_modify p f d = map (\<lambda>(q, x). (q, if q = p then f x else x)) d"

definition relocate :: "addr \<Rightarrow> 'a deque \<Rightarrow> 'a deque" where
  "relocate n d = zip [n ..< n + length d] (map snd d)"

definition deque_erase :: "addr \<Rightarrow> nat \<Rightarrow> 'a deque \<Rightarrow> 'a deque" where
  "deque_erase n k d =
     (if k = 0 then tl d
      else if Suc k = length d then butlast d
      else relocate n (take k d @ drop (Suc k) d))"

text \<open>\<open>std::find\<close>: the position of the first element that satisfies the predicate.\<close>

primrec find_index :: "('a \<Rightarrow> bool) \<Rightarrow> 'a list \<Rightarrow> nat option" where
  "find_index P [] = None"
| "find_index P (x # xs) = (if P x then Some 0 else map_option Suc (find_index P xs))"

lemma find_index_Some:
  "find_index P xs = Some i \<longleftrightarrow> i < length xs \<and> P (xs ! i) \<and> (\<forall>j < i. \<not> P (xs ! j))"
proof (induction xs arbitrary: i)
  case Nil
  then show ?case by simp
next
  case (Cons x xs)
  show ?case
    by (cases i) (auto simp: Cons.IH less_Suc_eq_0_disj nth_Cons split: nat.splits)
qed

lemma find_index_None: "find_index P xs = None \<longleftrightarrow> (\<forall>x \<in> set xs. \<not> P x)"
  by (induction xs) auto

lemma deque_modify_fst [simp]: "map fst (deque_modify p f d) = map fst d"
  by (auto simp: deque_modify_def)

lemma length_deque_modify [simp]: "length (deque_modify p f d) = length d"
  by (simp add: deque_modify_def)

lemma set_deque_modify:
  "set (deque_modify p f d) = (\<lambda>(q, x). (q, if q = p then f x else x)) ` set d"
  by (simp add: deque_modify_def)

lemma map_of_deque_modify:
  "map_of (deque_modify p f d) q = (if q = p then map_option f (map_of d q) else map_of d q)"
  by (induction d) (auto simp: deque_modify_def)

lemma map_snd_deque_modify:
  "(\<And>x. g (f x) = g x) \<Longrightarrow> map (g \<circ> snd) (deque_modify p f d) = map (g \<circ> snd) d"
  by (auto simp: deque_modify_def)

lemma length_relocate [simp]: "length (relocate n d) = length d"
  by (simp add: relocate_def)

lemma map_fst_relocate [simp]: "map fst (relocate n d) = [n ..< n + length d]"
  by (simp add: relocate_def)

lemma map_snd_relocate [simp]: "map snd (relocate n d) = map snd d"
  by (simp add: relocate_def)

lemma deque_erase_ends:
  assumes "k < length d" and "k = 0 \<or> Suc k = length d"
  shows "deque_erase n k d = take k d @ drop (Suc k) d"
proof (cases "k = 0")
  case False
  with assms have last: "Suc k = length d" by simp
  then have "butlast d = take k d" by (metis butlast_conv_take diff_Suc_1)
  with False last show ?thesis by (simp add: deque_erase_def)
qed (simp add: deque_erase_def drop_Suc)

lemma map_snd_deque_erase:
  assumes "k < length d"
  shows "map snd (deque_erase n k d) = take k (map snd d) @ drop (Suc k) (map snd d)"
proof (cases "k = 0 \<or> Suc k = length d")
  case True
  with assms show ?thesis by (simp add: deque_erase_ends take_map drop_map)
qed (simp add: deque_erase_def take_map drop_map)

lemma distinct_map_remove_nth:
  "distinct (map f d) \<Longrightarrow> distinct (map f (take k d @ drop (Suc k) d))"
  by (simp only: map_append take_map [symmetric] drop_map [symmetric])
    (simp add: set_take_disj_set_drop_if_distinct)

lemma set_remove_nth: "set (take k d @ drop (Suc k) d) \<subseteq> set d"
  by (auto dest: in_set_takeD in_set_dropD)

end
