(* ===== verification/Cpp_Std.thy ===== *)
theory Cpp_Std
  imports Prelude
begin

text \<open>
  What the code uses of the C++ standard library on text: \<open>std::to_string\<close> and the decimal stream
  output of integers, \<open>std::stoul\<close> and \<open>std::stol\<close> with their exceptions, the implicit integer
  conversions applied to their results, \<open>std::string::rfind\<close> with its \<open>npos\<close>, \<open>substr\<close> and the
  upper-case conversion of the C locale. A \<open>std::string\<close> is a list of characters (bytes).
\<close>

section \<open>Decimal output\<close>

definition digit_char :: "nat \<Rightarrow> char" where
  "digit_char d = char_of (48 + d)"

fun show_nat :: "nat \<Rightarrow> string" where
  "show_nat n = (if n < 10 then [digit_char n] else show_nat (n div 10) @ [digit_char (n mod 10)])"

declare show_nat.simps [simp del]

definition to_string :: "'n::len word \<Rightarrow> string" where
  "to_string w = show_nat (unat w)"

definition show_int :: "int \<Rightarrow> string" where
  "show_int i = (if i < 0 then CHR ''-'' # show_nat (nat (- i)) else show_nat (nat i))"

section \<open>Decimal input\<close>

definition is_space :: "char \<Rightarrow> bool" where
  "is_space c \<longleftrightarrow> (let n = of_char c :: nat in n = 32 \<or> 9 \<le> n \<and> n \<le> 13)"

definition is_digit :: "char \<Rightarrow> bool" where
  "is_digit c \<longleftrightarrow> (let n = of_char c :: nat in 48 \<le> n \<and> n \<le> 57)"

definition nat_of_digits :: "string \<Rightarrow> nat" where
  "nat_of_digits ds = foldl (\<lambda>n c. 10 * n + (of_char c - 48)) 0 ds"

text \<open>The subject sequence of \<open>strtoul\<close> and \<open>strtol\<close> in base ten: blanks are skipped, one sign is
  allowed, and the digits end at the first other character. No digit: no conversion.\<close>

definition parse_sign :: "string \<Rightarrow> bool \<times> string" where
  "parse_sign s = (case s of
       c # cs \<Rightarrow> if c = CHR ''-'' then (True, cs) else if c = CHR ''+'' then (False, cs) else (False, s)
     | [] \<Rightarrow> (False, []))"

definition parse_integer :: "string \<Rightarrow> (bool \<times> nat) option" where
  "parse_integer s =
     (let (negative, rest) = parse_sign (dropWhile is_space s); ds = takeWhile is_digit rest
      in if ds = [] then None else Some (negative, nat_of_digits ds))"

definition stoul :: "string \<Rightarrow> exn + u64" where
  "stoul s = (case parse_integer s of
       None \<Rightarrow> Inl Invalid_argument
     | Some (negative, n) \<Rightarrow>
         if 2 ^ 64 \<le> n then Inl Out_of_range
         else Inr (if negative then - word_of_nat n else word_of_nat n))"

definition stol :: "string \<Rightarrow> exn + int" where
  "stol s = (case parse_integer s of
       None \<Rightarrow> Inl Invalid_argument
     | Some (negative, n) \<Rightarrow>
         let i = (if negative then - int n else int n)
         in if i < - (2 ^ 63) \<or> 2 ^ 63 \<le> i then Inl Out_of_range else Inr i)"

text \<open>The conversion of \<open>long\<close> to \<open>int\<close> keeps the low 32 bits as a signed value.\<close>

definition int_of_long :: "int \<Rightarrow> int" where
  "int_of_long i = (i + 2 ^ 31) mod 2 ^ 32 - 2 ^ 31"

section \<open>C strings\<close>

text \<open>What a function that takes \<open>const char*\<close> sees of a \<open>std::string\<close>: the part before the first
  NUL character.\<close>

definition c_str :: "string \<Rightarrow> string" where
  "c_str s = takeWhile (\<lambda>c. c \<noteq> CHR 0x00) s"

lemma c_str_id: "CHR 0x00 \<notin> set s \<Longrightarrow> c_str s = s"
  by (simp add: c_str_def takeWhile_eq_all_conv) blast

section \<open>Searching\<close>

definition npos :: u64 where
  "npos = - 1"

text \<open>The last position at which the pattern occurs.\<close>

definition occurrences :: "string \<Rightarrow> string \<Rightarrow> nat list" where
  "occurrences s pat = filter (\<lambda>i. take (length pat) (drop i s) = pat) [0 ..< Suc (length s)]"

definition rfind :: "string \<Rightarrow> string \<Rightarrow> u64" where
  "rfind s pat = (case occurrences s pat of [] \<Rightarrow> npos | is \<Rightarrow> word_of_nat (last is))"

text \<open>\<open>substr(0, n)\<close>: at most the whole string.\<close>

definition substr0 :: "string \<Rightarrow> u64 \<Rightarrow> string" where
  "substr0 s n = take (unat n) s"

definition to_upper :: "char \<Rightarrow> char" where
  "to_upper c = (let n = of_char c :: nat in if 97 \<le> n \<and> n \<le> 122 then char_of (n - 32) else c)"

section \<open>Lemmas on decimal text\<close>

lemma of_char_digit_char [simp]: "d < 10 \<Longrightarrow> (of_char (digit_char d) :: nat) = 48 + d"
  by (simp add: digit_char_def)

lemma is_digit_digit_char [simp]: "d < 10 \<Longrightarrow> is_digit (digit_char d)"
  by (simp add: is_digit_def)

lemma digit_not_special:
  assumes "is_digit c"
  shows "\<not> is_space c" and "c \<noteq> CHR ''-''" and "c \<noteq> CHR ''+''"
  using assms by (auto simp: is_digit_def is_space_def Let_def)

lemma show_nat_nonempty [simp]: "show_nat n \<noteq> []"
  by (subst show_nat.simps) simp

lemma to_string_nonempty [simp]: "to_string w \<noteq> []"
  by (simp add: to_string_def)

lemma show_nat_digits: "\<forall>c \<in> set (show_nat n). is_digit c"
proof (induction n rule: show_nat.induct)
  case (1 n)
  then show ?case by (subst show_nat.simps) auto
qed

lemma nat_of_digits_append:
  "nat_of_digits (ds @ [c]) = 10 * nat_of_digits ds + (of_char c - 48)"
  by (simp add: nat_of_digits_def)

lemma nat_of_digits_show_nat [simp]: "nat_of_digits (show_nat n) = n"
proof (induction n rule: show_nat.induct)
  case (1 n)
  show ?case
  proof (cases "n < 10")
    case True
    then show ?thesis by (subst show_nat.simps) (simp add: nat_of_digits_def)
  next
    case False
    with 1 show ?thesis by (subst show_nat.simps) (simp add: nat_of_digits_append)
  qed
qed

lemma parse_integer_show_nat [simp]: "parse_integer (show_nat n) = Some (False, n)"
proof -
  obtain c cs where c: "show_nat n = c # cs" by (cases "show_nat n") auto
  with show_nat_digits [of n] have "is_digit c" by simp
  note d = digit_not_special [OF this]
  have sp: "dropWhile is_space (show_nat n) = show_nat n" using c d by simp
  have sg: "parse_sign (show_nat n) = (False, show_nat n)" using c d by (simp add: parse_sign_def)
  have tw: "takeWhile is_digit (show_nat n) = show_nat n"
    using show_nat_digits by (simp add: takeWhile_eq_all_conv)
  show ?thesis by (simp add: parse_integer_def sp sg tw)
qed

lemma parse_integer_show_int: "parse_integer (show_int i) = Some (i < 0, nat \<bar>i\<bar>)"
proof (cases "i < 0")
  case True
  have tw: "takeWhile is_digit (show_nat n) = show_nat n" for n
    using show_nat_digits by (simp add: takeWhile_eq_all_conv)
  have "\<not> is_space (CHR ''-'')" by (simp add: is_space_def)
  with True show ?thesis
    by (simp add: parse_integer_def show_int_def parse_sign_def tw)
qed (simp add: show_int_def)

lemma stoul_show_nat: "n < 2 ^ 64 \<Longrightarrow> stoul (show_nat n) = Inr (word_of_nat n)"
  by (simp add: stoul_def)

lemma stoul_to_string_u32: "stoul (to_string (w :: u32)) = Inr (ucast w)"
proof -
  have "unat w < 2 ^ LENGTH(32)" by (rule unsigned_less)
  then show ?thesis by (simp add: to_string_def stoul_show_nat)
qed

lemma stol_show_int: "- (2 ^ 63) \<le> i \<Longrightarrow> i < 2 ^ 63 \<Longrightarrow> stol (show_int i) = Inr i"
  by (auto simp: stol_def parse_integer_show_int Let_def)

lemma show_int_of_nat: "show_int (int n) = show_nat n"
  by (simp add: show_int_def)

lemma int_of_long_id: "- (2 ^ 31) \<le> i \<Longrightarrow> i < 2 ^ 31 \<Longrightarrow> int_of_long i = i"
  by (simp add: int_of_long_def)

lemma int_of_long_range: "- (2 ^ 31) \<le> int_of_long i \<and> int_of_long i < 2 ^ 31"
  by (simp add: int_of_long_def)

end
