(* ===== verification/Connection.thy ===== *)
theory Connection
  imports Cpp_Std
begin

text \<open>
  The client connection (\<^verbatim>\<open>include/OPC-UA-Connection.h\<close>): the connection state the state
  callback records, the test \<open>isConnected\<close>, and the set-up of the client configuration with
  its certificate, key and list files.
\<close>

section \<open>Connection state\<close>

text \<open>The states the code names (\<open>UA_SecureChannelState\<close>, \<open>UA_SessionState\<close>); the last
  constructor stands for the values that reach the \<open>default\<close> of its switches.\<close>

datatype channel_state =
    Channel_closed | Channel_hel_sent | Channel_opn_sent | Channel_open | Channel_rhe_sent
  | Channel_reverse_listening | Channel_hel_received | Channel_ack_sent | Channel_ack_received
  | Channel_connecting | Channel_connected | Channel_closing | Channel_other nat

datatype session_state =
    Session_activated | Session_closed | Session_closing | Session_create_requested
  | Session_activate_requested | Session_created | Session_other nat

datatype security_mode = Mode_default | Sign_and_encrypt

abbreviation (input) UA_STATUSCODE_GOOD :: u32 where "UA_STATUSCODE_GOOD \<equiv> 0"

type_synonym bytes = "u8 list"

text \<open>What the constructor asks of the client library: the plain default configuration, or
  encryption with certificate and key, either accepting every server certificate or with a
  trust list and a revocation list.\<close>

datatype client_setup =
    Set_default
  | Set_encryption_accept_all bytes bytes
  | Set_encryption bytes bytes "bytes list" "bytes list"

record client_config =
  securityMode :: security_mode
  security_setup :: client_setup
  userIdentityToken :: "(string \<times> string) option"
  timeout :: u32

record connection =
  serverAddress :: string
  channelState :: channel_state
  sessionState :: session_state
  username :: string
  password :: string
  certificate :: string
  key :: string
  publishingInterval :: u64
  connectionTimeout :: u64
  config :: client_config

definition isConnected :: "connection \<Rightarrow> bool" where
  "isConnected c \<longleftrightarrow> sessionState c = Session_activated \<and> channelState c = Channel_open"

text \<open>
  The conversion of a C++ \<open>double\<close> to \<open>unsigned long\<close> truncates towards zero and is
  undefined when the truncated value does not fit. A finite double is a rational number.
\<close>

definition truncate_rat :: "rat \<Rightarrow> int" where
  "truncate_rat r = (if 0 \<le> r then \<lfloor>r\<rfloor> else \<lceil>r\<rceil>)"

definition double_to_ulong :: "rat \<Rightarrow> u64 option" where
  "double_to_ulong r =
     (let i = truncate_rat r in if 0 \<le> i \<and> i < 2 ^ 64 then Some (word_of_int i) else None)"

lemma double_to_ulong_of_nat:
  "n < 2 ^ 64 \<Longrightarrow> double_to_ulong (of_nat n) = Some (word_of_nat n)"
  by (simp add: double_to_ulong_def truncate_rat_def Let_def)

lemma double_to_ulong_Some:
  assumes "double_to_ulong r = Some w"
  shows "uint w = truncate_rat r"
  using assms
  by (auto simp: double_to_ulong_def Let_def uint_word_of_int split: if_splits)

section \<open>Set-up\<close>

text \<open>
  \<open>files\<close> is what opening and reading a file yields: nothing, or the length the file reports and the
  bytes \<open>fread\<close> returned. \<open>dirs\<close> lists a directory. Paths are C strings. Memory allocation is taken to
  succeed.
\<close>

definition loadFile :: "(string \<Rightarrow> (nat \<times> bytes) option) \<Rightarrow> string \<Rightarrow> bytes" where
  "loadFile files p =
     (case files (c_str p) of
        None \<Rightarrow> []
      | Some (len, data) \<Rightarrow> if length data \<noteq> len then [] else data)"

text \<open>The path of an entry is printed into a buffer of 1024 bytes; \<open>None\<close> when it does not fit.\<close>

primrec load_entries ::
    "(string \<Rightarrow> (nat \<times> bytes) option) \<Rightarrow> string \<Rightarrow> string list \<Rightarrow> bytes list \<Rightarrow> bytes list option" where
  "load_entries files dir [] loaded = Some loaded"
| "load_entries files dir (d_name # names) loaded =
     (if d_name = ''.'' \<or> d_name = ''..'' then load_entries files dir names loaded
      else let sbuf = c_str dir @ ''/'' @ d_name
           in if 1024 \<le> length sbuf then None
              else load_entries files dir names (loaded @ [loadFile files sbuf]))"

definition loadFilesFromDir ::
    "(string \<Rightarrow> (nat \<times> bytes) option) \<Rightarrow> (string \<Rightarrow> string list option) \<Rightarrow> string \<Rightarrow> bytes list option" where
  "loadFilesFromDir files dirs dir =
     (case dirs (c_str dir) of None \<Rightarrow> Some [] | Some names \<Rightarrow> load_entries files dir names [])"

text \<open>The certificate and the key are handed to the library in the order certificate, key.\<close>

definition security_config ::
    "(string \<Rightarrow> (nat \<times> bytes) option) \<Rightarrow> (string \<Rightarrow> string list option) \<Rightarrow> string \<Rightarrow> string \<Rightarrow> bool \<Rightarrow>
     string \<Rightarrow> string \<Rightarrow> client_setup option" where
  "security_config files dirs cert_file key_file trustAny trustListFolder revocationListFolder =
     (let privateKey = loadFile files key_file; cert = loadFile files cert_file
      in if trustAny then Some (Set_encryption_accept_all cert privateKey)
         else (case loadFilesFromDir files dirs trustListFolder of
                 None \<Rightarrow> None
               | Some trustList \<Rightarrow>
                   (case loadFilesFromDir files dirs revocationListFolder of
                      None \<Rightarrow> None
                    | Some revocationList \<Rightarrow>
                        Some (Set_encryption cert privateKey trustList revocationList))))"

definition OPCUAConnection ::
    "(string \<Rightarrow> (nat \<times> bytes) option) \<Rightarrow> (string \<Rightarrow> string list option) \<Rightarrow> string \<Rightarrow> string \<Rightarrow> string \<Rightarrow>
     u64 \<Rightarrow> u64 \<Rightarrow> string \<Rightarrow> string \<Rightarrow> bool \<Rightarrow> string \<Rightarrow> string \<Rightarrow> connection option" where
  "OPCUAConnection files dirs adr user pass interval tmo cert_file privateKey trustAny
       trustListFolder revocationListFolder =
     (let c = \<lparr>serverAddress = adr, channelState = Channel_closed, sessionState = Session_closed,
           username = user, password = pass, certificate = cert_file, key = privateKey,
           publishingInterval = interval, connectionTimeout = tmo,
           config = \<lparr>securityMode = Mode_default, security_setup = Set_default,
             userIdentityToken = None, timeout = ucast tmo\<rparr>\<rparr>
      in if cert_file \<noteq> [] \<and> privateKey \<noteq> []
         then map_option (\<lambda>setup. c\<lparr>config := \<lparr>securityMode = Sign_and_encrypt, security_setup = setup,
                  userIdentityToken =
                    (if user \<noteq> [] \<and> pass \<noteq> [] then Some (c_str user, c_str pass) else None),
                  timeout = ucast tmo\<rparr>\<rparr>)
                (security_config files dirs cert_file privateKey trustAny trustListFolder
                   revocationListFolder)
         else Some c)"

end
