(* ===== verification/Subscription_State.thy ===== *)
theory Subscription_State
  imports Connection
begin

text \<open>
  The state of the subscription manager (\<^verbatim>\<open>include/SubscriptionManager.h\<close>) and those of its
  operations that the client library never re-enters (\<^verbatim>\<open>src/SubscriptionManager.cc\<close>):
  exceptions and values pushed to the accessors, deactivation, removal of the subscription and
  the reset of the monitored items.
\<close>

section \<open>Data\<close>

datatype node_identifier =
    Numeric u32        \<comment> \<open>UA_NODEIDTYPE_NUMERIC\<close>
  | Str string         \<comment> \<open>UA_NODEIDTYPE_STRING\<close>
  | Opaque u32         \<comment> \<open>any other kind, with what \<open>identifier.numeric\<close> reads of the union\<close>

record node_id =
  namespaceIndex :: u16
  node_identifier :: node_identifier

text \<open>The part of a \<open>UA_DataValue\<close> the backend reads; the variant's content is abstract.\<close>

record 'v data_value =
  hasValue :: bool
  dv_value :: 'v
  dv_status :: u32
  sourceTimestamp :: int

text \<open>The copy constructor of \<open>ManagedDataValue\<close> overwrites the status with that of the copying, which is
  taken to succeed.\<close>

definition copied_value :: "'v data_value \<Rightarrow> 'v data_value" where
  "copied_value d = d\<lparr>dv_status := UA_STATUSCODE_GOOD\<rparr>"

lemma hasValue_copied [simp]: "hasValue (copied_value d) = hasValue d"
  by (simp add: copied_value_def)

text \<open>What happens to a notification queue: a value is handed to its \<open>push_overwrite\<close>, an exception to its
  \<open>push_overwrite_exception\<close>, or its reader takes the entry at the front.\<close>

datatype 'v notification = Pushed "'v data_value" | Pushed_exception string | Taken

type_synonym acc_id = nat

text \<open>An accessor as the manager sees it. The notification queue is a \<open>cppext::future_queue\<close>,
  which is not part of the repository: \<open>notifications\<close> is what has happened to it, oldest first, and what it
  holds then is a function of that (theory \<open>Notification_Queue\<close>).\<close>

record 'v accessor =
  indexRange :: string
  acc_data :: "'v data_value"
  notifications :: "'v notification list"

record monitor_item =
  item_node :: node_id
  item_accessors :: "acc_id list"
  item_id :: u32
  item_active :: bool
  isMonitored :: bool
  hasException :: bool
  browseName :: string

definition MonitorItem :: "string \<Rightarrow> node_id \<Rightarrow> acc_id \<Rightarrow> monitor_item" where
  "MonitorItem name node accessor =
     \<lparr>item_node = node, item_accessors = [accessor], item_id = 0, item_active = False,
      isMonitored = False, hasException = False, browseName = name\<rparr>"

text \<open>The calls made on the client library, in order.\<close>

datatype 'v ua_call =
    Delete_subscription u32
  | Create_subscription u64
  | Create_monitored_item u32 node_id string
  | Delete_monitored_item u32 u32
  | Client_connect string
  | Client_connectUsername string string string
  | Client_disconnect
  | Read_value node_id
  | Write_value node_id 'v         \<comment> \<open>with the variant that is sent\<close>

text \<open>
  The members of \<open>OPCUASubscriptionManager\<close>. \<open>opcuaThread\<close> tells whether the thread pointer is
  set; \<open>thread_live\<close> whether \<open>runClient\<close> is still executing in that thread. The connection and
  the accessors are shared with the backend.
\<close>

record 'v manager =
  conn :: connection
  accessors :: "acc_id \<Rightarrow> 'v accessor"
  ua_calls :: "'v ua_call list"
  run :: bool
  subscriptionActive :: bool
  subscriptionNeedsToBeRemoved :: bool
  asyncReadActive :: bool
  subscriptionID :: u32
  items :: "monitor_item deque"
  subscriptionMap :: "(u32 \<times> addr) list"
  opcuaThread :: bool
  thread_live :: bool
  next_addr :: addr

section \<open>Pushing to accessors\<close>

definition push_notification ::
    "'v notification \<Rightarrow> acc_id \<Rightarrow> ('v, 'z) manager_scheme \<Rightarrow> ('v, 'z) manager_scheme" where
  "push_notification n a s =
     s\<lparr>accessors := (accessors s)
        (a := (accessors s a)\<lparr>notifications := notifications (accessors s a) @ [n]\<rparr>)\<rparr>"

definition push_all ::
    "'v notification \<Rightarrow> acc_id list \<Rightarrow> ('v, 'z) manager_scheme \<Rightarrow> ('v, 'z) manager_scheme" where
  "push_all n as s = fold (push_notification n) as s"

definition modify_item ::
    "addr \<Rightarrow> (monitor_item \<Rightarrow> monitor_item) \<Rightarrow> ('v, 'z) manager_scheme \<Rightarrow>
     ('v, 'z) manager_scheme" where
  "modify_item p f s = s\<lparr>items := deque_modify p f (items s)\<rparr>"

definition handle_item ::
    "string \<Rightarrow> addr \<times> monitor_item \<Rightarrow> ('v, 'z) manager_scheme \<Rightarrow> ('v, 'z) manager_scheme" where
  "handle_item message = (\<lambda>(p, item) s.
     if item_active item \<and> \<not> hasException item
     then push_all (Pushed_exception message) (item_accessors item)
            (modify_item p (\<lambda>x. x\<lparr>hasException := True\<rparr>) s)
     else s)"

definition handleException ::
    "string \<Rightarrow> ('v, 'z) manager_scheme \<Rightarrow> ('v, 'z) manager_scheme" where
  "handleException message s = fold (handle_item message) (items s) s"

text \<open>\<open>setExternalError\<close> marks the item of a register whose accessor saw an error itself.\<close>

definition setExternalError ::
    "string \<Rightarrow> ('v, 'z) manager_scheme \<Rightarrow> ('v, 'z) manager_scheme" where
  "setExternalError name s =
     (case find_index (\<lambda>(p, item). browseName item = name) (items s) of
        None \<Rightarrow> s
      | Some k \<Rightarrow> modify_item (fst (items s ! k)) (\<lambda>x. x\<lparr>hasException := True\<rparr>) s)"

text \<open>
  \<open>responseHandler\<close>: a data change notification for the monitored item \<open>monId\<close>. An unknown id
  is the \<open>std::out_of_range\<close> of \<open>at\<close>, caught and only logged.
\<close>

definition responseHandler ::
    "u32 \<Rightarrow> 'v data_value \<Rightarrow> ('v, 'z) manager_scheme \<Rightarrow> ('v, 'z) manager_scheme result" where
  "responseHandler monId value s =
     (case map_of (subscriptionMap s) monId of
        None \<Rightarrow> Done s
      | Some p \<Rightarrow>
          (case map_of (items s) p of
             None \<Rightarrow> Undefined
           | Some item \<Rightarrow>
               if item_active item
               then Done (push_all (Pushed value) (item_accessors item)
                            (modify_item p (\<lambda>x. x\<lparr>hasException := False\<rparr>) s))
               else Done s))"

section \<open>Deactivation\<close>

definition resetMonitoredItems :: "('v, 'z) manager_scheme \<Rightarrow> ('v, 'z) manager_scheme" where
  "resetMonitoredItems s =
     s\<lparr>items := map (\<lambda>(p, item). (p, item\<lparr>isMonitored := False\<rparr>)) (items s),
       subscriptionMap := []\<rparr>"

definition setInactive :: "('v, 'z) manager_scheme \<Rightarrow> ('v, 'z) manager_scheme" where
  "setInactive s = s\<lparr>subscriptionActive := False, subscriptionID := 0\<rparr>"

text \<open>
  \<open>removeSubscription\<close>: the argument tells whether the client library ran
  \<open>deleteSubscriptionCallback\<close> (and so \<open>setInactive\<close>) while it deleted the subscription.
\<close>

definition removeSubscription ::
    "bool \<Rightarrow> ('v, 'z) manager_scheme \<Rightarrow> ('v, 'z) manager_scheme" where
  "removeSubscription deleted s =
     (let s1 = s\<lparr>ua_calls := ua_calls s @ [Delete_subscription (subscriptionID s)]\<rparr>;
          s2 = (if deleted then setInactive s1 else s1)
      in resetMonitoredItems (s2\<lparr>subscriptionID := 0\<rparr>))"

text \<open>The first loop of \<open>deactivate\<close> writes through every pointer of the subscription map.\<close>

definition deactivate_items :: "('v, 'z) manager_scheme \<Rightarrow> ('v, 'z) manager_scheme result" where
  "deactivate_items s =
     (if \<forall>p \<in> set (map snd (subscriptionMap s)). p \<in> set (map fst (items s))
      then Done (s\<lparr>items := map (\<lambda>(p, item).
             (p, if p \<in> set (map snd (subscriptionMap s)) then item\<lparr>item_active := False\<rparr> else item))
             (items s)\<rparr>)
      else Undefined)"

text \<open>
  \<open>deactivate\<close>: \<open>locked\<close> tells whether the calling thread already holds the client lock, as it
  does in the callbacks of the client library. The lock is not recursive, so the branch without
  a thread blocks for ever in that case.
\<close>

definition deactivate ::
    "bool \<Rightarrow> bool \<Rightarrow> ('v, 'z) manager_scheme \<Rightarrow> ('v, 'z) manager_scheme result" where
  "deactivate locked deleted s =
     seq (deactivate_items s) (\<lambda>s.
     let s1 = (if run s then s\<lparr>run := False\<rparr> else s)
     in if subscriptionActive s1
        then let s2 = s1\<lparr>subscriptionActive := False\<rparr>
             in if opcuaThread s2
                then Done (s2\<lparr>subscriptionNeedsToBeRemoved := True, asyncReadActive := False\<rparr>)
                else if locked then Blocked
                else Done ((removeSubscription deleted s2)\<lparr>asyncReadActive := False\<rparr>)
        else Done (s1\<lparr>asyncReadActive := False\<rparr>))"

definition deactivateAllAndPushException ::
    "bool \<Rightarrow> bool \<Rightarrow> string \<Rightarrow> ('v, 'z) manager_scheme \<Rightarrow> ('v, 'z) manager_scheme result" where
  "deactivateAllAndPushException locked deleted message s =
     deactivate locked deleted (handleException message s)"

section \<open>Closed forms\<close>

lemma push_all_eq:
  "push_all n as s =
     s\<lparr>accessors := (\<lambda>a. (accessors s a)
        \<lparr>notifications := notifications (accessors s a) @ replicate (count_list as a) n\<rparr>)\<rparr>"
  unfolding push_all_def
proof (induction as arbitrary: s)
  case Nil
  then show ?case by simp
next
  case (Cons b bs)
  have "(\<lambda>a. (accessors (push_notification n b s) a)
      \<lparr>notifications := notifications (accessors (push_notification n b s) a)
        @ replicate (count_list bs a) n\<rparr>) =
    (\<lambda>a. (accessors s a)
      \<lparr>notifications := notifications (accessors s a) @ replicate (count_list (b # bs) a) n\<rparr>)"
    by (rule ext) (simp add: push_notification_def replicate_append_same [symmetric])
  with Cons show ?case by (simp add: push_notification_def)
qed

text \<open>The number of exceptions one pass of \<open>handleException\<close> hands to an accessor.\<close>

definition pending_items :: "monitor_item deque \<Rightarrow> monitor_item list" where
  "pending_items d = filter (\<lambda>item. item_active item \<and> \<not> hasException item) (map snd d)"

definition pending_count :: "monitor_item deque \<Rightarrow> acc_id \<Rightarrow> nat" where
  "pending_count d a = (\<Sum>item \<leftarrow> pending_items d. count_list (item_accessors item) a)"

definition mark_exception :: "monitor_item \<Rightarrow> monitor_item" where
  "mark_exception item = (if item_active item then item\<lparr>hasException := True\<rparr> else item)"

lemma fold_handle_item:
  "fold (handle_item message) xs s =
     s\<lparr>items := map (\<lambda>(p, item). (p,
          if \<exists>x. (p, x) \<in> set xs \<and> item_active x \<and> \<not> hasException x
          then item\<lparr>hasException := True\<rparr> else item)) (items s),
       accessors := (\<lambda>a. (accessors s a)\<lparr>notifications := notifications (accessors s a)
          @ replicate (pending_count xs a) (Pushed_exception message)\<rparr>)\<rparr>"
proof (induction xs arbitrary: s)
  case Nil
  then show ?case by (simp add: pending_count_def pending_items_def case_prod_beta)
next
  case (Cons y ys)
  obtain q it where y: "y = (q, it)" by fastforce
  show ?case
  proof (cases "item_active it \<and> \<not> hasException it")
    case True
    let ?mark = "\<lambda>(p, item). (p, if p = q then item\<lparr>hasException := True\<rparr> else item)"
    from True have step: "handle_item message y s =
        s\<lparr>items := map ?mark (items s),
          accessors := (\<lambda>a. (accessors s a)\<lparr>notifications := notifications (accessors s a)
            @ replicate (count_list (item_accessors it) a) (Pushed_exception message)\<rparr>)\<rparr>"
      by (simp add: handle_item_def y push_all_eq modify_item_def deque_modify_def)
    have cnt: "pending_count (y # ys) a = count_list (item_accessors it) a + pending_count ys a" for a
      using True by (simp add: pending_count_def pending_items_def y)
    have "map (\<lambda>(p, item). (p, if \<exists>x. (p, x) \<in> set ys \<and> item_active x \<and> \<not> hasException x
            then item\<lparr>hasException := True\<rparr> else item)) (map ?mark (items s)) =
        map (\<lambda>(p, item). (p, if \<exists>x. (p, x) \<in> set (y # ys) \<and> item_active x \<and> \<not> hasException x
            then item\<lparr>hasException := True\<rparr> else item)) (items s)"
      using True by (auto simp: y)
    then show ?thesis
      by (simp only: fold.simps comp_apply Cons.IH step) (simp add: cnt replicate_add)
  next
    case False
    then have step: "handle_item message y s = s" by (auto simp: handle_item_def y)
    have cnt: "pending_count (y # ys) a = pending_count ys a" for a
      using False by (auto simp: pending_count_def pending_items_def y)
    have ex: "(\<exists>x. (p, x) \<in> set (y # ys) \<and> item_active x \<and> \<not> hasException x) \<longleftrightarrow>
        (\<exists>x. (p, x) \<in> set ys \<and> item_active x \<and> \<not> hasException x)" for p
      using False by (auto simp: y)
    show ?thesis by (simp only: fold.simps comp_apply step Cons.IH cnt ex)
  qed
qed

lemma handleException_eq:
  assumes "distinct (map fst (items s))"
  shows "handleException message s =
     s\<lparr>items := map (\<lambda>(p, item). (p, mark_exception item)) (items s),
       accessors := (\<lambda>a. (accessors s a)\<lparr>notifications := notifications (accessors s a)
          @ replicate (pending_count (items s) a) (Pushed_exception message)\<rparr>)\<rparr>"
proof -
  have uniq: "(p, x) \<in> set (items s) \<Longrightarrow> (p, y) \<in> set (items s) \<Longrightarrow> x = y" for p x y
    using assms by (rule eq_key_imp_eq_value)
  have "map (\<lambda>(p, item). (p,
          if \<exists>x. (p, x) \<in> set (items s) \<and> item_active x \<and> \<not> hasException x
          then item\<lparr>hasException := True\<rparr> else item)) (items s)
      = map (\<lambda>(p, item). (p, mark_exception item)) (items s)"
    by (rule map_cong [OF refl]) (auto simp: mark_exception_def dest: uniq)
  then show ?thesis by (simp add: handleException_def fold_handle_item)
qed

section \<open>Well-formedness\<close>

text \<open>
  The registry part: every item has an address of its own, a name of its own and at least one
  accessor. The map part: every pointer of the subscription map points to a live item that is
  monitored under the id it is stored at. Both only read what \<open>item_skel\<close> keeps of an item, so
  the operations that change flags alone keep them.
\<close>

definition item_skel :: "monitor_item \<Rightarrow> monitor_item" where
  "item_skel item = item\<lparr>item_active := False, hasException := False\<rparr>"

definition skel ::
    "('v, 'z) manager_scheme \<Rightarrow> monitor_item deque \<times> (u32 \<times> addr) list \<times> addr \<times> 'z" where
  "skel s = (map (\<lambda>(p, item). (p, item_skel item)) (items s), subscriptionMap s, next_addr s,
     manager.more s)"

definition wf_items :: "monitor_item deque \<Rightarrow> addr \<Rightarrow> bool" where
  "wf_items d n \<longleftrightarrow>
     distinct (map fst d) \<and> (\<forall>p \<in> set (map fst d). p < n) \<and>
     distinct (map (browseName \<circ> snd) d) \<and> (\<forall>item \<in> set (map snd d). item_accessors item \<noteq> [])"

definition wf_map :: "monitor_item deque \<Rightarrow> (u32 \<times> addr) list \<Rightarrow> bool" where
  "wf_map d m \<longleftrightarrow>
     distinct (map fst m) \<and>
     (\<forall>(i, p) \<in> set m. \<exists>item. (p, item) \<in> set d \<and> item_id item = i \<and> isMonitored item)"

definition wf_manager :: "('v, 'z) manager_scheme \<Rightarrow> bool" where
  "wf_manager s \<longleftrightarrow> wf_items (items s) (next_addr s) \<and> wf_map (items s) (subscriptionMap s)"

text \<open>The loop flag is set only while \<open>runClient\<close> executes, and that only in the thread object.\<close>

definition thread_ok :: "('v, 'z) manager_scheme \<Rightarrow> bool" where
  "thread_ok s \<longleftrightarrow> (run s \<longrightarrow> thread_live s) \<and> (thread_live s \<longrightarrow> opcuaThread s)"

lemma item_skel_sel [simp]:
  "item_accessors (item_skel item) = item_accessors item"
  "item_id (item_skel item) = item_id item"
  "isMonitored (item_skel item) = isMonitored item"
  "browseName (item_skel item) = browseName item"
  "item_node (item_skel item) = item_node item"
  by (simp_all add: item_skel_def)

lemma item_skel_mark [simp]: "item_skel (mark_exception item) = item_skel item"
  by (simp add: item_skel_def mark_exception_def)

lemma item_skel_flags [simp]:
  "item_skel (item\<lparr>hasException := b\<rparr>) = item_skel item"
  "item_skel (item\<lparr>item_active := b\<rparr>) = item_skel item"
  by (simp_all add: item_skel_def)

lemma map_of_map_snd: "map_of (map (\<lambda>(p, x). (p, f x)) d) p = map_option f (map_of d p)"
  by (induction d) auto

lemma wf_items_skel: "wf_items (map (\<lambda>(p, item). (p, item_skel item)) d) n = wf_items d n"
  by (force simp: wf_items_def comp_def case_prod_beta)

lemma wf_map_skel: "wf_map (map (\<lambda>(p, item). (p, item_skel item)) d) m = wf_map d m"
  unfolding wf_map_def by (rule conj_cong [OF refl], rule ball_cong [OF refl]) force

lemma wf_manager_cong:
  assumes "skel s = skel t"
  shows "wf_manager s = wf_manager t"
proof -
  from assms have d: "map (\<lambda>(p, item). (p, item_skel item)) (items s) =
      map (\<lambda>(p, item). (p, item_skel item)) (items t)"
    and m: "subscriptionMap s = subscriptionMap t" and n: "next_addr s = next_addr t"
    by (simp_all add: skel_def)
  have "wf_items (items s) (next_addr s) = wf_items (items t) (next_addr t)"
    using wf_items_skel [of "items s"] wf_items_skel [of "items t"] d n by simp
  moreover have "wf_map (items s) (subscriptionMap s) = wf_map (items t) (subscriptionMap t)"
    using wf_map_skel [of "items s"] wf_map_skel [of "items t"] d m by simp
  ultimately show ?thesis by (simp add: wf_manager_def)
qed

lemma wf_manager_skel: "skel t = skel s \<Longrightarrow> wf_manager s \<Longrightarrow> wf_manager t"
  using wf_manager_cong by blast

lemma map_fst_map_snd: "map fst (map (\<lambda>(p, x). (p, f x)) d) = map fst d"
  by (simp add: comp_def case_prod_beta)

lemma skel_fst:
  assumes "skel s = skel t"
  shows "map fst (items s) = map fst (items t)"
proof -
  from assms have "map (\<lambda>(p, item). (p, item_skel item)) (items s) =
      map (\<lambda>(p, item). (p, item_skel item)) (items t)"
    by (simp add: skel_def)
  from arg_cong [OF this, of "map fst"] show ?thesis by (simp only: map_fst_map_snd)
qed

lemma skel_map_of:
  assumes "skel t = skel s" and "map_of (items s) p = Some item"
  obtains item' where "map_of (items t) p = Some item'" and "item_skel item' = item_skel item"
proof -
  from assms(1) have "map_of (map (\<lambda>(p, item). (p, item_skel item)) (items t)) p =
      map_of (map (\<lambda>(p, item). (p, item_skel item)) (items s)) p"
    by (simp add: skel_def)
  with assms(2) show thesis by (auto simp: map_of_map_snd intro: that)
qed

lemma item_skel_eq:
  assumes "item_skel x = item_skel y"
  shows "isMonitored x = isMonitored y" and "item_id x = item_id y"
    and "browseName x = browseName y" and "item_accessors x = item_accessors y"
    and "item_node x = item_node y"
  using assms by (metis item_skel_sel)+

lemma wf_map_pointer:
  assumes "wf_manager s" and "map_of (subscriptionMap s) i = Some p"
  obtains item where "map_of (items s) p = Some item" and "item_id item = i" and "isMonitored item"
proof -
  from assms(2) have "(i, p) \<in> set (subscriptionMap s)" by (rule map_of_SomeD)
  with assms(1) obtain item where "(p, item) \<in> set (items s)" and "item_id item = i"
    and "isMonitored item"
    by (auto simp: wf_manager_def wf_map_def)
  moreover from this(1) assms(1) have "map_of (items s) p = Some item"
    by (simp add: wf_manager_def wf_items_def)
  ultimately show thesis by (simp add: that)
qed

text \<open>Well-formedness together with a condition on what extends the manager's record.\<close>

definition good_in :: "('z \<Rightarrow> bool) \<Rightarrow> ('v, 'z) manager_scheme \<Rightarrow> bool" where
  "good_in ctx s \<longleftrightarrow> wf_manager s \<and> ctx (manager.more s)"

lemma skel_more: "skel t = skel s \<Longrightarrow> manager.more t = manager.more s"
  by (simp add: skel_def)

lemma good_in_skel: "skel t = skel s \<Longrightarrow> good_in ctx s \<Longrightarrow> good_in ctx t"
  by (auto simp: good_in_def dest: wf_manager_skel skel_more)

section \<open>What the flag operations keep\<close>

lemma skel_modify_item:
  "(\<And>item. item_skel (f item) = item_skel item) \<Longrightarrow> skel (modify_item p f s) = skel s"
  by (auto simp: skel_def modify_item_def deque_modify_def)

lemma skel_push_all [simp]: "skel (push_all n as s) = skel s"
  by (simp add: skel_def push_all_eq)

lemma skel_handle_item: "skel (handle_item message x s) = skel s"
  by (auto simp: handle_item_def skel_modify_item split: prod.splits)

lemma skel_handleException [simp]: "skel (handleException message s) = skel s"
proof -
  have "skel (fold (handle_item message) xs s) = skel s" for xs
    by (induction xs arbitrary: s) (simp_all add: skel_handle_item)
  then show ?thesis by (simp add: handleException_def)
qed

lemma skel_setExternalError [simp]: "skel (setExternalError name s) = skel s"
  by (simp add: setExternalError_def skel_modify_item split: option.splits)

lemma skel_setInactive [simp]: "skel (setInactive s) = skel s"
  by (simp add: skel_def setInactive_def)

lemma responseHandler_skel: "post (\<lambda>t. skel t = skel s) (responseHandler monId value s)"
  by (simp add: responseHandler_def skel_modify_item split: option.splits)

lemma deactivate_items_skel: "post (\<lambda>t. skel t = skel s) (deactivate_items s)"
  by (auto simp: deactivate_items_def skel_def)

text \<open>The members the flag operations leave alone.\<close>

lemma push_all_frame [simp]:
  "conn (push_all n as s) = conn s"
  "ua_calls (push_all n as s) = ua_calls s"
  "run (push_all n as s) = run s"
  "subscriptionActive (push_all n as s) = subscriptionActive s"
  "subscriptionNeedsToBeRemoved (push_all n as s) = subscriptionNeedsToBeRemoved s"
  "asyncReadActive (push_all n as s) = asyncReadActive s"
  "subscriptionID (push_all n as s) = subscriptionID s"
  "items (push_all n as s) = items s"
  "subscriptionMap (push_all n as s) = subscriptionMap s"
  "opcuaThread (push_all n as s) = opcuaThread s"
  "thread_live (push_all n as s) = thread_live s"
  "next_addr (push_all n as s) = next_addr s"
  "manager.more (push_all n as s) = manager.more s"
  by (simp_all add: push_all_eq)

lemma modify_item_frame [simp]:
  "conn (modify_item p f s) = conn s"
  "accessors (modify_item p f s) = accessors s"
  "ua_calls (modify_item p f s) = ua_calls s"
  "run (modify_item p f s) = run s"
  "subscriptionActive (modify_item p f s) = subscriptionActive s"
  "subscriptionNeedsToBeRemoved (modify_item p f s) = subscriptionNeedsToBeRemoved s"
  "asyncReadActive (modify_item p f s) = asyncReadActive s"
  "subscriptionID (modify_item p f s) = subscriptionID s"
  "subscriptionMap (modify_item p f s) = subscriptionMap s"
  "opcuaThread (modify_item p f s) = opcuaThread s"
  "thread_live (modify_item p f s) = thread_live s"
  "next_addr (modify_item p f s) = next_addr s"
  "manager.more (modify_item p f s) = manager.more s"
  by (simp_all add: modify_item_def)

lemma handleException_frame [simp]:
  "conn (handleException m s) = conn s"
  "ua_calls (handleException m s) = ua_calls s"
  "run (handleException m s) = run s"
  "subscriptionActive (handleException m s) = subscriptionActive s"
  "subscriptionNeedsToBeRemoved (handleException m s) = subscriptionNeedsToBeRemoved s"
  "asyncReadActive (handleException m s) = asyncReadActive s"
  "subscriptionID (handleException m s) = subscriptionID s"
  "subscriptionMap (handleException m s) = subscriptionMap s"
  "opcuaThread (handleException m s) = opcuaThread s"
  "thread_live (handleException m s) = thread_live s"
  "next_addr (handleException m s) = next_addr s"
  "manager.more (handleException m s) = manager.more s"
  by (simp_all add: handleException_def fold_handle_item)

lemma deactivate_items_wf:
  assumes "wf_manager s"
  shows "deactivate_items s = Done (s\<lparr>items := map (\<lambda>(p, item).
           (p, if p \<in> set (map snd (subscriptionMap s)) then item\<lparr>item_active := False\<rparr> else item))
           (items s)\<rparr>)"
proof -
  have "p \<in> fst ` set (items s)" if "(i, p) \<in> set (subscriptionMap s)" for i p
  proof -
    from assms that obtain item where "(p, item) \<in> set (items s)"
      unfolding wf_manager_def wf_map_def by blast
    then show ?thesis by (force intro: image_eqI)
  qed
  then have "\<forall>p \<in> set (map snd (subscriptionMap s)). p \<in> set (map fst (items s))"
    by auto
  then show ?thesis unfolding deactivate_items_def by (rule if_P)
qed

lemma resetMonitoredItems_map [simp]: "subscriptionMap (resetMonitoredItems s) = []"
  by (simp add: resetMonitoredItems_def)

lemma resetMonitoredItems_wf:
  assumes "wf_manager s"
  shows "wf_manager (resetMonitoredItems s)"
  using assms
  by (force simp: wf_manager_def wf_items_def wf_map_def resetMonitoredItems_def comp_def
      case_prod_beta)

lemma wf_update [simp]:
  "wf_manager (s\<lparr>ua_calls := x\<rparr>) = wf_manager s"
  "wf_manager (s\<lparr>run := b\<rparr>) = wf_manager s"
  "wf_manager (s\<lparr>subscriptionActive := b\<rparr>) = wf_manager s"
  "wf_manager (s\<lparr>subscriptionNeedsToBeRemoved := b\<rparr>) = wf_manager s"
  "wf_manager (s\<lparr>asyncReadActive := b\<rparr>) = wf_manager s"
  "wf_manager (s\<lparr>subscriptionID := i\<rparr>) = wf_manager s"
  "wf_manager (s\<lparr>opcuaThread := b\<rparr>) = wf_manager s"
  "wf_manager (s\<lparr>thread_live := b\<rparr>) = wf_manager s"
  "wf_manager (s\<lparr>conn := c\<rparr>) = wf_manager s"
  "wf_manager (s\<lparr>accessors := A\<rparr>) = wf_manager s"
  by (simp_all add: wf_manager_def)

lemma setInactive_wf [simp]: "wf_manager (setInactive s) = wf_manager s"
  by (rule wf_manager_cong) simp

lemma removeSubscription_more [simp]:
  "manager.more (removeSubscription deleted s) = manager.more s"
  "manager.more (resetMonitoredItems s) = manager.more s"
  by (simp_all add: removeSubscription_def resetMonitoredItems_def setInactive_def Let_def)

lemma removeSubscription_wf: "wf_manager s \<Longrightarrow> wf_manager (removeSubscription deleted s)"
  by (simp add: removeSubscription_def Let_def resetMonitoredItems_wf)

lemma good_in_update [simp]:
  "good_in ctx (s\<lparr>ua_calls := x\<rparr>) = good_in ctx s"
  "good_in ctx (s\<lparr>run := b\<rparr>) = good_in ctx s"
  "good_in ctx (s\<lparr>subscriptionActive := b\<rparr>) = good_in ctx s"
  "good_in ctx (s\<lparr>subscriptionNeedsToBeRemoved := b\<rparr>) = good_in ctx s"
  "good_in ctx (s\<lparr>asyncReadActive := b\<rparr>) = good_in ctx s"
  "good_in ctx (s\<lparr>subscriptionID := i\<rparr>) = good_in ctx s"
  "good_in ctx (s\<lparr>opcuaThread := b\<rparr>) = good_in ctx s"
  "good_in ctx (s\<lparr>thread_live := b\<rparr>) = good_in ctx s"
  "good_in ctx (s\<lparr>conn := c\<rparr>) = good_in ctx s"
  "good_in ctx (s\<lparr>accessors := A\<rparr>) = good_in ctx s"
  by (simp_all add: good_in_def)

lemma removeSubscription_good: "good_in ctx s \<Longrightarrow> good_in ctx (removeSubscription deleted s)"
  by (simp add: good_in_def removeSubscription_wf)

lemma deactivate_good:
  assumes "good_in ctx s"
  shows "post (good_in ctx) (deactivate locked deleted s)"
    and "no_ub (deactivate locked deleted s)"
proof -
  let ?t = "s\<lparr>items := map (\<lambda>(p, item).
           (p, if p \<in> set (map snd (subscriptionMap s)) then item\<lparr>item_active := False\<rparr> else item))
           (items s)\<rparr>"
  have eq: "deactivate_items s = Done ?t"
    by (rule deactivate_items_wf) (use assms in \<open>simp add: good_in_def\<close>)
  have "skel ?t = skel s"
    using deactivate_items_skel [of s] by (simp only: eq post.simps)
  then have wf: "good_in ctx ?t" using assms by (rule good_in_skel)
  show "post (good_in ctx) (deactivate locked deleted s)" "no_ub (deactivate locked deleted s)"
    unfolding deactivate_def eq seq.simps Let_def
    using wf by (auto simp: removeSubscription_good)
qed

section \<open>The thread object under the flag operations\<close>

definition thread_kept :: "('v, 'z) manager_scheme \<Rightarrow> ('v, 'z) manager_scheme \<Rightarrow> bool" where
  "thread_kept s t \<longleftrightarrow>
     opcuaThread t = opcuaThread s \<and> thread_live t = thread_live s \<and> (run t \<longrightarrow> run s)"

lemma thread_kept_refl [simp]: "thread_kept s s"
  by (simp add: thread_kept_def)

lemma thread_kept_trans: "thread_kept s t \<Longrightarrow> thread_kept t u \<Longrightarrow> thread_kept s u"
  by (auto simp: thread_kept_def)

lemma thread_kept_ok: "thread_kept s t \<Longrightarrow> thread_ok s \<Longrightarrow> thread_ok t"
  by (auto simp: thread_kept_def thread_ok_def)

lemma removeSubscription_frame [simp]:
  "conn (removeSubscription d s) = conn s"
  "accessors (removeSubscription d s) = accessors s"
  "run (removeSubscription d s) = run s"
  "subscriptionNeedsToBeRemoved (removeSubscription d s) = subscriptionNeedsToBeRemoved s"
  "asyncReadActive (removeSubscription d s) = asyncReadActive s"
  "subscriptionID (removeSubscription d s) = 0"
  "subscriptionMap (removeSubscription d s) = []"
  "opcuaThread (removeSubscription d s) = opcuaThread s"
  "thread_live (removeSubscription d s) = thread_live s"
  "next_addr (removeSubscription d s) = next_addr s"
  by (simp_all add: removeSubscription_def resetMonitoredItems_def setInactive_def Let_def)

lemma responseHandler_thread: "post (thread_kept s) (responseHandler monId value s)"
  by (simp add: responseHandler_def thread_kept_def split: option.splits)

lemma deactivate_thread: "post (thread_kept s) (deactivate locked deleted s)"
  by (simp add: deactivate_def deactivate_items_def thread_kept_def Let_def)

text \<open>
  A callback may call \<open>deactivate\<close> although the client lock is held: with the thread object in
  place the branch that locks again is not reached.
\<close>

lemma deactivate_locked_live:
  assumes "opcuaThread s"
  shows "no_deadlock (deactivate locked deleted s)"
  using assms by (simp add: deactivate_def deactivate_items_def Let_def)

lemma deactivate_unlocked_live: "no_deadlock (deactivate False deleted s)"
  by (simp add: deactivate_def deactivate_items_def Let_def)

lemma deactivate_locked_skel: "post (\<lambda>t. skel t = skel s) (deactivate True deleted s)"
  by (auto simp: deactivate_def deactivate_items_def skel_def Let_def)

end
