(* ===== verification/Subscription_Manager.thy ===== *)
theory Subscription_Manager
  imports Subscription_State
begin

text \<open>
  The operations of the subscription manager that call the client library
  (\<^verbatim>\<open>src/SubscriptionManager.cc\<close>). The library may re-enter the backend from inside such a
  call, so each of these operations takes the function \<open>cb\<close> that runs one callback, and the
  library's answer to a call carries the callbacks that ran before it returned. The callbacks
  themselves are the backend's (theory \<open>Backend\<close>); what the manager relies on is the locale
  \<open>client_callbacks\<close>.
\<close>

section \<open>Answers of the client library\<close>

record 'e create_answer =
  sub_result :: u32                      \<comment> \<open>response.responseHeader.serviceResult\<close>
  sub_id :: u32                          \<comment> \<open>response.subscriptionId\<close>
  revisedPublishingInterval :: rat
  sub_callbacks :: "'e list"

record 'e monitor_answer =
  mon_status :: u32                      \<comment> \<open>monResponse.statusCode\<close>
  mon_status_name :: string              \<comment> \<open>its \<open>UA_StatusCode_name\<close>\<close>
  monitoredItemId :: u32
  mon_callbacks :: "'e list"

record 'e iterate_answer =
  iterate_status :: u32                  \<comment> \<open>what \<open>UA_Client_run_iterate\<close> returned\<close>
  iterate_callbacks :: "'e list"

section \<open>Setting up the subscription\<close>

definition add_call :: "'v ua_call \<Rightarrow> ('v, 'z) manager_scheme \<Rightarrow> ('v, 'z) manager_scheme" where
  "add_call c s = s\<lparr>ua_calls := ua_calls s @ [c]\<rparr>"

definition createSubscription ::
    "('e \<Rightarrow> ('v, 'z) manager_scheme \<Rightarrow> ('v, 'z) manager_scheme result) \<Rightarrow> bool \<Rightarrow>
     'e create_answer \<Rightarrow> ('v, 'z) manager_scheme \<Rightarrow> ('v, 'z) manager_scheme result" where
  "createSubscription cb deleted response s =
     (let s1 = (if subscriptionID s \<noteq> 0 then removeSubscription deleted s else s)
      in seq (run_all cb (sub_callbacks response)
                (add_call (Create_subscription (publishingInterval (conn s1))) s1)) (\<lambda>s2.
         if sub_result response = UA_STATUSCODE_GOOD
         then let s3 = s2\<lparr>subscriptionID := sub_id response\<rparr>
              in if revisedPublishingInterval response
                      \<noteq> of_nat (unat (publishingInterval (conn s3)))
                 then (case double_to_ulong (revisedPublishingInterval response) of
                         None \<Rightarrow> Undefined
                       | Some w \<Rightarrow> Done (s3\<lparr>conn := (conn s3)\<lparr>publishingInterval := w\<rparr>,
                                           subscriptionActive := True\<rparr>))
                 else Done (s3\<lparr>subscriptionActive := True\<rparr>)
         else Throws (Runtime_error ''Failed to set up subscription.'') s2))"

text \<open>One pass of the loop of \<open>addMonitoredItems\<close>, for the element at address \<open>p\<close>. The item is a
  reference into the deque, read again after the call of the client library.\<close>

definition addMonitoredItem ::
    "('e \<Rightarrow> ('v, 'z) manager_scheme \<Rightarrow> ('v, 'z) manager_scheme result) \<Rightarrow>
     (addr \<Rightarrow> 'e monitor_answer) \<Rightarrow> addr \<Rightarrow> ('v, 'z) manager_scheme \<Rightarrow>
     ('v, 'z) manager_scheme result" where
  "addMonitoredItem cb answer p s =
     (case map_of (items s) p of
        None \<Rightarrow> Undefined
      | Some item \<Rightarrow>
          let s1 = (if asyncReadActive s then modify_item p (\<lambda>x. x\<lparr>item_active := True\<rparr>) s else s)
          in if isMonitored item then Done s1
             else (case item_accessors item of
                     [] \<Rightarrow> Throws Out_of_range s1
                   | a # _ \<Rightarrow>
                       seq (run_all cb (mon_callbacks (answer p))
                              (add_call (Create_monitored_item (subscriptionID s1)
                                 (item_node item) (indexRange (accessors s1 a))) s1)) (\<lambda>s2.
                       if mon_status (answer p) = UA_STATUSCODE_GOOD
                       then Done ((modify_item p
                              (\<lambda>x. x\<lparr>item_id := monitoredItemId (answer p), isMonitored := True\<rparr>) s2)
                              \<lparr>subscriptionMap :=
                                 AList.update (monitoredItemId (answer p)) p (subscriptionMap s2)\<rparr>)
                       else Done (handleException
                              (''Failed to add monitored item for node: '' @ browseName item @
                               '' Error: '' @ mon_status_name (answer p)) s2))))"

definition addMonitoredItems ::
    "('e \<Rightarrow> ('v, 'z) manager_scheme \<Rightarrow> ('v, 'z) manager_scheme result) \<Rightarrow>
     (addr \<Rightarrow> 'e monitor_answer) \<Rightarrow> ('v, 'z) manager_scheme \<Rightarrow>
     ('v, 'z) manager_scheme result" where
  "addMonitoredItems cb answer s = run_all (addMonitoredItem cb answer) (map fst (items s)) s"

definition prepare ::
    "('e \<Rightarrow> ('v, 'z) manager_scheme \<Rightarrow> ('v, 'z) manager_scheme result) \<Rightarrow> bool \<Rightarrow>
     'e create_answer \<Rightarrow> (addr \<Rightarrow> 'e monitor_answer) \<Rightarrow> ('v, 'z) manager_scheme \<Rightarrow>
     ('v, 'z) manager_scheme result" where
  "prepare cb deleted response answer s =
     seq (createSubscription cb deleted response s) (addMonitoredItems cb answer)"

definition activate_items :: "('v, 'z) manager_scheme \<Rightarrow> ('v, 'z) manager_scheme" where
  "activate_items s = s\<lparr>items := map (\<lambda>(p, item). (p, item\<lparr>item_active := True\<rparr>)) (items s)\<rparr>"

definition activate ::
    "('e \<Rightarrow> ('v, 'z) manager_scheme \<Rightarrow> ('v, 'z) manager_scheme result) \<Rightarrow> bool \<Rightarrow>
     'e create_answer \<Rightarrow> (addr \<Rightarrow> 'e monitor_answer) \<Rightarrow> ('v, 'z) manager_scheme \<Rightarrow>
     ('v, 'z) manager_scheme result" where
  "activate cb deleted response answer s =
     seq (if \<not> subscriptionActive s then createSubscription cb deleted response s else Done s) (\<lambda>s.
     let s1 = s\<lparr>asyncReadActive := True\<rparr>
     in if items s1 \<noteq> [] \<and> subscriptionMap s1 = []
        then addMonitoredItems cb answer s1
        else Done (activate_items s1))"

section \<open>The client thread\<close>

text \<open>
  \<open>start\<close>: assigning a new thread over a joinable one calls \<open>std::terminate\<close>.
\<close>

definition start :: "('v, 'z) manager_scheme \<Rightarrow> ('v, 'z) manager_scheme result" where
  "start s =
     (if subscriptionActive s
      then if opcuaThread s then Terminated
           else Done (s\<lparr>run := True, opcuaThread := True, thread_live := True\<rparr>)
      else Done (s\<lparr>run := False\<rparr>))"

text \<open>
  The loop of \<open>runClient\<close> over the answers of \<open>UA_Client_run_iterate\<close>; \<open>Blocked\<close> when the loop
  still runs after the last of them.
\<close>

primrec client_loop ::
    "('e \<Rightarrow> ('v, 'z) manager_scheme \<Rightarrow> ('v, 'z) manager_scheme result) \<Rightarrow>
     'e iterate_answer list \<Rightarrow> ('v, 'z) manager_scheme \<Rightarrow> ('v, 'z) manager_scheme result" where
  "client_loop cb [] s = (if run s then Blocked else Done s)"
| "client_loop cb (it # its) s =
     (if run s
      then seq (run_all cb (iterate_callbacks it) s) (\<lambda>s.
             if subscriptionNeedsToBeRemoved s \<or> iterate_status it \<noteq> UA_STATUSCODE_GOOD
             then Done s else client_loop cb its s)
      else Done s)"

definition runClient ::
    "('e \<Rightarrow> ('v, 'z) manager_scheme \<Rightarrow> ('v, 'z) manager_scheme result) \<Rightarrow>
     'e iterate_answer list \<Rightarrow> bool \<Rightarrow> ('v, 'z) manager_scheme \<Rightarrow>
     ('v, 'z) manager_scheme result" where
  "runClient cb its deleted s =
     seq (client_loop cb its s) (\<lambda>s.
     Done ((if subscriptionNeedsToBeRemoved s
            then (removeSubscription deleted s)\<lparr>subscriptionNeedsToBeRemoved := False\<rparr>
            else s)\<lparr>run := False, thread_live := False\<rparr>))"

text \<open>\<open>stopClientThread\<close> joins the thread, so it returns once \<open>runClient\<close> does.\<close>

definition stopClientThread ::
    "('e \<Rightarrow> ('v, 'z) manager_scheme \<Rightarrow> ('v, 'z) manager_scheme result) \<Rightarrow>
     'e iterate_answer list \<Rightarrow> bool \<Rightarrow> ('v, 'z) manager_scheme \<Rightarrow>
     ('v, 'z) manager_scheme result" where
  "stopClientThread cb its deleted s =
     (if opcuaThread s
      then seq (if thread_live s then runClient cb its deleted s else Done s)
             (\<lambda>s. Done (s\<lparr>opcuaThread := False\<rparr>))
      else Done s)"

section \<open>Subscribing and unsubscribing an accessor\<close>

text \<open>
  \<open>subscribe\<close>: \<open>front\<close> is what a notification queue shows after what has happened to it, \<open>None\<close>
  when it is empty and an exception's message when reading its front rethrows one. It is asked for the
  queue of the item's last accessor.
\<close>

definition subscribe ::
    "('e \<Rightarrow> ('v, 'z) manager_scheme \<Rightarrow> ('v, 'z) manager_scheme result) \<Rightarrow> bool \<Rightarrow>
     'e create_answer \<Rightarrow> (addr \<Rightarrow> 'e monitor_answer) \<Rightarrow>
     ('v notification list \<Rightarrow> (string + 'v data_value) option) \<Rightarrow>
     string \<Rightarrow> node_id \<Rightarrow> acc_id \<Rightarrow> ('v, 'z) manager_scheme \<Rightarrow>
     ('v, 'z) manager_scheme result" where
  "subscribe cb deleted response answer front name node a s =
     (case find_index (\<lambda>(p, item). browseName item = name) (items s) of
        None \<Rightarrow>
          let s1 = s\<lparr>items := items s @ [(next_addr s, MonitorItem name node a)],
                     next_addr := Suc (next_addr s)\<rparr>
          in if asyncReadActive s1
             then seq (if \<not> subscriptionActive s1 then createSubscription cb deleted response s1
                       else Done s1) (addMonitoredItems cb answer)
             else Done s1
      | Some k \<Rightarrow>
          let (p, item) = items s ! k
          in if item_accessors item = [] then Undefined
             else let tmp = last (item_accessors item);
                      s1 = modify_item p (\<lambda>x. x\<lparr>item_accessors := item_accessors x @ [a]\<rparr>) s
                  in if item_active item
                     then (case front (notifications (accessors s1 tmp)) of
                             None \<Rightarrow>
                               if hasValue (acc_data (accessors s1 tmp))
                               then Done (push_all (Pushed (copied_value (acc_data (accessors s1 tmp)))) [a] s1)
                               else Done s1
                           | Some (Inr d) \<Rightarrow>
                               if hasValue (copied_value d) then Done (push_all (Pushed (copied_value d)) [a] s1)
                               else Done s1
                           | Some (Inl m) \<Rightarrow> Throws (Runtime_error m) s1)
                     else Done s1)"

definition unsubscribe ::
    "('e \<Rightarrow> ('v, 'z) manager_scheme \<Rightarrow> ('v, 'z) manager_scheme result) \<Rightarrow> 'e list \<Rightarrow>
     bool \<Rightarrow> 'e iterate_answer list \<Rightarrow> bool \<Rightarrow> string \<Rightarrow> acc_id \<Rightarrow>
     ('v, 'z) manager_scheme \<Rightarrow> ('v, 'z) manager_scheme result" where
  "unsubscribe cb callbacks deleted its deleted_by_thread name a s =
     (case find_index (\<lambda>(p, item). browseName item = name) (items s) of
        None \<Rightarrow> Done s
      | Some k \<Rightarrow>
          let (p, item) = items s ! k
          in if 1 < length (item_accessors item)
             then if a \<in> set (item_accessors item)
                  then Done (modify_item p (\<lambda>x. x\<lparr>item_accessors := remove1 a (item_accessors x)\<rparr>) s)
                  else Undefined
             else let monId = item_id item;
                      s1 = s\<lparr>subscriptionMap := AList.delete monId (subscriptionMap s),
                             items := deque_erase (next_addr s) k (items s),
                             next_addr := next_addr s + length (items s)\<rparr>
                  in if monId \<noteq> 0 \<and> isConnected (conn s1)
                     then seq (run_all cb callbacks
                                 (add_call (Delete_monitored_item (subscriptionID s1) monId) s1))
                            (\<lambda>s2. if items s2 = []
                                   then stopClientThread cb its deleted_by_thread
                                          ((removeSubscription deleted s2)\<lparr>run := False\<rparr>)
                                   else Done s2)
                     else Done s1)"

text \<open>The destructor.\<close>

definition destroy_manager ::
    "('e \<Rightarrow> ('v, 'z) manager_scheme \<Rightarrow> ('v, 'z) manager_scheme result) \<Rightarrow> bool \<Rightarrow>
     'e iterate_answer list \<Rightarrow> bool \<Rightarrow> ('v, 'z) manager_scheme \<Rightarrow>
     ('v, 'z) manager_scheme result" where
  "destroy_manager cb deleted its deleted_by_thread s =
     seq (deactivate False deleted s) (stopClientThread cb its deleted_by_thread)"

section \<open>What the manager relies on in a callback\<close>

text \<open>
  A callback changes flags and queues, never the registry of items, the subscription map or the
  thread object; it does not start the client loop; in a well-formed state it reads no stale
  pointer, and when the loop only runs with its thread object it does not wait for the client
  lock that is held while it runs.
\<close>

locale client_callbacks =
  fixes cb :: "'e \<Rightarrow> ('v, 'z) manager_scheme \<Rightarrow> ('v, 'z) manager_scheme result"
    and ctx :: "'z \<Rightarrow> bool"
  assumes cb_skel: "post (\<lambda>t. skel t = skel s) (cb e s)"
    and cb_thread: "post (thread_kept s) (cb e s)"
    and cb_safe: "good_in ctx s \<Longrightarrow> no_ub (cb e s)"
    and cb_live: "thread_ok s \<Longrightarrow> no_deadlock (cb e s)"
begin

lemma cbs_skel: "post (\<lambda>t. skel t = skel s) (run_all cb es s)"
proof (induction es arbitrary: s)
  case (Cons e es)
  show ?case
    unfolding run_all.simps
  proof (rule post_seqI [OF cb_skel])
    fix t :: "('v, 'z) manager_scheme"
    assume "skel t = skel s"
    with Cons.IH [of t] show "post (\<lambda>u. skel u = skel s) (run_all cb es t)" by simp
  qed
qed simp

lemma cbs_thread: "post (thread_kept s) (run_all cb es s)"
proof (induction es arbitrary: s)
  case (Cons e es)
  show ?case
    unfolding run_all.simps
  proof (rule post_seqI [OF cb_thread])
    fix t :: "('v, 'z) manager_scheme"
    assume "thread_kept s t"
    with Cons.IH [of t] show "post (thread_kept s) (run_all cb es t)"
      by (blast intro: post_mono thread_kept_trans)
  qed
qed simp

lemma cb_good: "good_in ctx s \<Longrightarrow> post (good_in ctx) (cb e s)"
  by (rule post_mono [OF cb_skel]) (rule good_in_skel)

lemma cb_thread_ok: "thread_ok s \<Longrightarrow> post thread_ok (cb e s)"
  by (rule post_mono [OF cb_thread]) (rule thread_kept_ok)

end

sublocale client_callbacks < wf: keeps_invariant "good_in ctx" cb
  by unfold_locales (rule cb_good)

sublocale client_callbacks < thr: keeps_invariant thread_ok cb
  by unfold_locales (rule cb_thread_ok)

section \<open>The registry and the map under their own updates\<close>

lemma wf_items_push_back:
  assumes "wf_items d n" and "\<forall>item \<in> set (map snd d). browseName item \<noteq> name"
  shows "wf_items (d @ [(n, MonitorItem name node a)]) (Suc n)"
  using assms by (force simp: wf_items_def MonitorItem_def)

lemma wf_map_push_back: "wf_map d m \<Longrightarrow> wf_map (d @ [x]) m"
  unfolding wf_map_def by fastforce

lemma wf_items_modify:
  assumes "wf_items d n"
    and "\<And>item. browseName (f item) = browseName item"
    and "\<And>item. (p, item) \<in> set d \<Longrightarrow> item_accessors (f item) \<noteq> []"
  shows "wf_items (deque_modify p f d) n"
proof -
  have "browseName \<circ> snd \<circ> (\<lambda>(q, x). (q, if q = p then f x else x)) = browseName \<circ> snd"
    using assms(2) by (auto simp: fun_eq_iff)
  then have "map (browseName \<circ> snd) (deque_modify p f d) = map (browseName \<circ> snd) d"
    by (simp add: deque_modify_def)
  moreover have "item_accessors item \<noteq> []" if "item \<in> set (map snd (deque_modify p f d))" for item
    using that assms(1,3) by (auto simp: set_deque_modify wf_items_def split: if_splits)
  ultimately show ?thesis using assms(1) by (simp only: wf_items_def deque_modify_fst) blast
qed

lemma wf_map_modify:
  assumes "wf_map d m"
    and "\<And>item. item_id (f item) = item_id item \<and> isMonitored (f item) = isMonitored item"
  shows "wf_map (deque_modify p f d) m"
  using assms unfolding wf_map_def set_deque_modify by (fastforce simp: image_iff)

text \<open>Monitoring the unmonitored item at \<open>p\<close> under the id \<open>i\<close>.\<close>

lemma wf_map_monitor:
  assumes d: "distinct (map fst d)" and wf: "wf_map d m"
    and p: "(p, item) \<in> set d" and unmonitored: "\<not> isMonitored item"
  shows "wf_map (deque_modify p (\<lambda>x. x\<lparr>item_id := i, isMonitored := True\<rparr>) d) (AList.update i p m)"
    (is "wf_map ?d ?m")
proof -
  have dist: "distinct (map fst ?m)"
    using wf by (auto simp: wf_map_def intro: AList.distinct_update)
  have "\<exists>x. (q, x) \<in> set ?d \<and> item_id x = j \<and> isMonitored x" if jq: "(j, q) \<in> set ?m" for j q
  proof -
    from dist jq have look: "((map_of m)(i \<mapsto> p)) j = Some q"
      by (simp add: map_of_eq_Some_iff [symmetric] AList.update_conv' del: map_of_eq_Some_iff)
    show ?thesis
    proof (cases "j = i")
      case True
      with look p show ?thesis by (force simp: set_deque_modify)
    next
      case False
      with look have "(j, q) \<in> set m" by (simp add: map_of_SomeD)
      with wf obtain x where x: "(q, x) \<in> set d" "item_id x = j" "isMonitored x"
        unfolding wf_map_def by blast
      with p unmonitored d have "q \<noteq> p" by (blast dest: eq_key_imp_eq_value)
      with x show ?thesis by (force simp: set_deque_modify)
    qed
  qed
  with dist show ?thesis unfolding wf_map_def by blast
qed

lemma wf_items_erase:
  assumes wf: "wf_items d n" and k: "k < length d"
  shows "wf_items (deque_erase n k d) (n + length d)"
proof (cases "k = 0 \<or> Suc k = length d")
  case True
  with k have eq: "deque_erase n k d = take k d @ drop (Suc k) d" by (rule deque_erase_ends)
  have "item_accessors item \<noteq> []" if "item \<in> set (map snd (deque_erase n k d))" for item
  proof -
    from that have "item \<in> set (map snd d)" using set_remove_nth [of k d] by (auto simp: eq)
    with wf show ?thesis by (auto simp: wf_items_def)
  qed
  moreover have "p < n + length d" if "p \<in> set (map fst (deque_erase n k d))" for p
  proof -
    from that have "p \<in> set (map fst d)" using set_remove_nth [of k d] by (auto simp: eq)
    with wf show ?thesis by (auto simp: wf_items_def)
  qed
  moreover have "distinct (map fst (deque_erase n k d))"
      "distinct (map (browseName \<circ> snd) (deque_erase n k d))"
    unfolding eq using wf distinct_map_remove_nth by (auto simp only: wf_items_def)
  ultimately show ?thesis unfolding wf_items_def by blast
next
  case False
  then have eq: "deque_erase n k d = relocate n (take k d @ drop (Suc k) d)"
    by (simp add: deque_erase_def)
  let ?r = "take k d @ drop (Suc k) d"
  have "map (browseName \<circ> snd) (relocate n ?r) = map browseName (map snd ?r)"
    by (metis map_map map_snd_relocate)
  moreover have "map (browseName \<circ> snd) d =
      map browseName (map snd (take k d)) @ browseName (snd (d ! k)) # map browseName (map snd (drop (Suc k) d))"
    using k by (metis (no_types, lifting) comp_apply id_take_nth_drop list.simps(9) map_append map_map)
  ultimately have names: "distinct (map (browseName \<circ> snd) (relocate n ?r))"
    using wf by (auto simp: wf_items_def)
  have sub: "set (map snd (relocate n ?r)) \<subseteq> set (map snd d)"
    unfolding map_snd_relocate by (auto dest: in_set_takeD in_set_dropD)
  with wf have accs: "\<forall>item \<in> set (map snd (relocate n ?r)). item_accessors item \<noteq> []"
    unfolding wf_items_def by blast
  have addrs: "distinct (map fst (relocate n ?r))"
    "\<forall>p \<in> set (map fst (relocate n ?r)). p < n + length d"
    using k by (auto simp del: set_map)
  from names accs addrs show ?thesis unfolding eq wf_items_def by blast
qed

lemma wf_map_erase:
  assumes wf: "wf_map d m" and k: "k < length d"
    and ends: "k = 0 \<or> Suc k = length d \<or> AList.delete (item_id (snd (d ! k))) m = []"
  shows "wf_map (deque_erase n k d) (AList.delete (item_id (snd (d ! k))) m)"
    (is "wf_map ?d ?m")
proof (cases "?m = []")
  case False
  with ends k have eq: "?d = take k d @ drop (Suc k) d" by (blast intro: deque_erase_ends)
  have mem: "x = d ! k \<or> x \<in> set ?d" if "x \<in> set d" for x
    using that id_take_nth_drop [OF k] unfolding eq
    by (metis UnE insertE list.simps(15) set_append UnCI)
  have "\<exists>x. (q, x) \<in> set ?d \<and> item_id x = j \<and> isMonitored x" if "(j, q) \<in> set ?m" for j q
  proof -
    from that have jq: "(j, q) \<in> set m" and ne: "j \<noteq> item_id (snd (d ! k))"
      by (auto simp: AList.delete_eq)
    from wf jq obtain x where x: "(q, x) \<in> set d" "item_id x = j" "isMonitored x"
      unfolding wf_map_def by blast
    with ne have "(q, x) \<noteq> d ! k" by (metis snd_conv)
    with mem [OF x(1)] x(2,3) show ?thesis by blast
  qed
  moreover have "distinct (map fst ?m)"
    using wf by (simp add: wf_map_def AList.distinct_delete)
  ultimately show ?thesis unfolding wf_map_def by blast
qed (simp add: wf_map_def)

lemma subscriptionMap_more [simp]:
  "wf_manager (s\<lparr>items := d, next_addr := n\<rparr>) \<longleftrightarrow> wf_items d n \<and> wf_map d (subscriptionMap s)"
  "wf_manager (s\<lparr>items := d, subscriptionMap := m, next_addr := n\<rparr>) \<longleftrightarrow>
     wf_items d n \<and> wf_map d m"
  by (simp_all add: wf_manager_def)

lemma activate_items_good: "good_in ctx s \<Longrightarrow> good_in ctx (activate_items s)"
  by (rule good_in_skel [of _ s]) (auto simp: skel_def activate_items_def)

lemma setActive_skel [simp]: "skel (modify_item p (\<lambda>x. x\<lparr>item_active := True\<rparr>) s) = skel s"
  by (rule skel_modify_item) simp

lemma good_in_monitor:
  assumes good: "good_in ctx s" and "map_of (items s) p = Some item" and "\<not> isMonitored item"
  shows "good_in ctx ((modify_item p (\<lambda>x. x\<lparr>item_id := i, isMonitored := True\<rparr>) s)
           \<lparr>subscriptionMap := AList.update i p (subscriptionMap s)\<rparr>)"
proof -
  from assms have p: "(p, item) \<in> set (items s)" by (simp add: map_of_SomeD)
  from good have wi: "wf_items (items s) (next_addr s)"
    and wm: "wf_map (items s) (subscriptionMap s)"
    by (simp_all add: good_in_def wf_manager_def)
  have "wf_items (deque_modify p (\<lambda>x. x\<lparr>item_id := i, isMonitored := True\<rparr>) (items s)) (next_addr s)"
    by (rule wf_items_modify [OF wi]) (use wi in \<open>auto simp: wf_items_def\<close>)
  moreover have "wf_map (deque_modify p (\<lambda>x. x\<lparr>item_id := i, isMonitored := True\<rparr>) (items s))
      (AList.update i p (subscriptionMap s))"
    by (rule wf_map_monitor [OF _ wm p assms(3)]) (use wi in \<open>simp add: wf_items_def\<close>)
  ultimately show ?thesis
    using good by (simp add: good_in_def wf_manager_def modify_item_def)
qed

section \<open>Every operation keeps the state well-formed\<close>

text \<open>The server's revised interval has to be one that \<open>unsigned long\<close> can hold.\<close>

definition valid_response :: "'e create_answer \<Rightarrow> bool" where
  "valid_response r \<longleftrightarrow> double_to_ulong (revisedPublishingInterval r) \<noteq> None"

context client_callbacks
begin

lemma cbs_wf: "good_in ctx s \<Longrightarrow> post (good_in ctx) (run_all cb es s)"
  by (rule wf.run_all_inv)

lemma cbs_safe: "good_in ctx s \<Longrightarrow> no_ub (run_all cb es s)"
  by (rule wf.run_all_no_ub) (auto intro: cb_safe)

lemma createSubscription_wf:
  assumes "good_in ctx s"
  shows "post (good_in ctx) (createSubscription cb deleted r s)"
    and "valid_response r \<Longrightarrow> no_ub (createSubscription cb deleted r s)"
proof -
  let ?s1 = "if subscriptionID s \<noteq> 0 then removeSubscription deleted s else s"
  let ?s2 = "add_call (Create_subscription (publishingInterval (conn ?s1))) ?s1"
  have wf: "good_in ctx ?s2" using assms by (simp add: add_call_def removeSubscription_good)
  show "post (good_in ctx) (createSubscription cb deleted r s)"
    unfolding createSubscription_def Let_def
    by (rule post_seqI [OF cbs_wf [OF wf, unfolded Let_def]]) (auto split: option.splits)
  show "no_ub (createSubscription cb deleted r s)" if "valid_response r"
    unfolding createSubscription_def Let_def
    by (rule no_ub_seq [OF cbs_safe [OF wf, unfolded Let_def]])
      (use that in \<open>auto simp: valid_response_def\<close>)
qed

lemma addMonitoredItem_wf:
  assumes wf: "good_in ctx s" and p: "p \<in> set (map fst (items s))"
  shows "post (\<lambda>t. good_in ctx t \<and> map fst (items t) = map fst (items s))
           (addMonitoredItem cb answer p s)" (is "post ?Q _")
    and "no_ub (addMonitoredItem cb answer p s)"
proof -
  from p obtain item where item: "map_of (items s) p = Some item"
    by (metis in_set_conv_nth list.set_map map_of_eq_None_iff not_None_eq)
  let ?s1 = "if asyncReadActive s then modify_item p (\<lambda>x. x\<lparr>item_active := True\<rparr>) s else s"
  have sk1: "skel ?s1 = skel s" by simp
  have Q1: "?Q ?s1" using good_in_skel [OF sk1 wf] skel_fst [OF sk1] by simp
  have "post ?Q (addMonitoredItem cb answer p s) \<and> no_ub (addMonitoredItem cb answer p s)"
  proof (cases "isMonitored item \<or> item_accessors item = []")
    case True
    with Q1 item show ?thesis by (auto simp: addMonitoredItem_def Let_def split: list.splits)
  next
    case False
    then obtain a as where accs: "item_accessors item = a # as" and un: "\<not> isMonitored item"
      by (cases "item_accessors item") auto
    let ?c = "Create_monitored_item (subscriptionID ?s1) (item_node item) (indexRange (accessors ?s1 a))"
    have sk2: "skel (add_call ?c ?s1) = skel s" using sk1 by (simp add: skel_def add_call_def)
    have fin: "?Q (handleException m t)"
      "?Q ((modify_item p (\<lambda>x. x\<lparr>item_id := i, isMonitored := True\<rparr>) t)
              \<lparr>subscriptionMap := AList.update i p (subscriptionMap t)\<rparr>)"
      "map_of (items t) p \<noteq> None" if sk: "skel t = skel s" for t m i
    proof -
      from sk have wft: "good_in ctx t" and ft: "map fst (items t) = map fst (items s)"
        using wf by (auto intro: good_in_skel skel_fst)
      then show "?Q (handleException m t)"
        using skel_fst [OF skel_handleException] by (metis skel_handleException good_in_skel)
      from sk item obtain x where x: "map_of (items t) p = Some x" "item_skel x = item_skel item"
        by (rule skel_map_of)
      with un have "\<not> isMonitored x" using item_skel_eq(1) by blast
      from good_in_monitor [OF wft x(1) this] ft
      show "?Q ((modify_item p (\<lambda>x. x\<lparr>item_id := i, isMonitored := True\<rparr>) t)
              \<lparr>subscriptionMap := AList.update i p (subscriptionMap t)\<rparr>)"
        by (simp add: modify_item_def)
      show "map_of (items t) p \<noteq> None" using x by simp
    qed
    have pQ: "skel t = skel s \<Longrightarrow> ?Q t" for t :: "('v, 'z) manager_scheme"
      using wf by (auto intro: good_in_skel skel_fst)
    have cbs: "post (\<lambda>t. skel t = skel s) (run_all cb (mon_callbacks (answer p)) (add_call ?c ?s1))"
      using cbs_skel [of "add_call ?c ?s1"] sk2 by simp
    have safe: "no_ub (run_all cb (mon_callbacks (answer p)) (add_call ?c ?s1))"
      by (rule cbs_safe) (rule good_in_skel [OF sk2 wf])
    have eq: "addMonitoredItem cb answer p s =
        seq (run_all cb (mon_callbacks (answer p)) (add_call ?c ?s1)) (\<lambda>s2.
          if mon_status (answer p) = UA_STATUSCODE_GOOD
          then Done ((modify_item p
                 (\<lambda>x. x\<lparr>item_id := monitoredItemId (answer p), isMonitored := True\<rparr>) s2)
                 \<lparr>subscriptionMap := AList.update (monitoredItemId (answer p)) p (subscriptionMap s2)\<rparr>)
          else Done (handleException (''Failed to add monitored item for node: '' @
                 browseName item @ '' Error: '' @ mon_status_name (answer p)) s2))"
      by (simp only: addMonitoredItem_def item option.case Let_def accs list.case un if_False)
    have "post ?Q (addMonitoredItem cb answer p s)"
      unfolding eq
    proof (rule post_seqI [OF cbs])
      fix t :: "('v, 'z) manager_scheme"
      assume sk: "skel t = skel s"
      show "post ?Q (if mon_status (answer p) = UA_STATUSCODE_GOOD
          then Done ((modify_item p
                 (\<lambda>x. x\<lparr>item_id := monitoredItemId (answer p), isMonitored := True\<rparr>) t)
                 \<lparr>subscriptionMap := AList.update (monitoredItemId (answer p)) p (subscriptionMap t)\<rparr>)
          else Done (handleException (''Failed to add monitored item for node: '' @
                 browseName item @ '' Error: '' @ mon_status_name (answer p)) t))"
        using fin(1,2) [OF sk] by (simp only: post.simps split: if_split) blast
    qed (rule pQ)
    moreover have "no_ub (addMonitoredItem cb answer p s)"
      unfolding eq by (rule no_ub_seq [OF safe]) simp
    ultimately show ?thesis ..
  qed
  then show "post ?Q (addMonitoredItem cb answer p s)" "no_ub (addMonitoredItem cb answer p s)"
    by simp_all
qed

lemma addMonitoredItems_aux:
  assumes "good_in ctx s" and "set ps \<subseteq> set (map fst (items s))"
  shows "post (good_in ctx) (run_all (addMonitoredItem cb answer) ps s) \<and>
    no_ub (run_all (addMonitoredItem cb answer) ps s)"
  using assms
proof (induction ps arbitrary: s)
  case (Cons p ps)
  from Cons.prems have p: "p \<in> set (map fst (items s))" by simp
  note one = addMonitoredItem_wf [OF Cons.prems(1) p, where answer = answer]
  have rest: "post (good_in ctx) (run_all (addMonitoredItem cb answer) ps t) \<and>
      no_ub (run_all (addMonitoredItem cb answer) ps t)"
    if "good_in ctx t \<and> map fst (items t) = map fst (items s)" for t :: "('v, 'z) manager_scheme"
  proof (rule Cons.IH)
    show "good_in ctx t" using that by simp
    have "set (map fst (items t)) = set (map fst (items s))" using that by (simp only:)
    with Cons.prems(2) show "set ps \<subseteq> set (map fst (items t))" by (simp only: list.set) blast
  qed
  have "post (good_in ctx) (run_all (addMonitoredItem cb answer) (p # ps) s)"
    unfolding run_all.simps by (rule post_seqI [OF one(1)]) (use rest in blast)+
  moreover have "no_ub (run_all (addMonitoredItem cb answer) (p # ps) s)"
    unfolding run_all.simps
  proof (rule no_ub_seq [OF one(2)])
    fix t :: "('v, 'z) manager_scheme"
    assume "addMonitoredItem cb answer p s = Done t"
    with one(1) have "good_in ctx t \<and> map fst (items t) = map fst (items s)" by simp
    with rest show "no_ub (run_all (addMonitoredItem cb answer) ps t)" by blast
  qed
  ultimately show ?case ..
qed simp

lemma addMonitoredItems_wf:
  assumes "good_in ctx s"
  shows "post (good_in ctx) (addMonitoredItems cb answer s)"
    and "no_ub (addMonitoredItems cb answer s)"
  using addMonitoredItems_aux [OF assms subset_refl] by (simp_all add: addMonitoredItems_def)

lemma prepare_wf:
  assumes "good_in ctx s"
  shows "post (good_in ctx) (prepare cb deleted r answer s)"
    and "valid_response r \<Longrightarrow> no_ub (prepare cb deleted r answer s)"
  unfolding prepare_def
  using createSubscription_wf [OF assms, where deleted = deleted and r = r]
  by (auto intro!: post_seq no_ub_seq addMonitoredItems_wf)

lemma activate_wf:
  assumes "good_in ctx s"
  shows "post (good_in ctx) (activate cb deleted r answer s)"
    and "valid_response r \<Longrightarrow> no_ub (activate cb deleted r answer s)"
  unfolding activate_def Let_def
  using createSubscription_wf [OF assms, where deleted = deleted and r = r] assms
  by (auto intro!: post_seq no_ub_seq addMonitoredItems_wf activate_items_good)

lemma client_loop_wf:
  assumes "good_in ctx s"
  shows "post (good_in ctx) (client_loop cb its s)" and "no_ub (client_loop cb its s)"
proof -
  have "post (good_in ctx) (client_loop cb its s) \<and> no_ub (client_loop cb its s)"
    using assms
  proof (induction its arbitrary: s)
    case (Cons it its)
    have "post (good_in ctx) (client_loop cb (it # its) s)"
      using Cons by (auto intro!: post_seqI [OF cbs_wf])
    moreover have "no_ub (client_loop cb (it # its) s)"
      unfolding client_loop.simps
    proof (split if_split, intro conjI impI)
      show "no_ub (seq (run_all cb (iterate_callbacks it) s) (\<lambda>s.
             if subscriptionNeedsToBeRemoved s \<or> iterate_status it \<noteq> UA_STATUSCODE_GOOD
             then Done s else client_loop cb its s))"
      proof (rule no_ub_seq [OF cbs_safe [OF Cons.prems]])
        fix t :: "('v, 'z) manager_scheme"
        assume "run_all cb (iterate_callbacks it) s = Done t"
        with cbs_wf [OF Cons.prems, of "iterate_callbacks it"] have "good_in ctx t" by simp
        with Cons.IH show "no_ub (if subscriptionNeedsToBeRemoved t \<or>
            iterate_status it \<noteq> UA_STATUSCODE_GOOD then Done t else client_loop cb its t)"
          by simp
      qed
    qed simp
    ultimately show ?case ..
  qed simp
  then show "post (good_in ctx) (client_loop cb its s)" "no_ub (client_loop cb its s)" by simp_all
qed

lemma runClient_wf:
  assumes "good_in ctx s"
  shows "post (good_in ctx) (runClient cb its deleted s)" and "no_ub (runClient cb its deleted s)"
  unfolding runClient_def
  using client_loop_wf [OF assms, where its = its]
  by (auto intro!: post_seq no_ub_seq removeSubscription_good)

lemma stopClientThread_wf:
  assumes "good_in ctx s"
  shows "post (good_in ctx) (stopClientThread cb its deleted s)"
    and "no_ub (stopClientThread cb its deleted s)"
  unfolding stopClientThread_def
  using runClient_wf [OF assms, where its = its and deleted = deleted] assms
  by (auto intro!: post_seq no_ub_seq)

lemma destroy_manager_wf:
  assumes "good_in ctx s"
  shows "no_ub (destroy_manager cb deleted its del s)"
  unfolding destroy_manager_def
proof (rule no_ub_seq [OF deactivate_good(2) [OF assms]])
  fix t assume "deactivate False deleted s = Done t"
  with deactivate_good(1) [OF assms, of False deleted] have "good_in ctx t" by simp
  then show "no_ub (stopClientThread cb its del t)" by (rule stopClientThread_wf)
qed

lemma subscribe_wf:
  assumes wf: "good_in ctx s"
  shows "post (good_in ctx) (subscribe cb deleted r answer front name node a s)"
    and "valid_response r \<Longrightarrow> no_ub (subscribe cb deleted r answer front name node a s)"
proof -
  from wf have wi: "wf_items (items s) (next_addr s)" and wm: "wf_map (items s) (subscriptionMap s)"
    by (simp_all add: good_in_def wf_manager_def)
  have "post (good_in ctx) (subscribe cb deleted r answer front name node a s) \<and>
    (valid_response r \<longrightarrow> no_ub (subscribe cb deleted r answer front name node a s))"
  proof (cases "find_index (\<lambda>(p, item). browseName item = name) (items s)")
    case None
    let ?s1 = "s\<lparr>items := items s @ [(next_addr s, MonitorItem name node a)],
                 next_addr := Suc (next_addr s)\<rparr>"
    from None have "\<forall>item \<in> set (map snd (items s)). browseName item \<noteq> name"
      by (auto simp: find_index_None)
    from wf_items_push_back [OF wi this] wf_map_push_back [OF wm]
    have wf1: "good_in ctx ?s1" using wf by (simp add: good_in_def wf_manager_def)
    note step = createSubscription_wf [OF wf1, where deleted = deleted and r = r]
    have eq: "subscribe cb deleted r answer front name node a s =
        (if asyncReadActive s
         then seq (if \<not> subscriptionActive s then createSubscription cb deleted r ?s1 else Done ?s1)
                (addMonitoredItems cb answer)
         else Done ?s1)"
      by (simp add: subscribe_def None)
    show ?thesis
      unfolding eq using step wf1 by (auto intro!: post_seq no_ub_seq addMonitoredItems_wf)
  next
    case (Some k)
    then have k: "k < length (items s)" by (simp add: find_index_Some)
    obtain p item where pi: "items s ! k = (p, item)" by fastforce
    with k have mem: "(p, item) \<in> set (items s)" by (metis nth_mem)
    with wi have accs: "item_accessors item \<noteq> []" by (force simp: wf_items_def)
    let ?s1 = "modify_item p (\<lambda>x. x\<lparr>item_accessors := item_accessors x @ [a]\<rparr>) s"
    have "wf_items (items ?s1) (next_addr s)" "wf_map (items ?s1) (subscriptionMap s)"
      unfolding modify_item_def
      by (auto intro!: wf_items_modify [OF wi] wf_map_modify [OF wm])
    then have wf1: "good_in ctx ?s1" using wf by (simp add: good_in_def wf_manager_def)
    have wf2: "good_in ctx (push_all n as ?s1)" for n as
      by (rule good_in_skel [OF skel_push_all wf1])
    show ?thesis
      using wf1 wf2 accs by (auto simp: subscribe_def Some pi Let_def split: option.split sum.split)
  qed
  then show "post (good_in ctx) (subscribe cb deleted r answer front name node a s)"
    "valid_response r \<Longrightarrow> no_ub (subscribe cb deleted r answer front name node a s)"
    by simp_all
qed

end

text \<open>
  What the caller of \<open>unsubscribe\<close> has to respect: the accessor is one of the item's when others
  share the item, and otherwise the item is the first or the last of the deque, or no other item
  is monitored. Without the last condition the erase leaves stale pointers in the subscription
  map (theorem \<open>unsubscribe_middle_dangles\<close>).
\<close>

definition unsubscribe_guard :: "string \<Rightarrow> acc_id \<Rightarrow> ('v, 'z) manager_scheme \<Rightarrow> bool" where
  "unsubscribe_guard name a s \<longleftrightarrow>
     (case find_index (\<lambda>(p, item). browseName item = name) (items s) of
        None \<Rightarrow> True
      | Some k \<Rightarrow>
          let item = snd (items s ! k)
          in if 1 < length (item_accessors item) then a \<in> set (item_accessors item)
             else k = 0 \<or> Suc k = length (items s) \<or>
                  AList.delete (item_id item) (subscriptionMap s) = [])"

context client_callbacks
begin

lemma unsubscribe_wf:
  assumes wf: "good_in ctx s" and guard: "unsubscribe_guard name a s"
  shows "post (good_in ctx) (unsubscribe cb cbs deleted its del name a s)"
    and "no_ub (unsubscribe cb cbs deleted its del name a s)"
proof -
  from wf have wi: "wf_items (items s) (next_addr s)" and wm: "wf_map (items s) (subscriptionMap s)"
    by (simp_all add: good_in_def wf_manager_def)
  have "post (good_in ctx) (unsubscribe cb cbs deleted its del name a s) \<and>
    no_ub (unsubscribe cb cbs deleted its del name a s)"
  proof (cases "find_index (\<lambda>(p, item). browseName item = name) (items s)")
    case None
    with wf show ?thesis by (simp add: unsubscribe_def)
  next
    case (Some k)
    then have k: "k < length (items s)" by (simp add: find_index_Some)
    obtain p item where pi: "items s ! k = (p, item)" by fastforce
    with k have mem: "(p, item) \<in> set (items s)" by (metis nth_mem)
    show ?thesis
    proof (cases "1 < length (item_accessors item)")
      case True
      with guard have a: "a \<in> set (item_accessors item)"
        by (simp add: unsubscribe_guard_def Some pi)
      have uniq: "x = item" if "(p, x) \<in> set (items s)" for x
        using that mem wi unfolding wf_items_def by (blast dest: eq_key_imp_eq_value)
      have ne: "remove1 a (item_accessors item) \<noteq> []"
      proof -
        have "length (remove1 a (item_accessors item)) = length (item_accessors item) - 1"
          using a by (simp add: length_remove1)
        with True show ?thesis by auto
      qed
      have "wf_items (deque_modify p (\<lambda>x. x\<lparr>item_accessors := remove1 a (item_accessors x)\<rparr>) (items s))
          (next_addr s)"
        by (rule wf_items_modify [OF wi]) (use uniq ne in auto)
      moreover have "wf_map (deque_modify p (\<lambda>x. x\<lparr>item_accessors := remove1 a (item_accessors x)\<rparr>)
          (items s)) (subscriptionMap s)"
        by (rule wf_map_modify [OF wm]) simp
      ultimately show ?thesis
        using True a wf by (simp add: unsubscribe_def Some pi good_in_def wf_manager_def modify_item_def)
    next
      case False
      let ?m = "AList.delete (item_id item) (subscriptionMap s)"
      let ?s1 = "s\<lparr>subscriptionMap := ?m, items := deque_erase (next_addr s) k (items s),
                   next_addr := next_addr s + length (items s)\<rparr>"
      let ?s2 = "add_call (Delete_monitored_item (subscriptionID s) (item_id item)) ?s1"
      from guard False have "k = 0 \<or> Suc k = length (items s) \<or> ?m = []"
        by (simp add: unsubscribe_guard_def Some pi)
      with wf_items_erase [OF wi k] wf_map_erase [OF wm k] pi
      have wf1: "good_in ctx ?s1" using wf by (simp add: good_in_def wf_manager_def)
      then have wf2: "good_in ctx ?s2" by (simp add: add_call_def)
      have eq: "unsubscribe cb cbs deleted its del name a s =
          (if item_id item \<noteq> 0 \<and> isConnected (conn s)
           then seq (run_all cb cbs ?s2) (\<lambda>s2. if items s2 = []
                then stopClientThread cb its del ((removeSubscription deleted s2)\<lparr>run := False\<rparr>)
                else Done s2)
           else Done ?s1)"
        using False by (simp add: unsubscribe_def Some pi Let_def)
      have fin: "good_in ctx t \<Longrightarrow> post (good_in ctx) (if items t = []
            then stopClientThread cb its del ((removeSubscription deleted t)\<lparr>run := False\<rparr>)
            else Done t) \<and> no_ub (if items t = []
            then stopClientThread cb its del ((removeSubscription deleted t)\<lparr>run := False\<rparr>)
            else Done t)" for t :: "('v, 'z) manager_scheme"
        using stopClientThread_wf [of "(removeSubscription deleted t)\<lparr>run := False\<rparr>"]
        by (simp add: removeSubscription_good)
      have "post (good_in ctx) (unsubscribe cb cbs deleted its del name a s)"
        unfolding eq using wf1 fin post_seq [OF cbs_wf [OF wf2]] by (simp only: post.simps split: if_split) blast
      moreover have "no_ub (unsubscribe cb cbs deleted its del name a s)"
        unfolding eq
      proof (split if_split, intro conjI impI)
        show "no_ub (seq (run_all cb cbs ?s2) (\<lambda>s2. if items s2 = []
            then stopClientThread cb its del ((removeSubscription deleted s2)\<lparr>run := False\<rparr>)
            else Done s2))"
        proof (rule no_ub_seq [OF cbs_safe [OF wf2]])
          fix t :: "('v, 'z) manager_scheme"
          assume "run_all cb cbs ?s2 = Done t"
          with cbs_wf [OF wf2, of cbs] have "good_in ctx t" by (simp only: post.simps)
          then show "no_ub (if items t = []
            then stopClientThread cb its del ((removeSubscription deleted t)\<lparr>run := False\<rparr>)
            else Done t)" by (rule fin [THEN conjunct2])
        qed
      qed simp
      ultimately show ?thesis ..
    qed
  qed
  then show "post (good_in ctx) (unsubscribe cb cbs deleted its del name a s)"
    "no_ub (unsubscribe cb cbs deleted its del name a s)" by simp_all
qed

end

section \<open>The thread object under the manager's operations\<close>

context client_callbacks
begin

lemma post_thread_seq:
  assumes "post (thread_kept s) r" and "\<And>t. post (thread_kept t) (f t)"
  shows "post (thread_kept s) (seq r f)"
  using assms(1)
proof (rule post_seqI)
  fix t assume "thread_kept s t"
  with assms(2) [of t] show "post (thread_kept s) (f t)"
    by (blast intro: post_mono thread_kept_trans)
qed

lemma createSubscription_thread: "post (thread_kept s) (createSubscription cb deleted r s)"
proof -
  let ?s1 = "if subscriptionID s \<noteq> 0 then removeSubscription deleted s else s"
  let ?s2 = "add_call (Create_subscription (publishingInterval (conn ?s1))) ?s1"
  have k: "thread_kept s t" if "thread_kept ?s2 t" for t :: "('v, 'z) manager_scheme"
    using that by (auto simp: thread_kept_def add_call_def split: if_splits)
  have base: "post (thread_kept s) (run_all cb (sub_callbacks r) ?s2)"
    by (rule post_mono [OF cbs_thread]) (rule k)
  show ?thesis
    unfolding createSubscription_def Let_def
    by (rule post_thread_seq [OF base]) (simp add: thread_kept_def split: option.split)
qed

lemma addMonitoredItem_thread: "post (thread_kept s) (addMonitoredItem cb answer p s)"
proof (cases "map_of (items s) p")
  case (Some item)
  let ?s1 = "if asyncReadActive s then modify_item p (\<lambda>x. x\<lparr>item_active := True\<rparr>) s else s"
  have k1: "thread_kept s ?s1" by (simp add: thread_kept_def)
  have base: "post (thread_kept s) (run_all cb es (add_call c u))" if "thread_kept s u"
    for es c and u :: "('v, 'z) manager_scheme"
    by (rule post_mono [OF cbs_thread]) (use that in \<open>auto simp: thread_kept_def add_call_def\<close>)
  show ?thesis
    unfolding addMonitoredItem_def Some option.case Let_def
    using k1
    by (simp split: list.split)
      (intro conjI impI allI post_thread_seq base; simp add: thread_kept_def)
qed (simp add: addMonitoredItem_def)

lemma run_all_thread:
  "(\<And>x s. post (thread_kept s) (f x s)) \<Longrightarrow> post (thread_kept s) (run_all f xs s)"
proof (induction xs arbitrary: s)
  case (Cons x xs)
  show ?case
    unfolding run_all.simps
  proof (rule post_seqI [OF Cons.prems])
    fix t assume "thread_kept s t"
    with Cons.IH [OF Cons.prems, of t] show "post (thread_kept s) (run_all f xs t)"
      by (blast intro: post_mono thread_kept_trans)
  qed
qed simp

lemma addMonitoredItems_thread: "post (thread_kept s) (addMonitoredItems cb answer s)"
  unfolding addMonitoredItems_def by (rule run_all_thread) (rule addMonitoredItem_thread)

lemma prepare_thread: "post (thread_kept s) (prepare cb deleted r answer s)"
  unfolding prepare_def
  by (rule post_thread_seq [OF createSubscription_thread addMonitoredItems_thread])

lemma activate_thread: "post (thread_kept s) (activate cb deleted r answer s)"
  unfolding activate_def
proof (rule post_thread_seq)
  show "post (thread_kept s) (if \<not> subscriptionActive s then createSubscription cb deleted r s
      else Done s)"
    by (simp add: createSubscription_thread)
  fix t :: "('v, 'z) manager_scheme"
  have "thread_kept t u" if "thread_kept (t\<lparr>asyncReadActive := True\<rparr>) u" for u :: "('v, 'z) manager_scheme"
    using that by (simp add: thread_kept_def)
  then show "post (thread_kept t)
      (let s1 = t\<lparr>asyncReadActive := True\<rparr>
       in if items s1 \<noteq> [] \<and> subscriptionMap s1 = [] then addMonitoredItems cb answer s1
          else Done (activate_items s1))"
    unfolding Let_def
    using addMonitoredItems_thread [of "t\<lparr>asyncReadActive := True\<rparr>" answer]
    by (auto intro: post_mono simp: activate_items_def thread_kept_def)
qed

lemma subscribe_thread:
  "post (thread_kept s) (subscribe cb deleted r answer front name node a s)"
proof (cases "find_index (\<lambda>(p, item). browseName item = name) (items s)")
  case None
  let ?s1 = "s\<lparr>items := items s @ [(next_addr s, MonitorItem name node a)],
               next_addr := Suc (next_addr s)\<rparr>"
  have k: "thread_kept s t" if "thread_kept ?s1 t" for t :: "('v, 'z) manager_scheme"
    using that by (simp add: thread_kept_def)
  have "post (thread_kept ?s1) (seq (if \<not> subscriptionActive ?s1 then createSubscription cb deleted r ?s1
      else Done ?s1) (addMonitoredItems cb answer))"
    by (rule post_thread_seq) (simp_all add: createSubscription_thread addMonitoredItems_thread)
  then show ?thesis
    unfolding subscribe_def None option.case Let_def
    by (auto intro: post_mono k)
qed (auto simp: subscribe_def Let_def thread_kept_def split: prod.split option.split sum.split)

lemma client_loop_thread: "post (thread_kept s) (client_loop cb its s)"
proof (induction its arbitrary: s)
  case (Cons it its)
  have "post (thread_kept s) (seq (run_all cb (iterate_callbacks it) s) (\<lambda>s.
             if subscriptionNeedsToBeRemoved s \<or> iterate_status it \<noteq> UA_STATUSCODE_GOOD
             then Done s else client_loop cb its s))"
    by (rule post_thread_seq [OF cbs_thread]) (simp add: Cons.IH)
  then show ?case by simp
qed simp

text \<open>The loop itself throws nothing (callbacks throw nothing), and after it the thread is gone.\<close>

lemma runClient_ends:
  assumes "runClient cb its deleted s = Done t"
  shows "\<not> run t \<and> \<not> thread_live t \<and> \<not> subscriptionNeedsToBeRemoved t \<and> opcuaThread t = opcuaThread s"
proof -
  from assms obtain u where u: "client_loop cb its s = Done u"
    and t: "t = (if subscriptionNeedsToBeRemoved u
            then (removeSubscription deleted u)\<lparr>subscriptionNeedsToBeRemoved := False\<rparr>
            else u)\<lparr>run := False, thread_live := False\<rparr>"
    by (auto simp: runClient_def seq_eq_Done)
  from client_loop_thread [of s its] u have "thread_kept s u" by simp
  with t show ?thesis by (auto simp: thread_kept_def)
qed

end

end
