(* ===== verification/Backend.thy ===== *)
theory Backend
  imports Subscription_Manager Cpp_Std
begin

text \<open>
  The device life cycle (\<^verbatim>\<open>src/OPC-UA-Backend.cc\<close>): the callbacks of the client library, opening,
  closing and resetting the connection, asynchronous reading, and the step relation of a backend
  whose client thread, accessors and device interleave.
\<close>

section \<open>State and callbacks\<close>

text \<open>
  \<open>has_manager\<close> tells whether \<open>_subscriptionManager\<close> is set; while it is not, the members of
  the manager are those of a fresh object. \<open>registered\<close> tells whether the client is a key of
  \<open>backendClients\<close>. \<open>opened\<close> is the flag of the base class \<open>DeviceBackendImpl\<close>.
\<close>

record 'v backend = "'v manager" +
  opened :: bool
  has_manager :: bool
  registered :: bool

definition stateCallback ::
    "channel_state \<Rightarrow> session_state \<Rightarrow> 'v backend \<Rightarrow> 'v backend result" where
  "stateCallback channel session s =
     (if \<not> registered s then Done s
      else let s1 = s\<lparr>conn := (conn s)\<lparr>channelState := channel, sessionState := session\<rparr>\<rparr>
           in if opened s1 \<and> \<not> isConnected (conn s1) \<and> has_manager s1 \<and> run s1
              then deactivateAllAndPushException True False ''Client session is not open any more.'' s1
              else Done s1)"

text \<open>
  \<open>functional\<close> is the answer of the base class' \<open>isFunctional\<close>. The map is read with
  \<open>operator[]\<close> here, which yields a null pointer for an unknown client.
\<close>

definition inactivityCallback ::
    "bool \<Rightarrow> u32 \<Rightarrow> 'v backend \<Rightarrow> 'v backend result" where
  "inactivityCallback functional subId s =
     (if \<not> registered s then Undefined
      else if functional \<and> isConnected (conn s) \<and> has_manager s \<and> run s \<and> subscriptionID s = subId
      then seq (deactivateAllAndPushException True False
                  (''No activity for subscriptions: '' @ to_string subId) s)
             (\<lambda>s. Done (s\<lparr>conn := (conn s)\<lparr>sessionState := Session_closed\<rparr>\<rparr>))
      else Done s)"

definition deleteSubscriptionCallback :: "'v backend \<Rightarrow> 'v backend result" where
  "deleteSubscriptionCallback s =
     (if \<not> registered s then Done s
      else if has_manager s then Done (setInactive s) else Undefined)"

datatype 'v callback =
    State_changed channel_state session_state
  | Inactive bool u32
  | Subscription_deleted
  | Data_changed u32 "'v data_value"

fun client_callback ::
    "'v callback \<Rightarrow> 'v backend \<Rightarrow> 'v backend result" where
  "client_callback (State_changed channel session) s = stateCallback channel session s"
| "client_callback (Inactive functional subId) s =
     inactivityCallback functional subId s"
| "client_callback Subscription_deleted s = deleteSubscriptionCallback s"
| "client_callback (Data_changed monId value) s = responseHandler monId value s"

section \<open>The callbacks provide what the manager relies on\<close>

text \<open>The client is registered and the manager exists: the states in which the client library
  can report on a subscription.\<close>

definition serving :: "unit backend_ext \<Rightarrow> bool" where
  "serving z \<longleftrightarrow> (\<exists>b. z = backend_ext b True True ())"

lemma serving_more [simp]: "serving (manager.more s) \<longleftrightarrow> has_manager s \<and> registered s"
  by (cases s) (auto simp: serving_def)

lemma deactivateAll_keeps:
  "post (\<lambda>t. skel t = skel s) (deactivateAllAndPushException True d m s)"
  "post (thread_kept s) (deactivateAllAndPushException locked d m s)"
  "good_in ctx s \<Longrightarrow> no_ub (deactivateAllAndPushException locked d m s)"
  "opcuaThread s \<Longrightarrow> no_deadlock (deactivateAllAndPushException locked d m s)"
proof -
  show "post (\<lambda>t. skel t = skel s) (deactivateAllAndPushException True d m s)"
    using deactivate_locked_skel [of "handleException m s" d]
    by (simp add: deactivateAllAndPushException_def)
  have "thread_kept s u" if "thread_kept (handleException m s) u" for u :: "('a, 'b) manager_scheme"
    using that by (simp add: thread_kept_def)
  then show "post (thread_kept s) (deactivateAllAndPushException locked d m s)"
    unfolding deactivateAllAndPushException_def by (rule post_mono [OF deactivate_thread])
  show "no_ub (deactivateAllAndPushException locked d m s)" if "good_in ctx s"
    unfolding deactivateAllAndPushException_def
    by (rule deactivate_good(2)) (rule good_in_skel [OF skel_handleException that])
  show "no_deadlock (deactivateAllAndPushException locked d m s)" if "opcuaThread s"
    unfolding deactivateAllAndPushException_def by (rule deactivate_locked_live) (simp add: that)
qed

lemma conn_update_keeps [simp]:
  "skel (s\<lparr>conn := c\<rparr>) = skel s" "thread_kept s (s\<lparr>conn := c\<rparr>)"
  "thread_kept (s\<lparr>conn := c\<rparr>) = thread_kept s"
  by (simp_all add: skel_def thread_kept_def fun_eq_iff)

lemma stateCallback_keeps:
  "post (\<lambda>t. skel t = skel s) (stateCallback c n s)"
  "post (thread_kept s) (stateCallback c n s)"
  "good_in serving s \<Longrightarrow> no_ub (stateCallback c n s)"
  "thread_ok s \<Longrightarrow> no_deadlock (stateCallback c n s)"
proof -
  let ?s1 = "s\<lparr>conn := (conn s)\<lparr>channelState := c, sessionState := n\<rparr>\<rparr>"
  let ?r = "deactivateAllAndPushException True False ''Client session is not open any more.'' ?s1"
  show "post (\<lambda>t. skel t = skel s) (stateCallback c n s)"
    using deactivateAll_keeps(1) [of ?s1] by (simp add: stateCallback_def Let_def)
  show "post (thread_kept s) (stateCallback c n s)"
    using deactivateAll_keeps(2) [of ?s1 True] by (simp add: stateCallback_def Let_def)
  show "no_ub (stateCallback c n s)" if "good_in serving s"
    using deactivateAll_keeps(3) [of serving ?s1] that by (simp add: stateCallback_def Let_def)
  show "no_deadlock (stateCallback c n s)" if "thread_ok s"
    using deactivateAll_keeps(4) [of ?s1] that
    by (auto simp: stateCallback_def Let_def thread_ok_def)
qed

lemma inactivityCallback_keeps:
  "post (\<lambda>t. skel t = skel s) (inactivityCallback f i s)"
  "post (thread_kept s) (inactivityCallback f i s)"
  "good_in serving s \<Longrightarrow> no_ub (inactivityCallback f i s)"
  "thread_ok s \<Longrightarrow> no_deadlock (inactivityCallback f i s)"
proof -
  let ?m = "''No activity for subscriptions: '' @ to_string i"
  have frame: "thread_kept s (t\<lparr>conn := c\<rparr>)" if "thread_kept s t" for t c
    using that by (simp add: thread_kept_def)
  show "post (\<lambda>t. skel t = skel s) (inactivityCallback f i s)"
    unfolding inactivityCallback_def
    by (simp, intro impI, rule post_seqI [OF deactivateAll_keeps(1)]) simp_all
  show "post (thread_kept s) (inactivityCallback f i s)"
    unfolding inactivityCallback_def
    by (simp, intro impI, rule post_seqI [OF deactivateAll_keeps(2)]) (simp_all add: frame)
  show "no_ub (inactivityCallback f i s)" if "good_in serving s"
    using that deactivateAll_keeps(3) [OF that]
    by (auto simp: inactivityCallback_def good_in_def intro!: no_ub_seq)
  show "no_deadlock (inactivityCallback f i s)" if "thread_ok s"
    using that deactivateAll_keeps(4) [of s]
    by (auto simp: inactivityCallback_def thread_ok_def intro!: no_deadlock_seq)
qed

lemma responseHandler_no_ub: "wf_manager s \<Longrightarrow> no_ub (responseHandler monId value s)"
  by (auto simp: responseHandler_def split: option.split elim: wf_map_pointer)

lemma responseHandler_no_deadlock: "no_deadlock (responseHandler monId value s)"
  by (simp add: responseHandler_def split: option.split)

lemma setInactive_thread: "thread_kept s (setInactive s)"
  by (simp add: thread_kept_def setInactive_def)

interpretation client: client_callbacks client_callback serving
proof
  fix e :: "'v callback" and s :: "'v backend"
  show "post (\<lambda>t. skel t = skel s) (client_callback e s)"
    by (cases e) (simp_all add: stateCallback_keeps inactivityCallback_keeps responseHandler_skel
        deleteSubscriptionCallback_def)
  show "post (thread_kept s) (client_callback e s)"
    by (cases e) (simp_all add: stateCallback_keeps inactivityCallback_keeps responseHandler_thread
        deleteSubscriptionCallback_def setInactive_thread)
  show "no_ub (client_callback e s)" if "good_in serving s"
    using that
    by (cases e) (auto simp: stateCallback_keeps inactivityCallback_keeps responseHandler_no_ub
        deleteSubscriptionCallback_def good_in_def)
  show "no_deadlock (client_callback e s)" if "thread_ok s"
    using that
    by (cases e) (simp_all add: stateCallback_keeps inactivityCallback_keeps
        responseHandler_no_deadlock deleteSubscriptionCallback_def)
qed

section \<open>Opening, closing and resetting the device\<close>

record 'v reset_answer =
  rs_deleted :: bool                        \<comment> \<open>delete callback ran inside \<open>deactivate\<close>\<close>
  rs_iterations :: "'v callback iterate_answer list"  \<comment> \<open>what the client thread still iterates\<close>
  rs_thread_deleted :: bool                 \<comment> \<open>delete callback ran at the end of the thread\<close>
  rs_disconnect :: "'v callback list"       \<comment> \<open>callbacks inside \<open>UA_Client_disconnect\<close>\<close>

record 'v connect_answer =
  connect_result :: u32
  connect_result_name :: string
  connect_callbacks :: "'v callback list"

definition new_manager :: "'v backend \<Rightarrow> 'v backend" where
  "new_manager s = s\<lparr>has_manager := True, run := False, subscriptionActive := False,
     subscriptionNeedsToBeRemoved := False, asyncReadActive := False, subscriptionID := 0,
     items := [], subscriptionMap := [], opcuaThread := False, thread_live := False\<rparr>"

definition activateSubscriptionSupport :: "'v backend \<Rightarrow> 'v backend" where
  "activateSubscriptionSupport s = (if \<not> has_manager s then new_manager s else s)"

text \<open>\<open>OPCUAConnection::close\<close>: a bad status of the disconnect is only logged.\<close>

definition close_connection :: "'v callback list \<Rightarrow> 'v backend \<Rightarrow> 'v backend result" where
  "close_connection callbacks s = run_all client_callback callbacks (add_call Client_disconnect s)"

definition resetClient :: "'v reset_answer \<Rightarrow> 'v backend \<Rightarrow> 'v backend result" where
  "resetClient a s =
     seq (if has_manager s
          then seq (deactivate False (rs_deleted a) s) (\<lambda>s.
               stopClientThread client_callback (rs_iterations a) (rs_thread_deleted a)
                 (resetMonitoredItems s))
          else Done s)
       (close_connection (rs_disconnect a))"

definition connect_call :: "connection \<Rightarrow> 'v ua_call" where
  "connect_call c =
     (if certificate c \<noteq> [] \<and> key c \<noteq> [] then Client_connect (serverAddress c)
      else if username c = [] \<or> password c = [] then Client_connect (serverAddress c)
      else Client_connectUsername (serverAddress c) (username c) (password c))"

definition connect ::
    "'v reset_answer \<Rightarrow> 'v connect_answer \<Rightarrow> bool \<Rightarrow> 'v callback create_answer \<Rightarrow>
     (addr \<Rightarrow> 'v callback monitor_answer) \<Rightarrow> 'v backend \<Rightarrow> 'v backend result" where
  "connect reset answer deleted response monitor s =
     seq (resetClient reset s) (\<lambda>s.
     seq (run_all client_callback (connect_callbacks answer) (add_call (connect_call (conn s)) s)) (\<lambda>s.
     if connect_result answer \<noteq> UA_STATUSCODE_GOOD
     then Throws (Runtime_error (''Failed to connect to opc server: '' @ serverAddress (conn s) @
            '' with reason: '' @ connect_result_name answer)) s
     else if has_manager s then prepare client_callback deleted response monitor s
     else Done s))"

text \<open>The wait loop of \<open>open\<close>: at most five sleeps; \<open>during i\<close> are the callbacks that reach
  the backend in the sleep number \<open>i\<close>.\<close>

function wait_connected ::
    "(nat \<Rightarrow> 'v callback list) \<Rightarrow> nat \<Rightarrow> 'v backend \<Rightarrow> 'v backend result" where
  "wait_connected during i s =
     (if isConnected (conn s) then Done s
      else seq (run_all client_callback (during i) s) (\<lambda>s.
           if Suc i > 4 then Throws (Runtime_error ''Connection could not be established.'') s
           else wait_connected during (Suc i) s))"
  by pat_completeness auto
termination
  by (relation "measure (\<lambda>(during, i, s). 5 - i)") auto

declare wait_connected.simps [simp del]

record 'v open_answer =
  op_iterations :: "'v callback iterate_answer list"
  op_thread_deleted :: bool
  op_reset :: "'v reset_answer"
  op_connect :: "'v connect_answer"
  op_deleted :: bool
  op_create :: "'v callback create_answer"
  op_monitor :: "addr \<Rightarrow> 'v callback monitor_answer"
  op_waiting :: "nat \<Rightarrow> 'v callback list"

text \<open>\<open>setOpenedAndClearException\<close> is the base class'; what the model keeps of it is the flag.\<close>

definition open_device :: "'v open_answer \<Rightarrow> 'v backend \<Rightarrow> 'v backend result" where
  "open_device a s =
     seq (if \<not> isConnected (conn s)
          then seq (if has_manager s
                    then stopClientThread client_callback (op_iterations a) (op_thread_deleted a) s
                    else Done s)
                 (connect (op_reset a) (op_connect a) (op_deleted a) (op_create a) (op_monitor a))
          else Done s) (\<lambda>s.
     seq (wait_connected (op_waiting a) 0 s) (\<lambda>s. Done (s\<lparr>opened := True\<rparr>)))"

definition close_device :: "'v reset_answer \<Rightarrow> 'v backend \<Rightarrow> 'v backend result" where
  "close_device a s = resetClient a (s\<lparr>opened := False\<rparr>)"

definition destroy_backend :: "'v reset_answer \<Rightarrow> 'v backend \<Rightarrow> 'v backend result" where
  "destroy_backend a s = (if opened s then close_device a s else Done s)"

text \<open>A \<open>noexcept\<close> function that an exception leaves calls \<open>std::terminate\<close>.\<close>

fun noexcept :: "'s result \<Rightarrow> 's result" where
  "noexcept (Throws e s) = Terminated"
| "noexcept r = r"

definition activateAsyncRead ::
    "bool \<Rightarrow> bool \<Rightarrow> 'v callback create_answer \<Rightarrow> (addr \<Rightarrow> 'v callback monitor_answer) \<Rightarrow>
     'v backend \<Rightarrow> 'v backend result" where
  "activateAsyncRead functional deleted response monitor s =
     noexcept
       (if \<not> functional then Done s
        else seq (activate client_callback deleted response monitor (activateSubscriptionSupport s))
               (\<lambda>s. if \<not> opcuaThread s then start s else Done s))"

definition setExceptionImpl :: "bool \<Rightarrow> 'v backend \<Rightarrow> 'v backend result" where
  "setExceptionImpl deleted s =
     noexcept (if has_manager s
               then deactivateAllAndPushException False deleted
                      ''Exception reported by another accessor.'' s
               else Done s)"

end
