(* ===== verification/Register_Info.thy ===== *)
theory Register_Info
  imports Subscription_State
begin

text \<open>
  The register catalogue (\<^verbatim>\<open>include/RegisterInfo.h\<close>, \<^verbatim>\<open>src/RegisterInfo.cc\<close>): the description
  of one register and \<open>addProperty\<close>, which fills it and derives the data descriptor from the
  OPC UA data type. \<open>RegisterPath\<close> and the container \<open>BackendRegisterCatalogue\<close> are part of
  ChimeraTK DeviceAccess: the model takes \<open>join\<close> (the path of a register under a server),
  \<open>normal\<close> (the text of \<open>RegisterPath\<close>) and \<open>add_register\<close> as parameters. A catalogue is the
  list of its registers in iteration order.
\<close>

section \<open>Register descriptions\<close>

datatype fundamental_type = Numeric_type | String_type | Boolean_type

text \<open>The arguments of the constructor of \<open>DataDescriptor\<close>.\<close>

record data_descriptor =
  fundamentalType :: fundamental_type
  isIntegral :: bool
  isSigned :: bool
  nDigits :: nat
  nFractionalDigits :: nat

record register_info =
  path :: string
  reg_serverAddress :: string
  nodeBrowseName :: string
  description :: string
  unit_name :: string
  dataType :: u32
  dataDescriptor :: "data_descriptor option"   \<comment> \<open>\<open>None\<close>: default constructed\<close>
  isReadonly :: bool
  isNumeric :: bool
  reg_namespaceIndex :: u16
  arrayLength :: u64
  waitForNewData :: bool                       \<comment> \<open>\<open>AccessMode::wait_for_new_data\<close> in \<open>accessModes\<close>\<close>
  reg_id :: node_id
  reg_indexRange :: string

type_synonym catalogue = "register_info list"

definition UA_NODEID_NULL :: node_id where
  "UA_NODEID_NULL = \<lparr>namespaceIndex = 0, node_identifier = Numeric 0\<rparr>"

definition is_numeric :: "node_id \<Rightarrow> bool" where
  "is_numeric n = (case node_identifier n of Numeric _ \<Rightarrow> True | _ \<Rightarrow> False)"

text \<open>The three constructors: with and without a node id, and the default one.\<close>

definition default_info :: register_info where
  "default_info = \<lparr>path = [], reg_serverAddress = [], nodeBrowseName = [], description = [],
     unit_name = [], dataType = 0, dataDescriptor = None, isReadonly = True, isNumeric = True,
     reg_namespaceIndex = 0, arrayLength = 0, waitForNewData = False, reg_id = UA_NODEID_NULL,
     reg_indexRange = []\<rparr>"

definition info_without_id ::
    "(string \<Rightarrow> string \<Rightarrow> string) \<Rightarrow> string \<Rightarrow> string \<Rightarrow> register_info" where
  "info_without_id join server name =
     default_info\<lparr>path := join server name, reg_serverAddress := server, nodeBrowseName := name\<rparr>"

definition info_with_id ::
    "(string \<Rightarrow> string \<Rightarrow> string) \<Rightarrow> string \<Rightarrow> string \<Rightarrow> node_id \<Rightarrow> register_info" where
  "info_with_id join server name node =
     (info_without_id join server name)\<lparr>reg_id := node, reg_namespaceIndex := namespaceIndex node,
        isNumeric := is_numeric node\<rparr>"

definition isWriteable :: "register_info \<Rightarrow> bool" where
  "isWriteable info = (\<not> isReadonly info)"

text \<open>\<open>getNumberOfElements\<close> returns \<open>unsigned int\<close>: the \<open>size_t\<close> is truncated.\<close>

definition getNumberOfElements :: "register_info \<Rightarrow> u32" where
  "getNumberOfElements info = ucast (arrayLength info)"

section \<open>Adding a register\<close>

definition floatMaxDigits :: nat where
  "floatMaxDigits = 48"

definition mk_descriptor :: "fundamental_type \<Rightarrow> bool \<Rightarrow> bool \<Rightarrow> nat \<Rightarrow> nat \<Rightarrow> data_descriptor" where
  "mk_descriptor t integral sign digits fractional =
     \<lparr>fundamentalType = t, isIntegral = integral, isSigned = sign, nDigits = digits,
      nFractionalDigits = fractional\<rparr>"

definition descriptor_of :: "u32 \<Rightarrow> data_descriptor option" where
  "descriptor_of t =
     (if t = 1 then Some (mk_descriptor Boolean_type True True 320 300)
      else if t = 2 then Some (mk_descriptor Numeric_type True True 4 300)
      else if t = 3 then Some (mk_descriptor Numeric_type True False 3 300)
      else if t = 4 then Some (mk_descriptor Numeric_type True True 5 300)
      else if t = 5 then Some (mk_descriptor Numeric_type True False 6 300)
      else if t = 6 then Some (mk_descriptor Numeric_type True True 10 300)
      else if t = 7 then Some (mk_descriptor Numeric_type True False 11 300)
      else if t = 8 then Some (mk_descriptor Numeric_type True True 320 300)
      else if t = 9 then Some (mk_descriptor Numeric_type True False 320 300)
      else if t = 10 then Some (mk_descriptor Numeric_type False True floatMaxDigits 300)
      else if t = 11 then Some (mk_descriptor Numeric_type False True 300 300)
      else if t = 12 then Some (mk_descriptor String_type True True 320 300)
      else None)"

definition addProperty ::
    "(string \<Rightarrow> string \<Rightarrow> string) \<Rightarrow> (register_info \<Rightarrow> catalogue \<Rightarrow> exn + catalogue) \<Rightarrow>
     node_id \<Rightarrow> string \<Rightarrow> string \<Rightarrow> u32 \<Rightarrow> u64 \<Rightarrow> string \<Rightarrow> string \<Rightarrow> bool \<Rightarrow>
     catalogue \<Rightarrow> exn + catalogue" where
  "addProperty join add_register node name rng typ len server descr readonly c =
     (let entry = (info_with_id join server name node)
            \<lparr>dataType := typ, description := descr, arrayLength := len, isReadonly := readonly,
             waitForNewData := True, reg_indexRange := rng\<rparr>
      in case descriptor_of (dataType entry) of
           Some d \<Rightarrow> add_register (entry\<lparr>dataDescriptor := Some d\<rparr>) c
         | None \<Rightarrow> Inr c)"

section \<open>Lemmas\<close>

text \<open>The number of digits the code computes with \<open>log10\<close> of the limits of \<open>float\<close>, whose largest
  value is \<open>(2 - 2 ^ -23) * 2 ^ 127\<close> and whose smallest denormal is \<open>2 ^ -149\<close>.\<close>

lemma floatMaxDigits_log10:
  "int floatMaxDigits =
     \<lfloor>max (log 10 ((2 - 1 / 2 ^ 23) * 2 ^ 127)) (- log 10 (1 / 2 ^ 149 :: real)) + 4\<rfloor>"
proof -
  have low: "44 \<le> log 10 (2 ^ 149 :: real)" and high: "log 10 (2 ^ 149 :: real) < 45"
    by (simp_all add: le_log_iff log_less_iff)
  have big: "log 10 ((2 - 1 / 2 ^ 23) * 2 ^ 127 :: real) < 44"
    by (simp add: log_less_iff)
  have "- log 10 (1 / 2 ^ 149 :: real) = log 10 (2 ^ 149 :: real)"
    by (simp add: log_divide)
  with low big have "max (log 10 ((2 - 1 / 2 ^ 23) * 2 ^ 127)) (- log 10 (1 / 2 ^ 149 :: real)) =
      log 10 (2 ^ 149 :: real)" by linarith
  with low high show ?thesis unfolding floatMaxDigits_def by linarith
qed

lemma descriptor_of_range: "descriptor_of t \<noteq> None \<longleftrightarrow> 1 \<le> t \<and> t \<le> 12"
proof -
  have "t \<in> {1, 2, 3, 4, 5, 6, 7, 8, 9, 10, 11, 12}" if "1 \<le> t" "t \<le> 12"
  proof -
    from that have "1 \<le> unat t" "unat t \<le> 12" by (simp_all add: word_le_nat_alt)
    moreover have "n \<in> {1, 2, 3, 4, 5, 6, 7, 8, 9, 10, 11, 12}" if "1 \<le> n" "n \<le> 12" for n :: nat
      using that by (simp only: insert_iff empty_iff) presburger
    ultimately have "unat t \<in> {1, 2, 3, 4, 5, 6, 7, 8, 9, 10, 11, 12}" by blast
    then have "(word_of_nat (unat t) :: u32) \<in> word_of_nat ` {1, 2, 3, 4, 5, 6, 7, 8, 9, 10, 11, 12 :: nat}"
      by (rule imageI)
    then show ?thesis by simp
  qed
  then show ?thesis by (auto simp: descriptor_of_def)
qed

end
