(* ===== verification/Version_Mapper.thy ===== *)
theory Version_Mapper
  imports Prelude
begin

text \<open>
  The map from source time stamps to version numbers (\<^verbatim>\<open>src/VersionMapper.cc\<close>). \<open>UA_DateTime\<close>
  is a signed 64-bit count of 100 ns intervals since 1601; the signed arithmetic of
  \<open>convertToTimePoint\<close> is undefined when it overflows, which the model returns as \<open>None\<close>. A
  \<open>VersionNumber\<close> belongs to ChimeraTK DeviceAccess: the model takes its constructor as a
  parameter \<open>new_version\<close>, which gets a time point and a counter of the constructor calls, since
  two calls give different numbers. The \<open>std::map\<close> is an association list in ascending order of
  its keys, so that its first entry is \<open>begin()\<close>.
\<close>

section \<open>Model\<close>

definition UA_DATETIME_UNIX_EPOCH :: int where
  "UA_DATETIME_UNIX_EPOCH = 11644473600 * 10000000"

definition int64 :: "int \<Rightarrow> bool" where
  "int64 i \<longleftrightarrow> - (2 ^ 63) \<le> i \<and> i < 2 ^ 63"

definition convertToTimePoint :: "int \<Rightarrow> int option" where
  "convertToTimePoint timeStamp =
     (let d = timeStamp - UA_DATETIME_UNIX_EPOCH
      in if int64 d \<and> int64 (d * 100) then Some (d * 100) else None)"

record 'n version_mapper =
  versionMap :: "(int \<times> 'n) list"
  constructed :: nat

definition maxSizeEventIdMap :: nat where
  "maxSizeEventIdMap = 2000"

text \<open>\<open>operator[]\<close> with an assignment: insertion at the key's place, or replacement.\<close>

fun map_put :: "int \<Rightarrow> 'n \<Rightarrow> (int \<times> 'n) list \<Rightarrow> (int \<times> 'n) list" where
  "map_put k v [] = [(k, v)]"
| "map_put k v ((k', v') # m) =
     (if k < k' then (k, v) # (k', v') # m
      else if k = k' then (k, v) # m
      else (k', v') # map_put k v m)"

definition getVersion ::
    "(int \<Rightarrow> nat \<Rightarrow> 'n) \<Rightarrow> int \<Rightarrow> 'n version_mapper \<Rightarrow> ('n \<times> 'n version_mapper) option" where
  "getVersion new_version timeStamp s =
     (case map_of (versionMap s) timeStamp of
        Some v \<Rightarrow> Some (v, s)
      | None \<Rightarrow>
          (case convertToTimePoint timeStamp of
             None \<Rightarrow> None
           | Some tp \<Rightarrow>
               let m = (if length (versionMap s) = maxSizeEventIdMap then tl (versionMap s)
                        else versionMap s);
                   v = new_version tp (constructed s)
               in Some (v, s\<lparr>versionMap := map_put timeStamp v m, constructed := Suc (constructed s)\<rparr>)))"

primrec getVersions ::
    "(int \<Rightarrow> nat \<Rightarrow> 'n) \<Rightarrow> int list \<Rightarrow> 'n version_mapper \<Rightarrow> ('n list \<times> 'n version_mapper) option" where
  "getVersions new_version [] s = Some ([], s)"
| "getVersions new_version (t # ts) s =
     (case getVersion new_version t s of
        None \<Rightarrow> None
      | Some (v, s') \<Rightarrow> map_option (\<lambda>(vs, s''). (v # vs, s'')) (getVersions new_version ts s'))"

definition empty_mapper :: "'n version_mapper" where
  "empty_mapper = \<lparr>versionMap = [], constructed = 0\<rparr>"

section \<open>Invariant\<close>

text \<open>The keys ascend, there are at most 2000 of them, and every stored number was made by the
  constructor for its own key by a call that no other entry shares.\<close>

definition wf_mapper :: "(int \<Rightarrow> nat \<Rightarrow> 'n) \<Rightarrow> 'n version_mapper \<Rightarrow> bool" where
  "wf_mapper new_version s \<longleftrightarrow>
     sorted_wrt (<) (map fst (versionMap s)) \<and> length (versionMap s) \<le> maxSizeEventIdMap \<and>
     (\<forall>(t, v) \<in> set (versionMap s). \<exists>tp n.
        convertToTimePoint t = Some tp \<and> n < constructed s \<and> v = new_version tp n)"

lemma set_map_put:
  "sorted_wrt (<) (map fst m) \<Longrightarrow> map_of m k = None \<Longrightarrow>
   set (map_put k v m) = insert (k, v) (set m)"
  by (induction k v m rule: map_put.induct) (auto split: if_splits)

lemma sorted_map_put:
  assumes "sorted_wrt (<) (map fst m)"
  shows "sorted_wrt (<) (map fst (map_put k v m)) \<and>
    set (map fst (map_put k v m)) = insert k (set (map fst m))"
  using assms by (induction k v m rule: map_put.induct) auto

lemma length_map_put: "map_of m k = None \<Longrightarrow> sorted_wrt (<) (map fst m) \<Longrightarrow>
    length (map_put k v m) = Suc (length m)"
  by (induction k v m rule: map_put.induct) (auto split: if_splits)

lemma map_of_map_put:
  "sorted_wrt (<) (map fst m) \<Longrightarrow> map_of (map_put k v m) k' = ((map_of m)(k \<mapsto> v)) k'"
proof (induction k v m rule: map_put.induct)
  case (2 k v l w m)
  then show ?case by auto
qed simp

lemma map_of_tl:
  assumes "sorted_wrt (<) (map fst m)" and "map_of m k = Some v" and "k \<noteq> fst (hd m)"
  shows "map_of (tl m) k = Some v"
  using assms by (cases m) (auto split: if_splits)

lemma map_of_tl_None: "map_of m k = None \<Longrightarrow> map_of (tl m) k = None"
  by (cases m) (auto split: if_splits)

lemma sorted_tl: "sorted_wrt (<) (map fst m) \<Longrightarrow> sorted_wrt (<) (map fst (tl m))"
  by (cases m) auto

lemma getVersion_wf:
  assumes wf: "wf_mapper new_version s" and get: "getVersion new_version t s = Some (v, s')"
  shows "wf_mapper new_version s' \<and> map_of (versionMap s') t = Some v"
proof (cases "map_of (versionMap s) t")
  case (Some w)
  with get wf show ?thesis by (simp add: getVersion_def)
next
  case None
  with get obtain tp where tp: "convertToTimePoint t = Some tp"
    by (auto simp: getVersion_def split: option.splits)
  let ?m = "if length (versionMap s) = maxSizeEventIdMap then tl (versionMap s) else versionMap s"
  from get None tp have v: "v = new_version tp (constructed s)"
    and s': "s' = s\<lparr>versionMap := map_put t v ?m, constructed := Suc (constructed s)\<rparr>"
    by (auto simp: getVersion_def Let_def)
  from wf have sorted: "sorted_wrt (<) (map fst ?m)" by (simp add: wf_mapper_def sorted_tl)
  from None have none: "map_of ?m t = None" by (simp add: map_of_tl_None)
  from wf have len: "length ?m < maxSizeEventIdMap"
    by (auto simp: wf_mapper_def maxSizeEventIdMap_def)
  have sub: "set ?m \<subseteq> set (versionMap s)" by (cases "versionMap s") auto
  have "\<exists>tp n. convertToTimePoint k = Some tp \<and> n < constructed s' \<and> w = new_version tp n"
    if "(k, w) \<in> set (versionMap s')" for k w
  proof -
    from that consider "(k, w) = (t, v)" | "(k, w) \<in> set (versionMap s)"
      using set_map_put [OF sorted none, of v] sub by (auto simp: s')
    then show ?thesis
    proof cases
      case 1
      with tp v show ?thesis by (auto simp: s')
    next
      case 2
      with wf obtain tp n where "convertToTimePoint k = Some tp" "n < constructed s" "w = new_version tp n"
        unfolding wf_mapper_def by blast
      then show ?thesis by (auto simp: s' intro: less_SucI)
    qed
  qed
  moreover have "sorted_wrt (<) (map fst (versionMap s'))"
    using sorted_map_put [OF sorted, of t v] by (simp add: s')
  moreover have "length (versionMap s') \<le> maxSizeEventIdMap"
    using length_map_put [OF none sorted, of v] len by (simp add: s')
  moreover have "map_of (versionMap s') t = Some v"
    using map_of_map_put [OF sorted, of t v t] by (simp add: s')
  ultimately show ?thesis unfolding wf_mapper_def by blast
qed

lemma getVersion_keeps:
  assumes wf: "wf_mapper new_version s" and get: "getVersion new_version t s = Some (v, s')"
    and old: "map_of (versionMap s) k = Some w"
    and stays: "length (versionMap s) < maxSizeEventIdMap \<or> k \<noteq> fst (hd (versionMap s))"
  shows "map_of (versionMap s') k = Some w"
proof (cases "map_of (versionMap s) t")
  case (Some u)
  with get old show ?thesis by (simp add: getVersion_def)
next
  case None
  let ?m = "if length (versionMap s) = maxSizeEventIdMap then tl (versionMap s) else versionMap s"
  from get None have s': "versionMap s' = map_put t v ?m"
    by (auto simp: getVersion_def Let_def split: option.splits)
  from wf have sorted: "sorted_wrt (<) (map fst (versionMap s))" by (simp add: wf_mapper_def)
  have "map_of ?m k = Some w"
    using stays old map_of_tl [OF sorted old] by auto
  moreover have "sorted_wrt (<) (map fst ?m)" using sorted by (simp add: sorted_tl)
  moreover have "k \<noteq> t" using None old by auto
  ultimately show ?thesis using map_of_map_put [of ?m t v k] by (simp add: s')
qed

lemma getVersion_length:
  assumes "getVersion new_version t s = Some (v, s')"
  shows "length (versionMap s') \<le> Suc (length (versionMap s))"
proof -
  have "length (map_put k x m) \<le> Suc (length m)" for k x and m :: "(int \<times> 'a) list"
    by (induction k x m rule: map_put.induct) auto
  from this [of t v "versionMap s"] this [of t v "tl (versionMap s)"] assms show ?thesis
    by (auto simp: getVersion_def Let_def split: option.splits)
qed

text \<open>While the map has room, every stamp keeps the number it was given.\<close>

lemma getVersions_final:
  assumes "wf_mapper new_version s" and "getVersions new_version ts s = Some (vs, s')"
    and "length (versionMap s) + length ts \<le> maxSizeEventIdMap"
  shows "length vs = length ts \<and> (\<forall>(t, v) \<in> set (zip ts vs). map_of (versionMap s') t = Some v) \<and>
    (\<forall>k w. map_of (versionMap s) k = Some w \<longrightarrow> map_of (versionMap s') k = Some w) \<and>
    wf_mapper new_version s'"
  using assms
proof (induction ts arbitrary: s vs)
  case (Cons t ts)
  from Cons.prems(2) obtain v s1 vs1 where g: "getVersion new_version t s = Some (v, s1)"
    and gs: "getVersions new_version ts s1 = Some (vs1, s')" and vs: "vs = v # vs1"
    by (auto split: option.splits)
  from getVersion_wf [OF Cons.prems(1) g] have wf1: "wf_mapper new_version s1"
    and look: "map_of (versionMap s1) t = Some v" by simp_all
  have "length (versionMap s1) + length ts \<le> maxSizeEventIdMap"
    using getVersion_length [OF g] Cons.prems(3) by simp
  note IH = Cons.IH [OF wf1 gs this]
  have keep: "map_of (versionMap s1) k = Some w" if "map_of (versionMap s) k = Some w" for k w
    by (rule getVersion_keeps [OF Cons.prems(1) g that]) (use Cons.prems(3) in simp)
  show ?case using IH look keep by (auto simp: vs)
qed simp

section \<open>Properties\<close>

lemma wf_empty_mapper: "wf_mapper new_version empty_mapper"
  by (simp add: wf_mapper_def empty_mapper_def)

text \<open>
  The time points \<open>std::chrono\<close> can hold in nanoseconds are those of the years 1677 to 2262.
  For any other stamp the signed multiplication overflows; in particular for 0, the source time
  stamp of a data value that carries none.
\<close>

theorem convertToTimePoint_range:
  "(\<exists>tp. convertToTimePoint t = Some tp) =
     (t - UA_DATETIME_UNIX_EPOCH \<in> {- 92233720368547758 .. 92233720368547758})
   \<and> convertToTimePoint 0 = None"
  by (auto simp: convertToTimePoint_def UA_DATETIME_UNIX_EPOCH_def int64_def Let_def)

text \<open>
  C32: As long as the map has room for every stamp of a sequence of calls, equal stamps get equal
  version numbers, each made from the stamp's own time point; if no two version numbers that are made are the same,
  distinct stamps get distinct ones. The map stays in order and within its bound of 2000 entries.
\<close>

theorem getVersions_consistent:
  assumes "wf_mapper new_version s" and "getVersions new_version ts s = Some (vs, s')"
    and "length (versionMap s) + length ts \<le> maxSizeEventIdMap"
    and "i < length ts" and "j < length ts"
  shows "(ts ! i = ts ! j \<longrightarrow> vs ! i = vs ! j) \<and>
    (inj (\<lambda>(tp, n). new_version tp n) \<longrightarrow> ts ! i \<noteq> ts ! j \<longrightarrow> vs ! i \<noteq> vs ! j) \<and>
    (\<exists>tp n. convertToTimePoint (ts ! i) = Some tp \<and> vs ! i = new_version tp n) \<and>
    wf_mapper new_version s'"
proof -
  note final = getVersions_final [OF assms(1,2,3)]
  then have len: "length vs = length ts" by simp
  have look: "map_of (versionMap s') (ts ! k) = Some (vs ! k)" if "k < length ts" for k
  proof -
    from that len have "(ts ! k, vs ! k) \<in> set (zip ts vs)" by (auto simp: set_zip)
    with final show ?thesis by blast
  qed
  have made: "\<exists>tp n. convertToTimePoint (ts ! k) = Some tp \<and> vs ! k = new_version tp n" if "k < length ts" for k
    using map_of_SomeD [OF look [OF that]] final unfolding wf_mapper_def by blast
  have "vs ! i \<noteq> vs ! j" if inj: "inj (\<lambda>(tp, n). new_version tp n)" and "ts ! i \<noteq> ts ! j"
  proof
    assume "vs ! i = vs ! j"
    with made [OF assms(4)] made [OF assms(5)] injD [OF inj]
    have "convertToTimePoint (ts ! i) = convertToTimePoint (ts ! j)" "convertToTimePoint (ts ! i) \<noteq> None"
      by fastforce+
    with \<open>ts ! i \<noteq> ts ! j\<close> show False by (auto simp: convertToTimePoint_def Let_def split: if_splits)
  qed
  moreover have "vs ! i = vs ! j" if "ts ! i = ts ! j"
    using look [OF assms(4)] look [OF assms(5)] that by simp
  ultimately show ?thesis using final made [OF assms(4)] by blast
qed

theorem getVersions_consistent_witness:
  "(let t = UA_DATETIME_UNIX_EPOCH + 5; u = UA_DATETIME_UNIX_EPOCH + 3;
        r = getVersions Pair [t, u, t] empty_mapper
    in map_option fst r = Some [(500, 0), (300, 1), (500, 0)] \<and>
       (500, 0) = (500 :: int, 0 :: nat) \<and> (500, 0) \<noteq> (300 :: int, 1 :: nat))"
proof -
  let ?t = "UA_DATETIME_UNIX_EPOCH + 5" and ?u = "UA_DATETIME_UNIX_EPOCH + 3"
  let ?r = "getVersions Pair [?t, ?u, ?t] (empty_mapper :: (int \<times> nat) version_mapper)"
  have r: "?r = Some ([(500, 0), (300, 1), (500, 0)],
      \<lparr>versionMap = [(?u, (300, 1)), (?t, (500, 0))], constructed = 2\<rparr>)"
    by (simp add: empty_mapper_def getVersion_def convertToTimePoint_def int64_def
        maxSizeEventIdMap_def Let_def)
  have "[(500, 0), (300, 1), (500, 0)] ! 0 = ([(500, 0), (300, 1), (500, 0)] ! 2 :: int \<times> nat)"
    "[(500, 0), (300, 1), (500, 0)] ! 0 \<noteq> ([(500, 0), (300, 1), (500, 0)] ! 1 :: int \<times> nat)"
    using getVersions_consistent [OF wf_empty_mapper r, of 0 2] getVersions_consistent [OF wf_empty_mapper r, of 0 1]
    by (simp_all add: empty_mapper_def maxSizeEventIdMap_def)
  then show ?thesis using r by simp
qed

text \<open>
  In a full map a stamp older than every stored one is evicted by the next new stamp, so a
  second accessor that asks for it again gets another version number for the same data.
\<close>

theorem getVersion_evicts_oldest:
  assumes "wf_mapper new_version s" and "length (versionMap s) = maxSizeEventIdMap"
    and "\<forall>k \<in> set (map fst (versionMap s)). t < k \<and> k < u" and "inj (case_prod new_version)"
    and "getVersions new_version [t, u, t] s = Some ([v, w, v'], s')"
  shows "v \<noteq> v'"
proof -
  obtain kx m where m: "versionMap s = kx # m" and len: "length m = 1999"
    using assms(2) by (cases "versionMap s") (auto simp: maxSizeEventIdMap_def)
  have tu: "t < u" using assms(3) m by force
  have fresh: "map_of (versionMap s) t = None" "map_of m t = None" "map_of m u = None"
    using assms(3) m by (force simp: map_of_eq_None_iff)+
  from assms(5) obtain tp where tp: "convertToTimePoint t = Some tp"
    by (auto simp: getVersion_def fresh split: option.splits)
  have front: "map_put t x m = (t, x) # m" for x
    using assms(3) m by (cases m) auto
  let ?n = "constructed s"
  have tail: "tl (versionMap s) = m" by (simp add: m)
  let ?s1 = "s\<lparr>versionMap := (t, new_version tp ?n) # m, constructed := Suc ?n\<rparr>"
  have first: "getVersion new_version t s = Some (new_version tp ?n, ?s1)"
    using assms(2) tail by (simp add: getVersion_def fresh tp Let_def front)
  have "convertToTimePoint u \<noteq> None"
  proof
    assume none: "convertToTimePoint u = None"
    have "getVersion new_version u ?s1 = None"
      using tu by (simp add: getVersion_def fresh none)
    with assms(5) first show False by simp
  qed
  then obtain up where up: "convertToTimePoint u = Some up" by blast
  have second: "getVersion new_version u ?s1 =
      Some (new_version up (Suc ?n),
        s\<lparr>versionMap := map_put u (new_version up (Suc ?n)) m, constructed := Suc (Suc ?n)\<rparr>)"
    using tu by (simp add: getVersion_def fresh up Let_def maxSizeEventIdMap_def len)
  have sorted: "sorted_wrt (<) (map fst m)"
    using assms(1) by (simp add: wf_mapper_def m)
  have gone: "map_of (map_put u x m) t = None" for x
    using tu by (simp add: map_of_map_put [OF sorted] fresh)
  let ?s2 = "s\<lparr>versionMap := map_put u (new_version up (Suc ?n)) m, constructed := Suc (Suc ?n)\<rparr>"
  obtain s3 where third: "getVersion new_version t ?s2 = Some (new_version tp (Suc (Suc ?n)), s3)"
    by (simp add: getVersion_def gone tp Let_def)
  have "getVersions new_version [t, u, t] s =
      Some ([new_version tp ?n, new_version up (Suc ?n), new_version tp (Suc (Suc ?n))], s3)"
    by (simp add: first second third)
  with assms(5) have "([v, w, v'], s') =
      ([new_version tp ?n, new_version up (Suc ?n), new_version tp (Suc (Suc ?n))], s3)"
    by (simp only: option.inject)
  then have v: "v = new_version tp ?n" "v' = new_version tp (Suc (Suc ?n))"
    by (simp_all only: prod.inject list.inject)
  have "case_prod new_version (tp, ?n) \<noteq> case_prod new_version (tp, Suc (Suc ?n))"
  proof
    assume "case_prod new_version (tp, ?n) = case_prod new_version (tp, Suc (Suc ?n))"
    with assms(4) have "(tp, ?n) = (tp, Suc (Suc ?n))" by (rule injD)
    then show False by simp
  qed
  then show ?thesis by (simp add: v)
qed

definition full_mapper :: "(int \<times> nat) version_mapper" where
  "full_mapper = \<lparr>versionMap = map (\<lambda>i. (UA_DATETIME_UNIX_EPOCH + 10 + int i, ((10 + int i) * 100, i)))
     [0 ..< 2000], constructed = 2000\<rparr>"

lemma wf_full_mapper: "wf_mapper Pair full_mapper"
proof -
  have "sorted_wrt (<) (map fst (versionMap full_mapper))"
    by (simp add: full_mapper_def sorted_wrt_map sorted_wrt_iff_nth_less)
  moreover have "convertToTimePoint (UA_DATETIME_UNIX_EPOCH + 10 + int i) = Some ((10 + int i) * 100)"
    if "i < 2000" for i
    using that by (simp add: convertToTimePoint_def int64_def Let_def)
  ultimately show ?thesis
    by (auto simp: wf_mapper_def full_mapper_def maxSizeEventIdMap_def)
qed

theorem getVersion_evicts_oldest_witness:
  "\<exists>v w v' s'. getVersions Pair [UA_DATETIME_UNIX_EPOCH, UA_DATETIME_UNIX_EPOCH + 5000,
       UA_DATETIME_UNIX_EPOCH] full_mapper = Some ([v, w, v'], s') \<and> v \<noteq> v'"
proof -
  let ?t = "UA_DATETIME_UNIX_EPOCH" and ?u = "UA_DATETIME_UNIX_EPOCH + 5000"
  have tp: "convertToTimePoint ?t = Some 0" "convertToTimePoint ?u = Some 500000"
    by (simp_all add: convertToTimePoint_def int64_def)
  have total: "\<exists>v s'. getVersion Pair x s = Some (v, s')" if "x \<in> {?t, ?u}"
    for x and s :: "(int \<times> nat) version_mapper"
    using that by (auto simp: getVersion_def tp Let_def split: option.split)
  obtain v s1 where 1: "getVersion Pair ?t full_mapper = Some (v, s1)" using total by blast
  obtain w s2 where 2: "getVersion Pair ?u s1 = Some (w, s2)" using total by blast
  obtain v' s3 where 3: "getVersion Pair ?t s2 = Some (v', s3)" using total by blast
  have r: "getVersions Pair [?t, ?u, ?t] full_mapper = Some ([v, w, v'], s3)"
    by (simp add: 1 2 3)
  have "v \<noteq> v'"
    by (rule getVersion_evicts_oldest [OF wf_full_mapper _ _ _ r])
      (auto simp: full_mapper_def maxSizeEventIdMap_def inj_def)
  with r show ?thesis by blast
qed

end
