(* ===== verification/Converter.thy ===== *)
theory Converter
  imports Cpp_Std
begin

text \<open>
  The conversions between OPC UA and ChimeraTK types (class template
  \<open>RangeCheckingDataConverter\<close> of \<^verbatim>\<open>include/OPC-UA-BackendRegisterAccessor.h\<close>), one branch per
  specialisation. \<open>boost::numeric::converter\<close> is a parameter \<open>nconv\<close> that tells how a number of
  one numeric type converts to another. Numbers are rationals; a floating type carries its
  \<open>numeric_limits::max()\<close> and \<open>numeric_limits::min()\<close>.
\<close>

section \<open>Types and values\<close>

datatype num_type = Integer bool nat | Floating rat rat

datatype ua_type = UA_Boolean | UA_Number num_type | UA_String
datatype ctk_type = CTK_Boolean | CTK_Number num_type | CTK_String | CTK_Void

text \<open>A \<open>UA_String\<close> owns its characters, or points to those of a string that is gone:
  \<open>UA_STRING\<close> does not copy.\<close>

datatype ua_string = Owned string | Dangling

datatype ua_value = UA_truth bool | UA_number rat | UA_text ua_string
datatype ctk_value = CTK_truth bool | CTK_number rat | CTK_text string | CTK_nothing

datatype conversion = Converted rat | Positive_overflow | Negative_overflow

text \<open>\<open>std::numeric_limits<T>::max()\<close> and \<open>min()\<close>.\<close>

fun max_of :: "num_type \<Rightarrow> rat" where
  "max_of (Integer sign bits) = (if sign then 2 ^ (bits - 1) - 1 else 2 ^ bits - 1)"
| "max_of (Floating hi lo) = hi"

fun min_of :: "num_type \<Rightarrow> rat" where
  "min_of (Integer sign bits) = (if sign then - (2 ^ (bits - 1)) else 0)"
| "min_of (Floating hi lo) = lo"

fun lowest_of :: "num_type \<Rightarrow> rat" where
  "lowest_of (Integer sign bits) = min_of (Integer sign bits)"
| "lowest_of (Floating hi lo) = - hi"

text \<open>\<open>round\<close> of the C library: to the nearest integer, halves away from zero.\<close>

definition round_away :: "rat \<Rightarrow> int" where
  "round_away r = (if 0 \<le> r then \<lfloor>r + 1 / 2\<rfloor> else \<lceil>r - 1 / 2\<rceil>)"

text \<open>\<open>std::to_string\<close>: \<open>%d\<close> for integers; \<open>%f\<close>, six decimals rounded half to even, otherwise.\<close>

definition round_even :: "rat \<Rightarrow> int" where
  "round_even r = (let f = \<lfloor>r\<rfloor>; d = r - of_int f
     in if d < 1 / 2 then f else if 1 / 2 < d then f + 1 else if even f then f else f + 1)"

definition pad_left :: "nat \<Rightarrow> string \<Rightarrow> string" where
  "pad_left n s = replicate (n - length s) (CHR ''0'') @ s"

definition show_fixed :: "rat \<Rightarrow> string" where
  "show_fixed r = (let n = nat (round_even (\<bar>r\<bar> * 1000000))
     in (if r < 0 then ''-'' else []) @ show_nat (n div 1000000) @ ''.'' @
        pad_left 6 (show_nat (n mod 1000000)))"

fun number_to_string :: "num_type \<Rightarrow> rat \<Rightarrow> string" where
  "number_to_string (Integer _ _) r = show_int \<lfloor>r\<rfloor>"
| "number_to_string (Floating _ _) r = show_fixed r"

section \<open>Conversions\<close>

definition convert_number ::
    "(num_type \<Rightarrow> num_type \<Rightarrow> rat \<Rightarrow> conversion) \<Rightarrow> num_type \<Rightarrow> num_type \<Rightarrow> rat \<Rightarrow> rat" where
  "convert_number nconv dest src x =
     (case nconv dest src x of
        Converted y \<Rightarrow> y
      | Positive_overflow \<Rightarrow> max_of dest
      | Negative_overflow \<Rightarrow> min_of dest)"

definition bool_type :: num_type where
  "bool_type = Integer False 1"

definition conversion_error :: exn where
  "conversion_error = Std_logic_error ''Conversion from string is not allowed.''"

text \<open>Reading: \<open>RangeCheckingDataConverter<CTKType, UAType>\<close>. \<open>UA_Boolean\<close> is \<open>bool\<close>, a numeric
  type with the values 0 and 1. \<open>None\<close>: the characters of a dangling string are read.\<close>

definition truth_number :: "bool \<Rightarrow> rat" where
  "truth_number b = (if b then 1 else 0)"

fun toCTK ::
    "(num_type \<Rightarrow> num_type \<Rightarrow> rat \<Rightarrow> conversion) \<Rightarrow> ctk_type \<Rightarrow> ua_type \<Rightarrow> ua_value \<Rightarrow>
     (exn + ctk_value) option" where
  "toCTK nconv CTK_Void src v = Some (Inr CTK_nothing)"
| "toCTK nconv CTK_String src (UA_text (Owned s)) = Some (Inr (CTK_text s))"
| "toCTK nconv CTK_String src (UA_text Dangling) = None"
| "toCTK nconv dest src (UA_text _) = Some (Inl conversion_error)"
| "toCTK nconv CTK_String (UA_Number t) (UA_number x) = Some (Inr (CTK_text (number_to_string t x)))"
| "toCTK nconv CTK_String src (UA_number x) = Some (Inr (CTK_text (number_to_string bool_type x)))"
| "toCTK nconv CTK_String src (UA_truth b) =
     Some (Inr (CTK_text (number_to_string bool_type (truth_number b))))"
| "toCTK nconv (CTK_Number d) src (UA_truth b) =
     Some (Inr (CTK_number (convert_number nconv d bool_type (truth_number b))))"
| "toCTK nconv (CTK_Number d) (UA_Number t) (UA_number x) =
     Some (Inr (CTK_number (convert_number nconv d t x)))"
| "toCTK nconv (CTK_Number d) src (UA_number x) =
     Some (Inr (CTK_number (convert_number nconv d bool_type x)))"
| "toCTK nconv CTK_Boolean src (UA_truth b) =
     Some (Inr (CTK_truth (convert_number nconv bool_type bool_type (truth_number b) \<noteq> 0)))"
| "toCTK nconv CTK_Boolean (UA_Number t) (UA_number x) =
     Some (Inr (CTK_truth (convert_number nconv bool_type t x \<noteq> 0)))"
| "toCTK nconv CTK_Boolean src (UA_number x) =
     Some (Inr (CTK_truth (convert_number nconv bool_type bool_type x \<noteq> 0)))"

text \<open>Writing: \<open>RangeCheckingDataConverter<UAType, CTKType>\<close>. \<open>UA_String_fromChars\<close> copies up to
  the first NUL character.\<close>

definition from_chars :: "string \<Rightarrow> ua_string" where
  "from_chars s = Owned (takeWhile (\<lambda>c. c \<noteq> CHR 0x00) s)"

fun default_of :: "ua_type \<Rightarrow> ua_value" where
  "default_of UA_Boolean = UA_truth False"
| "default_of (UA_Number _) = UA_number 0"
| "default_of UA_String = UA_text (from_chars ''void'')"

fun toOpcUA ::
    "(num_type \<Rightarrow> num_type \<Rightarrow> rat \<Rightarrow> conversion) \<Rightarrow> ua_type \<Rightarrow> ctk_type \<Rightarrow> ctk_value \<Rightarrow>
     exn + ua_value" where
  "toOpcUA nconv dest src CTK_nothing = Inr (default_of dest)"
| "toOpcUA nconv UA_String src (CTK_text s) = Inr (UA_text (from_chars s))"
| "toOpcUA nconv dest src (CTK_text s) = Inl conversion_error"
| "toOpcUA nconv UA_String src (CTK_truth b) =
     Inr (UA_text (from_chars (if b then ''true'' else ''false'')))"
| "toOpcUA nconv UA_String src (CTK_number x) = Inr (UA_text Dangling)"
| "toOpcUA nconv UA_Boolean src (CTK_truth b) = Inr (UA_truth b)"
| "toOpcUA nconv (UA_Number d) src (CTK_truth b) = Inr (UA_number (truth_number b))"
| "toOpcUA nconv (UA_Number d) (CTK_Number t) (CTK_number x) =
     Inr (UA_number (convert_number nconv d t x))"
| "toOpcUA nconv (UA_Number d) src (CTK_number x) =
     Inr (UA_number (convert_number nconv d bool_type x))"
| "toOpcUA nconv UA_Boolean (CTK_Number t) (CTK_number x) =
     Inr (UA_truth (convert_number nconv bool_type t x \<noteq> 0))"
| "toOpcUA nconv UA_Boolean src (CTK_number x) =
     Inr (UA_truth (convert_number nconv bool_type bool_type x \<noteq> 0))"

text \<open>
  What the code relies on in the Boost converter for an integer destination: the number is
  rounded, converted when the result fits, and reported as an overflow of the right sign
  when it does not.
\<close>

definition rounds_and_checks :: "(num_type \<Rightarrow> num_type \<Rightarrow> rat \<Rightarrow> conversion) \<Rightarrow> bool" where
  "rounds_and_checks nconv \<longleftrightarrow>
     (\<forall>sign bits src x. let dest = Integer sign bits; r = of_int (round_away x)
        in nconv dest src x =
             (if max_of dest < r then Positive_overflow
              else if r < lowest_of dest then Negative_overflow
              else Converted r))"

definition reference_converter :: "num_type \<Rightarrow> num_type \<Rightarrow> rat \<Rightarrow> conversion" where
  "reference_converter dest src x =
     (case dest of
        Integer sign bits \<Rightarrow>
          let r = of_int (round_away x)
          in if max_of dest < r then Positive_overflow
             else if r < lowest_of dest then Negative_overflow
             else Converted r
      | Floating hi lo \<Rightarrow>
          if hi < x then Positive_overflow else if x < - hi then Negative_overflow
          else Converted x)"

lemma reference_converter_rounds: "rounds_and_checks reference_converter"
  by (simp add: rounds_and_checks_def reference_converter_def Let_def)

lemma round_away_of_int [simp]: "round_away (of_int i) = i"
  by (simp add: round_away_def floor_eq_iff ceiling_eq_iff)

lemma round_away_numeral [simp]:
  "round_away (numeral k) = numeral k" "round_away (- numeral k) = - numeral k"
  using round_away_of_int [of "numeral k"] round_away_of_int [of "- numeral k"] by simp_all

lemma min_le_max: "min_of (Integer sign bits) \<le> max_of (Integer sign bits)"
proof -
  have one: "(1 :: rat) \<le> 2 ^ n" for n by simp
  show ?thesis
  proof (cases sign)
    case True
    have "0 \<le> (2 :: rat) ^ (bits - 1) + 2 ^ (bits - 1) - 1" using one [of "bits - 1"] by linarith
    with True show ?thesis by simp
  next
    case False
    with one [of bits] show ?thesis by simp
  qed
qed

lemma from_chars_id: "CHR 0x00 \<notin> set s \<Longrightarrow> from_chars s = Owned s"
  by (simp add: from_chars_def takeWhile_eq_all_conv) blast

section \<open>Properties\<close>

lemma convert_number_saturates_result:
  assumes "rounds_and_checks nconv"
  shows "convert_number nconv (Integer sign bits) src x =
    max (min_of (Integer sign bits)) (min (max_of (Integer sign bits)) (of_int (round_away x)))"
proof -
  let ?d = "Integer sign bits"
  from assms have "nconv ?d src x =
      (if max_of ?d < of_int (round_away x) then Positive_overflow
       else if of_int (round_away x) < lowest_of ?d then Negative_overflow
       else Converted (of_int (round_away x)))"
    unfolding rounds_and_checks_def Let_def by blast
  with min_le_max [of sign bits] show ?thesis
    unfolding convert_number_def lowest_of.simps
    by (auto simp del: max_of.simps min_of.simps simp: max_def min_def split: if_splits)
qed

lemma convert_number_exact:
  assumes "rounds_and_checks nconv" and "of_int \<lfloor>x\<rfloor> = x"
    and "x \<in> {min_of (Integer s b) .. max_of (Integer s b)}"
  shows "convert_number nconv (Integer s b) src x = x"
proof -
  have "of_int (round_away x) = x" using round_away_of_int [of "\<lfloor>x\<rfloor>"] assms(2) by metis
  with assms(3) show ?thesis
    unfolding convert_number_saturates_result [OF assms(1)] by (simp del: max_of.simps min_of.simps)
qed

text \<open>
  C30: A conversion to an integer type saturates: the result is the rounded number, cut off at
  the limits of the type.
\<close>

theorem convert_number_saturates:
  assumes "rounds_and_checks nconv"
  shows "convert_number nconv (Integer sign bits) src x =
    max (min_of (Integer sign bits)) (min (max_of (Integer sign bits)) (of_int (round_away x)))"
  using assms by (rule convert_number_saturates_result)

theorem convert_number_saturates_witness:
  "convert_number reference_converter (Integer True 8) (Floating 1000000 1) (- 200) = - 128 \<and>
   convert_number reference_converter (Integer False 8) (Floating 1000000 1) (7 / 2) = 4"
proof -
  have "round_away (7 / 2) = 4" by (simp add: round_away_def floor_eq_iff)
  then show ?thesis by (simp add: convert_number_saturates [OF reference_converter_rounds])
qed

text \<open>
  An integer that both types hold survives a write followed by a read, as does a text
  without NUL characters.
\<close>

theorem value_roundtrip:
  assumes "rounds_and_checks nconv"
    and "of_int i \<in> {min_of (Integer su bu) .. max_of (Integer su bu)}"
    and "of_int i \<in> {min_of (Integer sc bc) .. max_of (Integer sc bc)}"
    and "CHR 0x00 \<notin> set t"
  shows "(\<exists>u. toOpcUA nconv (UA_Number (Integer su bu)) (CTK_Number (Integer sc bc))
            (CTK_number (of_int i)) = Inr u \<and>
          toCTK nconv (CTK_Number (Integer sc bc)) (UA_Number (Integer su bu)) u =
            Some (Inr (CTK_number (of_int i)))) \<and>
    (\<exists>u. toOpcUA nconv UA_String CTK_String (CTK_text t) = Inr u \<and>
          toCTK nconv CTK_String UA_String u = Some (Inr (CTK_text t)))"
proof -
  show ?thesis
    using assms(2,3) by (simp add: convert_number_exact [OF assms(1)] from_chars_id [OF assms(4)]
        del: max_of.simps min_of.simps)
qed

theorem value_roundtrip_witness:
  "(\<exists>u. toOpcUA reference_converter (UA_Number (Integer True 16)) (CTK_Number (Integer False 32))
          (CTK_number 300) = Inr u \<and>
        toCTK reference_converter (CTK_Number (Integer False 32)) (UA_Number (Integer True 16)) u =
          Some (Inr (CTK_number 300))) \<and>
   (\<exists>u. toOpcUA reference_converter UA_String CTK_String (CTK_text ''ab'') = Inr u \<and>
          toCTK reference_converter CTK_String UA_String u = Some (Inr (CTK_text ''ab'')))"
proof -
  have "of_int 300 \<in> {min_of (Integer True 16) .. max_of (Integer True 16)}"
    and "of_int 300 \<in> {min_of (Integer False 32) .. max_of (Integer False 32)}"
    and "CHR 0x00 \<notin> set ''ab''"
    by simp_all
  from value_roundtrip [OF reference_converter_rounds this] show ?thesis
    by (simp only: of_int_numeral)
qed

text \<open>
  A number written to a node of type string is lost: the value handed to the server points
  to characters that no longer exist, whatever the number and the client's type.
\<close>

theorem number_to_string_node_dangles:
  "toOpcUA nconv UA_String src (CTK_number x) = Inr u \<Longrightarrow> toCTK nconv CTK_String UA_String u = None"
  by auto

theorem number_to_string_node_dangles_witness:
  "toCTK reference_converter CTK_String UA_String (UA_text Dangling) = None"
  by (rule number_to_string_node_dangles [of reference_converter "CTK_Number (Integer True 32)" 42])
    simp

text \<open>
  A number below the range of a floating type becomes the smallest positive number of that
  type, because \<open>min()\<close> of a floating type is not its lowest value.
\<close>

theorem negative_overflow_turns_positive:
  assumes "nconv (Floating hi lo) src x = Negative_overflow" and "x < 0" and "0 < lo"
  shows "0 < convert_number nconv (Floating hi lo) src x"
  using assms by (simp add: convert_number_def)

theorem negative_overflow_turns_positive_witness:
  "0 < convert_number reference_converter (Floating 1000 (1 / 8)) (Floating 9000 (1 / 8)) (- 5000)"
  by (rule negative_overflow_turns_positive) (simp_all add: reference_converter_def)

end
