(* ===== verification/Accessor.thy ===== *)
theory Accessor
  imports Backend Register_Info Version_Mapper Converter
begin

text \<open>
  The register accessor (\<^verbatim>\<open>include/OPC-UA-BackendRegisterAccessor.h\<close>): construction with its
  subscription, synchronous reading, the transfer of received data to the user buffer, writing,
  the handling of transfer errors and destruction.
\<close>

section \<open>Data\<close>

text \<open>A variant holds an array of values (a scalar counts as one), and none when its data pointer
  is null.\<close>

type_synonym variant = "ua_value list"

definition init_value :: "variant data_value" where
  "init_value = \<lparr>hasValue = False, dv_value = [], dv_status = 0, sourceTimestamp = 0\<rparr>"

text \<open>\<open>ManagedDataValue::prepare\<close> and \<open>copyVariant\<close>. \<open>copy_range\<close> is \<open>UA_Variant_copyRange\<close>
  with the parsed range: a status code other than good, or the copied part.\<close>

definition prepare_value :: "variant data_value \<Rightarrow> variant data_value" where
  "prepare_value d = (if hasValue d then init_value else d)"

definition copyVariant ::
    "(variant \<Rightarrow> string \<Rightarrow> u32 + variant) \<Rightarrow> int \<Rightarrow> variant \<Rightarrow> string \<Rightarrow> variant data_value \<Rightarrow>
     variant data_value" where
  "copyVariant copy_range now src dataRange d =
     (let d1 = prepare_value d;
          d2 = (if dataRange = [] then d1\<lparr>dv_value := src\<rparr>
                else (case copy_range src dataRange of
                        Inl status \<Rightarrow> d1\<lparr>dv_status := status\<rparr>
                      | Inr v \<Rightarrow> d1\<lparr>dv_value := v, dv_status := UA_STATUSCODE_GOOD\<rparr>))
      in if dv_status d2 = UA_STATUSCODE_GOOD
         then d2\<lparr>hasValue := True, sourceTimestamp := now\<rparr> else d2)"

record 'n accessor_object =
  acc_id :: acc_id
  info :: register_info
  node_id_text :: string
  numberOfWords :: u64
  offsetWords :: u64
  isPartial :: bool
  subscribed :: bool
  uaType :: ua_type
  ctkType :: ctk_type
  buffer :: "ctk_value list"
  faulty :: bool
  currentVersion :: "'n option"

fun ctk_default :: "ctk_type \<Rightarrow> ctk_value" where
  "ctk_default CTK_Boolean = CTK_truth False"
| "ctk_default (CTK_Number _) = CTK_number 0"
| "ctk_default CTK_String = CTK_text []"
| "ctk_default CTK_Void = CTK_nothing"

definition set_data ::
    "acc_id \<Rightarrow> variant data_value \<Rightarrow> variant backend \<Rightarrow> variant backend" where
  "set_data a d s = s\<lparr>accessors := (accessors s)(a := (accessors s a)\<lparr>acc_data := d\<rparr>)\<rparr>"

text \<open>What the read queue does with a value it hands out: the function given to \<open>then\<close> moves it into
  the accessor. A value is also taken from the queue when the function throws.\<close>

definition take_notification ::
    "acc_id \<Rightarrow> variant data_value \<Rightarrow> variant backend \<Rightarrow> variant backend result" where
  "take_notification a d s =
     (if \<not> hasValue d then Throws (Runtime_error ''No data in found in the data queue.'') s
      else Done (set_data a d s))"

text \<open>Reading the queue: the entry its front shows is taken.\<close>

definition read_queue ::
    "(variant notification list \<Rightarrow> (string + variant data_value) option) \<Rightarrow> acc_id \<Rightarrow> variant backend \<Rightarrow>
     variant backend result" where
  "read_queue front a s =
     (case front (notifications (accessors s a)) of
        None \<Rightarrow> Done s
      | Some (Inl m) \<Rightarrow> Throws (Runtime_error m) (push_notification Taken a s)
      | Some (Inr d) \<Rightarrow> take_notification a d (push_notification Taken a s))"

text \<open>The base class converts the source time stamp of its data to a version number itself, without the
  version map; \<open>k\<close> counts the version numbers made before.\<close>

definition convertToTimePoint_data ::
    "(int \<Rightarrow> nat \<Rightarrow> 'n) \<Rightarrow> nat \<Rightarrow> variant data_value \<Rightarrow> 'n option" where
  "convertToTimePoint_data new_version k d =
     (let u = sourceTimestamp d - UA_DATETIME_UNIX_EPOCH
      in if int64 u \<and> int64 (u * 100) then Some (new_version (u * 100) k) else None)"

text \<open>It is the number the version map makes for a stamp it does not hold.\<close>

lemma getVersion_new_stamp:
  assumes "map_of (versionMap vm) (sourceTimestamp d) = None"
  shows "map_option fst (getVersion new_version (sourceTimestamp d) vm) =
    convertToTimePoint_data new_version (constructed vm) d"
  using assms by (simp add: getVersion_def convertToTimePoint_data_def convertToTimePoint_def Let_def)

section \<open>Construction and destruction\<close>

definition new_accessor ::
    "acc_id \<Rightarrow> register_info \<Rightarrow> string \<Rightarrow> u64 \<Rightarrow> u64 \<Rightarrow> bool \<Rightarrow> ua_type \<Rightarrow> ctk_type \<Rightarrow>
     'n accessor_object" where
  "new_accessor a i node n off wait u c =
     \<lparr>acc_id = a, info = i, node_id_text = node, numberOfWords = n, offsetWords = off,
      isPartial = (arrayLength i \<noteq> n), subscribed = wait, uaType = u, ctkType = c,
      buffer = replicate (unat n) (ctk_default c), faulty = False, currentVersion = None\<rparr>"

record 'v attach_answer =
  at_deleted :: bool
  at_create :: "'v callback create_answer"
  at_monitor :: "addr \<Rightarrow> 'v callback monitor_answer"
  at_front :: "'v notification list \<Rightarrow> (string + 'v data_value) option"

definition attach ::
    "'v attach_answer \<Rightarrow> string \<Rightarrow> node_id \<Rightarrow> acc_id \<Rightarrow> 'v backend \<Rightarrow> 'v backend result" where
  "attach answer name node a s =
     seq (subscribe client_callback (at_deleted answer) (at_create answer) (at_monitor answer)
            (at_front answer) name node a
            (if \<not> has_manager s then activateSubscriptionSupport s else s)) (\<lambda>s.
     if asyncReadActive s \<and> \<not> opcuaThread s then start s else Done s)"

definition construct_accessor ::
    "variant attach_answer \<Rightarrow> bool \<Rightarrow> bool \<Rightarrow> acc_id \<Rightarrow> register_info \<Rightarrow> variant backend \<Rightarrow>
     variant backend result" where
  "construct_accessor answer raw wait a i s =
     (if raw then Throws (Logic_error ''Raw access mode is not supported.'') s
      else let s1 = s\<lparr>accessors := (accessors s)(a :=
                       \<lparr>indexRange = reg_indexRange i, acc_data = init_value, notifications = []\<rparr>)\<rparr>
           in if wait then attach answer (nodeBrowseName i) (reg_id i) a s1 else Done s1)"

record 'v detach_answer =
  dt_callbacks :: "'v callback list"
  dt_deleted :: bool
  dt_iterations :: "'v callback iterate_answer list"
  dt_thread_deleted :: bool

definition detach ::
    "'v detach_answer \<Rightarrow> string \<Rightarrow> acc_id \<Rightarrow> 'v backend \<Rightarrow> 'v backend result" where
  "detach answer name a s =
     (if has_manager s
      then unsubscribe client_callback (dt_callbacks answer) (dt_deleted answer)
             (dt_iterations answer) (dt_thread_deleted answer) name a s
      else Undefined)"

definition destroy_accessor ::
    "variant detach_answer \<Rightarrow> 'n accessor_object \<Rightarrow> variant backend \<Rightarrow> variant backend result" where
  "destroy_accessor answer obj s =
     (if subscribed obj then detach answer (nodeBrowseName (info obj)) (acc_id obj) s else Done s)"

section \<open>Transfers\<close>

definition hex_digit :: "nat \<Rightarrow> char" where
  "hex_digit d = ''0123456789abcdef'' ! d"

fun show_hex :: "nat \<Rightarrow> string" where
  "show_hex n = (if n < 16 then [hex_digit n] else show_hex (n div 16) @ [hex_digit (n mod 16)])"

declare show_hex.simps [simp del]

definition error_text :: "string \<Rightarrow> string \<Rightarrow> u32 \<Rightarrow> string" where
  "error_text node status_name retval =
     ''OPC-UA-Backend::Failed to access variable: '' @ node @ '' with reason: '' @ status_name @
     '' --> '' @ show_hex (unat retval)"

definition mark_external :: "string \<Rightarrow> 'v backend \<Rightarrow> 'v backend" where
  "mark_external name s = (if has_manager s then setExternalError name s else s)"

definition handleError ::
    "'v callback list \<Rightarrow> string \<Rightarrow> string \<Rightarrow> u32 \<Rightarrow> string \<Rightarrow> 'v backend \<Rightarrow> 'v backend result" where
  "handleError callbacks name node retval status_name s =
     seq (close_connection callbacks (mark_external name s))
       (Throws (Runtime_error (error_text node status_name retval)))"

definition isReadOnly_accessor :: "'n accessor_object \<Rightarrow> bool" where
  "isReadOnly_accessor obj = isReadonly (info obj)"

definition isReadable_accessor :: "'n accessor_object \<Rightarrow> bool" where
  "isReadable_accessor obj = True"

definition isWriteable_accessor :: "'n accessor_object \<Rightarrow> bool" where
  "isWriteable_accessor obj = (\<not> isReadonly (info obj))"

text \<open>\<open>doPreRead\<close> and \<open>doPreWrite\<close>; \<open>is_open\<close> is the answer of the base class.\<close>

definition doPreRead :: "bool \<Rightarrow> 's \<Rightarrow> 's result" where
  "doPreRead is_open s =
     (if is_open then Done s
      else Throws (Logic_error ''Read operation not allowed while device is closed.'') s)"

definition doPreWrite :: "bool \<Rightarrow> 's \<Rightarrow> 's result" where
  "doPreWrite is_open s =
     (if is_open then Done s
      else Throws (Logic_error ''Write operation not allowed while device is closed.'') s)"

text \<open>The answers to a read and a write of the value attribute, with the callbacks that ran inside
  the call and inside the disconnect that follows an error.\<close>

record 'v transfer_answer =
  tr_status :: u32
  tr_status_name :: string
  tr_value :: 'v
  tr_callbacks :: "'v callback list"
  tr_close :: "'v callback list"

text \<open>\<open>active\<close> is the exception \<open>checkActiveException\<close> of the base class rethrows, if any.\<close>

definition check_exception :: "string option \<Rightarrow> 's \<Rightarrow> 's result" where
  "check_exception active s =
     (case active of None \<Rightarrow> Done s | Some m \<Rightarrow> Throws (Runtime_error m) s)"

definition doReadTransferSynchronously ::
    "(variant \<Rightarrow> string \<Rightarrow> u32 + variant) \<Rightarrow> int \<Rightarrow> string option \<Rightarrow> variant transfer_answer \<Rightarrow>
     'n accessor_object \<Rightarrow> variant backend \<Rightarrow> variant backend result" where
  "doReadTransferSynchronously copy_range now active answer obj s =
     seq (check_exception active s) (\<lambda>s.
     seq (run_all client_callback (tr_callbacks answer) (add_call (Read_value (reg_id (info obj))) s)) (\<lambda>s.
     if tr_status answer \<noteq> UA_STATUSCODE_GOOD
     then handleError (tr_close answer) (nodeBrowseName (info obj)) (node_id_text obj)
            (tr_status answer) (tr_status_name answer) s
     else Done (set_data (acc_id obj)
            (copyVariant copy_range now (tr_value answer) (reg_indexRange (info obj))
               (acc_data (accessors s (acc_id obj)))) s)))"

text \<open>The array index of the word number \<open>i\<close>: \<open>size_t\<close> arithmetic.\<close>

definition word_index :: "'n accessor_object \<Rightarrow> nat \<Rightarrow> nat" where
  "word_index obj i = unat (offsetWords obj + word_of_nat i)"

text \<open>\<open>doPostRead\<close> on the accessor object and the version map. Reading outside the array of the
  variant, or the characters of a dangling string, is undefined.\<close>

definition read_word ::
    "(num_type \<Rightarrow> num_type \<Rightarrow> rat \<Rightarrow> conversion) \<Rightarrow> variant \<Rightarrow> nat \<Rightarrow> 'n accessor_object \<Rightarrow>
     'n accessor_object result" where
  "read_word nconv v i obj =
     (if word_index obj i < length v \<and> i < length (buffer obj)
      then (case toCTK nconv (ctkType obj) (uaType obj) (v ! word_index obj i) of
              None \<Rightarrow> Undefined
            | Some (Inl e) \<Rightarrow> Throws e obj
            | Some (Inr x) \<Rightarrow> Done (obj\<lparr>buffer := (buffer obj)[i := x]\<rparr>))
      else Undefined)"

fun pair_with :: "'b \<Rightarrow> 'a result \<Rightarrow> ('a \<times> 'b) result" where
  "pair_with b (Done a) = Done (a, b)"
| "pair_with b (Throws e a) = Throws e (a, b)"
| "pair_with b Undefined = Undefined"
| "pair_with b Blocked = Blocked"
| "pair_with b Terminated = Terminated"

definition doPostRead ::
    "(num_type \<Rightarrow> num_type \<Rightarrow> rat \<Rightarrow> conversion) \<Rightarrow> (int \<Rightarrow> nat \<Rightarrow> 'n) \<Rightarrow> bool \<Rightarrow>
     variant data_value \<Rightarrow> 'n accessor_object \<times> 'n version_mapper \<Rightarrow>
     ('n accessor_object \<times> 'n version_mapper) result" where
  "doPostRead nconv new_version hasNewData d = (\<lambda>(obj, vm).
     if \<not> hasNewData then Done (obj, vm)
     else seq (pair_with vm
                (if \<not> hasValue d then Done (obj\<lparr>faulty := True\<rparr>)
                 else seq (run_all (read_word nconv (dv_value d)) [0 ..< unat (numberOfWords obj)] obj)
                        (\<lambda>obj. Done (obj\<lparr>faulty := False\<rparr>))))
            (\<lambda>(obj, vm). case getVersion new_version (sourceTimestamp d) vm of
                None \<Rightarrow> Undefined
              | Some (v, vm) \<Rightarrow> Done (obj\<lparr>currentVersion := Some v\<rparr>, vm)))"

text \<open>One pass of the loop of \<open>doWriteTransfer\<close>: the entry is cleared, then overwritten.\<close>

fun cleared :: "ua_type \<Rightarrow> ua_value" where
  "cleared UA_Boolean = UA_truth False"
| "cleared (UA_Number _) = UA_number 0"
| "cleared UA_String = UA_text (Owned [])"

definition write_word ::
    "(num_type \<Rightarrow> num_type \<Rightarrow> rat \<Rightarrow> conversion) \<Rightarrow> 'n accessor_object \<Rightarrow> nat \<Rightarrow> variant backend \<Rightarrow>
     variant backend result" where
  "write_word nconv obj i s =
     (let d = acc_data (accessors s (acc_id obj)); k = word_index obj i;
          put = (\<lambda>x. set_data (acc_id obj) (d\<lparr>dv_value := (dv_value d)[k := x]\<rparr>) s)
      in if k < length (dv_value d) \<and> i < length (buffer obj)
         then (case toOpcUA nconv (uaType obj) (ctkType obj) (buffer obj ! i) of
                 Inl e \<Rightarrow> Throws e (put (cleared (uaType obj)))
               | Inr x \<Rightarrow> Done (put x))
         else Undefined)"

abbreviation (input) UA_STATUSCODE_BADNOTWRITABLE :: u32 where
  "UA_STATUSCODE_BADNOTWRITABLE \<equiv> 0x803B0000"

abbreviation (input) UA_STATUSCODE_BADWRITENOTSUPPORTED :: u32 where
  "UA_STATUSCODE_BADWRITENOTSUPPORTED \<equiv> 0x80730000"

definition write_value ::
    "variant transfer_answer \<Rightarrow> 'n accessor_object \<Rightarrow> variant backend \<Rightarrow> variant backend result" where
  "write_value answer obj s =
     seq (run_all client_callback (tr_callbacks answer) (add_call (Write_value (reg_id (info obj)) (dv_value (acc_data (accessors s (acc_id obj))))) s)) (\<lambda>s.
     if tr_status answer = UA_STATUSCODE_GOOD then Done s
     else if tr_status answer = UA_STATUSCODE_BADNOTWRITABLE \<or>
             tr_status answer = UA_STATUSCODE_BADWRITENOTSUPPORTED
     then Throws (Logic_error (''OPC-UA-Backend::Variable '' @ node_id_text obj @ '' is not writable!''))
            (mark_external (nodeBrowseName (info obj)) s)
     else handleError (tr_close answer) (nodeBrowseName (info obj)) (node_id_text obj)
            (tr_status answer) (tr_status_name answer) s)"

definition doWriteTransfer ::
    "(num_type \<Rightarrow> num_type \<Rightarrow> rat \<Rightarrow> conversion) \<Rightarrow> (variant \<Rightarrow> string \<Rightarrow> u32 + variant) \<Rightarrow> int \<Rightarrow>
     string option \<Rightarrow> variant transfer_answer \<Rightarrow> variant transfer_answer \<Rightarrow> 'n \<Rightarrow>
     variant backend \<times> 'n accessor_object \<Rightarrow> (variant backend \<times> 'n accessor_object) result" where
  "doWriteTransfer nconv copy_range now active reading writing version = (\<lambda>(s, obj).
     seq (pair_with obj (seq (check_exception active s) (\<lambda>s.
          seq (if isPartial obj \<or> \<not> hasValue (acc_data (accessors s (acc_id obj)))
               then doReadTransferSynchronously copy_range now active reading obj s
               else Done s)
            (run_all (write_word nconv obj) [0 ..< unat (numberOfWords obj)]))))
       (\<lambda>(s, obj). pair_with (obj\<lparr>currentVersion := Some version\<rparr>) (write_value writing obj s)))"

end
