(* ===== verification/Device_Steps.thy ===== *)
theory Device_Steps
  imports Accessor
begin

text \<open>
  The backend as a transition system: the client thread, the device functions and the accessors
  interleave, each event being one call from outside (the functions hold locks that exclude each
  other's critical sections). An event carries what the environment contributes to it.
\<close>

section \<open>Events\<close>

datatype event =
    Receive "variant callback"                                    \<comment> \<open>in the client thread\<close>
  | Thread_end "variant callback iterate_answer list" bool
  | Open "variant open_answer"
  | Close "variant reset_answer"
  | Activate_async bool bool "variant callback create_answer"
      "addr \<Rightarrow> variant callback monitor_answer"
  | Set_exception bool
  | Attach "variant attach_answer" string node_id acc_id
  | Detach "variant detach_answer" string acc_id
  | Transfer_error "variant callback list" string string u32 string
  | Not_writable string

fun perform :: "event \<Rightarrow> variant backend \<Rightarrow> variant backend result" where
  "perform (Receive e) s = client_callback e s"
| "perform (Thread_end its deleted) s = runClient client_callback its deleted s"
| "perform (Open a) s = open_device a s"
| "perform (Close a) s = close_device a s"
| "perform (Activate_async functional deleted response answer) s =
     activateAsyncRead functional deleted response answer s"
| "perform (Set_exception deleted) s = setExceptionImpl deleted s"
| "perform (Attach a name node acc) s = attach a name node acc s"
| "perform (Detach a name acc) s = detach a name acc s"
| "perform (Transfer_error cbs name node retval status_name) s =
     handleError cbs name node retval status_name s"
| "perform (Not_writable name) s = Done (mark_external name s)"

text \<open>
  When an event can happen. Callbacks reach the backend from the running thread. Before the
  manager exists there is no subscription, so the library cannot report that one was deleted.
  The server's revised publishing interval fits an \<open>unsigned long\<close>. An accessor that is
  destroyed obeys \<open>unsubscribe_guard\<close>.
\<close>

definition quiet :: "'v callback list \<Rightarrow> bool" where
  "quiet es \<longleftrightarrow> Subscription_deleted \<notin> set es"

definition quiet_reset :: "'v reset_answer \<Rightarrow> bool" where
  "quiet_reset a = quiet (rs_disconnect a)"

definition quiet_open :: "'v open_answer \<Rightarrow> bool" where
  "quiet_open a \<longleftrightarrow> quiet_reset (op_reset a) \<and> quiet (connect_callbacks (op_connect a)) \<and>
     (\<forall>i < 5. quiet (op_waiting a i))"

fun enabled :: "event \<Rightarrow> variant backend \<Rightarrow> bool" where
  "enabled (Receive e) s \<longleftrightarrow> thread_live s"
| "enabled (Thread_end its deleted) s \<longleftrightarrow> thread_live s"
| "enabled (Open a) s \<longleftrightarrow> (has_manager s \<or> quiet_open a) \<and> valid_response (op_create a)"
| "enabled (Close a) s \<longleftrightarrow> has_manager s \<or> quiet_reset a"
| "enabled (Activate_async functional deleted response answer) s \<longleftrightarrow> valid_response response"
| "enabled (Set_exception deleted) s \<longleftrightarrow> True"
| "enabled (Attach a name node acc) s \<longleftrightarrow> valid_response (at_create a)"
| "enabled (Detach a name acc) s \<longleftrightarrow> has_manager s \<and> unsubscribe_guard name acc s"
| "enabled (Transfer_error cbs name node retval status_name) s \<longleftrightarrow> has_manager s \<or> quiet cbs"
| "enabled (Not_writable name) s \<longleftrightarrow> True"

inductive backend_step :: "variant backend \<Rightarrow> event \<Rightarrow> variant backend \<Rightarrow> bool" where
  returns: "enabled e s \<Longrightarrow> perform e s = Done t \<Longrightarrow> backend_step s e t"
| throws: "enabled e s \<Longrightarrow> perform e s = Throws x t \<Longrightarrow> backend_step s e t"

inductive_cases backend_stepE: "backend_step s e t"
inductive_simps backend_step_receive: "backend_step s (Receive e) t"

text \<open>The state the constructor leaves: registered, closed, without a manager. The connection
  and the accessors are arbitrary.\<close>

definition initial :: "variant backend \<Rightarrow> bool" where
  "initial s \<longleftrightarrow> registered s \<and> \<not> has_manager s \<and> \<not> opened s \<and> \<not> run s \<and> \<not> opcuaThread s \<and>
     \<not> thread_live s \<and> items s = [] \<and> subscriptionMap s = []"

inductive reachable :: "variant backend \<Rightarrow> bool" where
  start: "initial s \<Longrightarrow> reachable s"
| step: "reachable s \<Longrightarrow> backend_step s e t \<Longrightarrow> reachable t"

section \<open>Invariant\<close>

definition backend_inv :: "'v backend \<Rightarrow> bool" where
  "backend_inv s \<longleftrightarrow> registered s \<and> thread_ok s \<and> wf_manager s \<and>
     (\<not> has_manager s \<longrightarrow> \<not> opcuaThread s \<and> items s = [] \<and> subscriptionMap s = [])"

lemma inv_good: "backend_inv s \<Longrightarrow> has_manager s \<Longrightarrow> good_in serving s"
  by (simp add: backend_inv_def good_in_def)

lemma good_inv: "good_in serving s \<Longrightarrow> thread_ok s \<Longrightarrow> backend_inv s"
  by (simp add: backend_inv_def good_in_def)

lemma inv_thread: "backend_inv s \<Longrightarrow> thread_ok s"
  by (simp add: backend_inv_def)

lemma post_inv:
  assumes "post (good_in serving) r" and "post thread_ok r"
  shows "post backend_inv r"
proof -
  from assms have "post (\<lambda>s. good_in serving s \<and> thread_ok s) r" by (simp add: post_conj)
  then show ?thesis by (rule post_mono) (simp add: good_inv)
qed

lemma post_kept: "post (thread_kept s) r \<Longrightarrow> thread_ok s \<Longrightarrow> post thread_ok r"
  by (erule post_mono) (rule thread_kept_ok)

lemma skel_more_eq:
  assumes "skel t = skel (s :: 'v backend)"
  shows "registered t = registered s" and "has_manager t = has_manager s"
    and "opened t = opened s"
  using assms skel_more [OF assms] by (cases s; cases t; simp)+

lemma skel_inv:
  assumes sk: "skel t = skel s" and th: "thread_kept s t" and inv: "backend_inv s"
  shows "backend_inv t"
proof -
  from sk have map: "subscriptionMap t = subscriptionMap s" by (simp add: skel_def)
  from skel_fst [OF sk] have "items s = [] \<longleftrightarrow> items t = []"
    by (metis map_is_Nil_conv)
  then show ?thesis
    using inv map thread_kept_ok [OF th] wf_manager_skel [OF sk] skel_more_eq [OF sk] th
    by (auto simp: backend_inv_def thread_kept_def)
qed

lemma callback_inv: "backend_inv s \<Longrightarrow> post backend_inv (client_callback e s)"
proof -
  assume inv: "backend_inv s"
  have "post (\<lambda>t. skel t = skel s \<and> thread_kept s t) (client_callback e s)"
    unfolding post_conj by (intro conjI client.cb_skel client.cb_thread)
  then show ?thesis by (rule post_mono) (use inv in \<open>auto intro: skel_inv\<close>)
qed

interpretation backend_cb: keeps_invariant backend_inv client_callback
  by unfold_locales (rule callback_inv)

text \<open>Without a manager, a callback other than the deletion of a subscription is safe too.\<close>

lemma callback_safe:
  assumes inv: "backend_inv s" and "has_manager s \<or> e \<noteq> Subscription_deleted"
  shows "no_ub (client_callback e s)"
proof (cases "has_manager s")
  case True
  with inv show ?thesis by (blast intro: client.cb_safe inv_good)
next
  case False
  with assms show ?thesis
    by (cases e) (simp_all add: stateCallback_def inactivityCallback_def responseHandler_def
        backend_inv_def Let_def)
qed

lemma callback_has_manager:
  assumes "client_callback e s = Done t"
  shows "has_manager t = has_manager s"
proof -
  have "post (\<lambda>u. skel u = skel s) (client_callback e s)" by (rule client.cb_skel)
  with assms have "skel t = skel s" by simp
  then show ?thesis by (rule skel_more_eq)
qed

lemma callbacks_safe:
  "backend_inv s \<Longrightarrow> has_manager s \<or> quiet es \<Longrightarrow> no_ub (run_all client_callback es s)"
proof (induction es arbitrary: s)
  case (Cons e es)
  have "no_ub (client_callback e s)"
    using Cons.prems by (intro callback_safe) (auto simp: quiet_def)
  moreover have "no_ub (run_all client_callback es t)" if t: "client_callback e s = Done t" for t
  proof (rule Cons.IH)
    from callback_inv [OF Cons.prems(1), of e] t show "backend_inv t" by simp
    from callback_has_manager [OF t] Cons.prems(2) show "has_manager t \<or> quiet es"
      by (auto simp: quiet_def)
  qed
  ultimately show ?case unfolding run_all.simps by (rule no_ub_seq)
qed simp

lemma callbacks_has_manager:
  assumes "run_all client_callback es s = Done t"
  shows "has_manager t = has_manager s"
proof -
  have "post (\<lambda>u. skel u = skel s) (run_all client_callback es s)" by (rule client.cbs_skel)
  with assms have "skel t = skel s" by simp
  then show ?thesis by (rule skel_more_eq)
qed

lemmas callbacks_inv = backend_cb.run_all_inv

section \<open>Every event keeps the invariant and uses no stale pointer\<close>

lemma backend_inv_update [simp]:
  "backend_inv (s\<lparr>ua_calls := x\<rparr>) = backend_inv s"
  "backend_inv (s\<lparr>conn := c\<rparr>) = backend_inv s"
  "backend_inv (s\<lparr>accessors := A\<rparr>) = backend_inv s"
  "backend_inv (s\<lparr>opened := b\<rparr>) = backend_inv s"
  "backend_inv (add_call k s) = backend_inv s"
proof -
  have [simp]: "thread_ok (s\<lparr>ua_calls := x\<rparr>) = thread_ok s"
    "thread_ok (s\<lparr>conn := c\<rparr>) = thread_ok s" "thread_ok (s\<lparr>accessors := A\<rparr>) = thread_ok s"
    "thread_ok (s\<lparr>opened := b\<rparr>) = thread_ok s" "wf_manager (s\<lparr>opened := b\<rparr>) = wf_manager s"
    for x c A b and s :: "'a backend"
    by (simp_all add: thread_ok_def wf_manager_def)
  show "backend_inv (s\<lparr>ua_calls := x\<rparr>) = backend_inv s"
    "backend_inv (s\<lparr>conn := c\<rparr>) = backend_inv s"
    "backend_inv (s\<lparr>accessors := A\<rparr>) = backend_inv s"
    "backend_inv (s\<lparr>opened := b\<rparr>) = backend_inv s"
    "backend_inv (add_call k s) = backend_inv s"
    by (simp_all add: backend_inv_def add_call_def)
qed

lemma runClient_thread_ok: "thread_ok s \<Longrightarrow> post thread_ok (runClient client_callback its del s)"
proof -
  assume ok: "thread_ok s"
  show ?thesis
    unfolding runClient_def
  proof (rule post_seqI [OF client.client_loop_thread])
    fix t :: "'a backend" assume "thread_kept s t"
    with ok show "thread_ok t" by (rule thread_kept_ok [rotated])
  next
    fix t :: "'a backend" assume "thread_kept s t"
    show "post thread_ok (Done ((if subscriptionNeedsToBeRemoved t
        then (removeSubscription del t)\<lparr>subscriptionNeedsToBeRemoved := False\<rparr> else t)
        \<lparr>run := False, thread_live := False\<rparr>))"
      by (simp add: thread_ok_def)
  qed
qed

lemma stopClientThread_thread_ok:
  assumes ok: "thread_ok s"
  shows "post (\<lambda>t. thread_ok t) (stopClientThread client_callback its del s)"
proof (cases "opcuaThread s \<and> thread_live s")
  case True
  then have eq: "stopClientThread client_callback its del s =
      seq (runClient client_callback its del s) (\<lambda>s. Done (s\<lparr>opcuaThread := False\<rparr>))"
    by (simp add: stopClientThread_def)
  show ?thesis
    unfolding eq
  proof (rule post_seqI [OF runClient_thread_ok [OF ok]])
    fix t assume "runClient client_callback its del s = Done t"
    from client.runClient_ends [OF this] show "post thread_ok (Done (t\<lparr>opcuaThread := False\<rparr>))"
      by (simp add: thread_ok_def)
  qed
next
  case False
  with ok show ?thesis by (auto simp: stopClientThread_def thread_ok_def)
qed

text \<open>An operation that ends in good states only, with (\<open>m\<close>) or without the manager.\<close>

definition sound :: "bool \<Rightarrow> 'v backend result \<Rightarrow> bool" where
  "sound m r \<longleftrightarrow> post (\<lambda>t. backend_inv t \<and> has_manager t = m) r \<and> no_ub r"

lemma soundI: "post (good_in serving) r \<Longrightarrow> post thread_ok r \<Longrightarrow> no_ub r \<Longrightarrow> sound True r"
  by (cases r) (auto simp: sound_def good_inv good_in_def)

lemma sound_Done [simp]: "sound m (Done s) \<longleftrightarrow> backend_inv s \<and> has_manager s = m"
  by (simp add: sound_def)

lemma sound_Throws [simp]: "sound m (Throws e s) \<longleftrightarrow> backend_inv s \<and> has_manager s = m"
  by (simp add: sound_def)

lemma sound_Terminated [simp]: "sound m Terminated"
  by (simp add: sound_def)

lemma sound_seq:
  assumes "sound m r" and "\<And>t. backend_inv t \<Longrightarrow> has_manager t = m \<Longrightarrow> sound m (f t)"
  shows "sound m (seq r f)"
  using assms by (cases r) (auto simp: sound_def)

lemma sound_noexcept: "sound m r \<Longrightarrow> sound m (noexcept r)"
  by (cases r) (auto simp: sound_def)

lemma callbacks_sound:
  assumes "backend_inv s" and "has_manager s \<or> quiet es"
  shows "sound (has_manager s) (run_all client_callback es s)"
proof -
  have "post (\<lambda>u. has_manager u = has_manager s) (run_all client_callback es s)"
    by (rule post_mono [OF client.cbs_skel]) (rule skel_more_eq)
  then show ?thesis
    unfolding sound_def post_conj by (intro conjI callbacks_safe callbacks_inv assms)
qed

lemma callback_sound: "backend_inv s \<Longrightarrow> has_manager s \<Longrightarrow> sound True (client_callback e s)"
  using callbacks_sound [of s "[e]"] by simp

text \<open>Another name for the three facts on one operation of the manager.\<close>

lemma manager_sound:
  fixes s :: "'v backend"
  assumes inv: "backend_inv s" and m: "has_manager s"
  shows "sound True (runClient client_callback its del s)"
    and "sound True (stopClientThread client_callback its del s)"
    and "sound True (deactivate locked del s)"
    and "valid_response r \<Longrightarrow> sound True (prepare client_callback del r answer s)"
    and "valid_response r \<Longrightarrow> sound True (activate client_callback del r answer s)"
    and "valid_response r \<Longrightarrow>
      sound True (subscribe client_callback del r answer front name node a s)"
proof -
  note good = inv_good [OF inv m] and ok = inv_thread [OF inv]
  show "sound True (runClient client_callback its del s)"
    by (intro soundI client.runClient_wf [OF good] runClient_thread_ok ok)
  show "sound True (stopClientThread client_callback its del s)"
    by (intro soundI client.stopClientThread_wf [OF good] stopClientThread_thread_ok ok)
  show "sound True (deactivate locked del s)"
    by (intro soundI deactivate_good [OF good] post_kept [OF deactivate_thread ok])
  show "sound True (prepare client_callback del r answer s)" if "valid_response r"
    by (intro soundI client.prepare_wf [OF good] post_kept [OF client.prepare_thread ok] that)
  show "sound True (activate client_callback del r answer s)" if "valid_response r"
    by (intro soundI client.activate_wf [OF good] post_kept [OF client.activate_thread ok] that)
  show "sound True (subscribe client_callback del r answer front name node a s)" if "valid_response r"
    by (intro soundI client.subscribe_wf [OF good] post_kept [OF client.subscribe_thread ok] that)
qed

lemma unsubscribe_thread_ok:
  fixes s :: "'v backend"
  assumes ok: "thread_ok s"
  shows "post thread_ok (unsubscribe client_callback cbs del its del' name a s)"
proof -
  have more: "thread_ok (t :: 'v backend)" if "opcuaThread t = opcuaThread s"
    "thread_live t = thread_live s" "run t = run s" for t
    using ok that by (simp add: thread_ok_def)
  have last: "post thread_ok (if items t = []
      then stopClientThread client_callback its del' ((removeSubscription del t)\<lparr>run := False\<rparr>)
      else Done t)" if "thread_ok t" for t :: "'v backend"
    using that
    by (auto simp: thread_ok_def intro!: stopClientThread_thread_ok)
  show ?thesis
    unfolding unsubscribe_def Let_def
    by (auto split: option.split prod.split intro!: post_seq [OF _ last] more
        client.thr.run_all_inv simp: add_call_def ok)
qed

lemma unsubscribe_sound:
  assumes inv: "backend_inv s" and m: "has_manager s" and guard: "unsubscribe_guard name a s"
  shows "sound True (unsubscribe client_callback cbs del its del' name a s)"
  by (intro soundI client.unsubscribe_wf [OF inv_good [OF inv m] guard]
      unsubscribe_thread_ok inv_thread [OF inv])

lemma support_inv:
  assumes "backend_inv s"
  shows "backend_inv (activateSubscriptionSupport s)" and "has_manager (activateSubscriptionSupport s)"
  using assms
  by (auto simp: activateSubscriptionSupport_def new_manager_def backend_inv_def thread_ok_def
      wf_manager_def wf_items_def wf_map_def)

lemma start_sound:
  assumes "backend_inv s" and "has_manager s"
  shows "sound True (start s)"
  using assms by (auto simp: start_def backend_inv_def thread_ok_def)

lemma resetMonitoredItems_inv:
  assumes "backend_inv s"
  shows "backend_inv (resetMonitoredItems s)"
    and "has_manager (resetMonitoredItems s) = has_manager s"
  using assms resetMonitoredItems_wf [of s]
  by (simp_all add: backend_inv_def thread_ok_def resetMonitoredItems_def)

lemma resetClient_sound:
  fixes s :: "'v backend"
  assumes inv: "backend_inv s" and q: "has_manager s \<or> quiet_reset a"
  shows "sound (has_manager s) (resetClient a s)"
proof -
  have last: "sound (has_manager s)
      (run_all client_callback (rs_disconnect a) (add_call Client_disconnect t))"
    if "backend_inv t" "has_manager t = has_manager s" for t :: "'v backend"
    using callbacks_sound [of "add_call Client_disconnect t" "rs_disconnect a"] that q
    by (auto simp: quiet_reset_def add_call_def)
  show ?thesis
    unfolding resetClient_def close_connection_def
  proof (rule sound_seq)
    show "sound (has_manager s) (if has_manager s
        then seq (deactivate False (rs_deleted a) s) (\<lambda>s. stopClientThread client_callback
               (rs_iterations a) (rs_thread_deleted a) (resetMonitoredItems s))
        else Done s)"
      using inv by (auto intro!: sound_seq manager_sound resetMonitoredItems_inv
          simp: resetMonitoredItems_inv(2))
  qed (rule last)
qed

lemma connect_sound:
  fixes s :: "'v backend"
  assumes inv: "backend_inv s" and v: "valid_response r"
    and q: "has_manager s \<or> quiet_reset a \<and> quiet (connect_callbacks c)"
  shows "sound (has_manager s) (connect a c del r answer s)"
  unfolding connect_def
proof (rule sound_seq)
  show "sound (has_manager s) (resetClient a s)"
    by (rule resetClient_sound [OF inv]) (use q in blast)
  fix t :: "'v backend" assume t: "backend_inv t" "has_manager t = has_manager s"
  show "sound (has_manager s) (seq (run_all client_callback (connect_callbacks c)
      (add_call (connect_call (conn t)) t)) (\<lambda>s.
     if connect_result c \<noteq> UA_STATUSCODE_GOOD
     then Throws (Runtime_error (''Failed to connect to opc server: '' @ serverAddress (conn s) @
            '' with reason: '' @ connect_result_name c)) s
     else if has_manager s then prepare client_callback del r answer s
     else Done s))"
  proof (rule sound_seq)
    show "sound (has_manager s) (run_all client_callback (connect_callbacks c)
        (add_call (connect_call (conn t)) t))"
      using callbacks_sound [of "add_call (connect_call (conn t)) t" "connect_callbacks c"] t q
      by (auto simp: add_call_def)
  qed (use v in \<open>auto intro: manager_sound\<close>)
qed

lemma wait_connected_sound:
  fixes s :: "'v backend"
  assumes "backend_inv s" and "has_manager s \<or> (\<forall>j < 5. quiet (during j))" and "i < 5"
  shows "sound (has_manager s) (wait_connected during i s)"
  using assms
proof (induction during i s rule: wait_connected.induct)
  case (1 during i s)
  show ?case
  proof (cases "isConnected (conn s)")
    case True
    with 1(2) show ?thesis by (subst wait_connected.simps) simp
  next
    case False
    have "sound (has_manager s) (run_all client_callback (during i) s)"
      by (rule callbacks_sound) (use 1 in auto)
    then have "sound (has_manager s) (seq (run_all client_callback (during i) s) (\<lambda>s.
           if Suc i > 4 then Throws (Runtime_error ''Connection could not be established.'') s
           else wait_connected during (Suc i) s))"
    proof (rule sound_seq)
      fix t :: "'v backend" assume t: "backend_inv t" "has_manager t = has_manager s"
      with 1(1) [OF False, of t] 1(3)
      show "sound (has_manager s) (if Suc i > 4
          then Throws (Runtime_error ''Connection could not be established.'') t
          else wait_connected during (Suc i) t)"
        by auto
    qed
    with False show ?thesis by (subst wait_connected.simps) simp
  qed
qed

lemma open_device_sound:
  fixes s :: "'v backend"
  assumes inv: "backend_inv s" and v: "valid_response (op_create a)"
    and q: "has_manager s \<or> quiet_open a"
  shows "sound (has_manager s) (open_device a s)"
  unfolding open_device_def
proof (rule sound_seq)
  have stop: "sound (has_manager s) (if has_manager s
      then stopClientThread client_callback (op_iterations a) (op_thread_deleted a) s else Done s)"
    using inv by (auto intro: manager_sound)
  have conn: "sound (has_manager s)
      (connect (op_reset a) (op_connect a) (op_deleted a) (op_create a) (op_monitor a) t)"
    if "backend_inv t" "has_manager t = has_manager s" for t :: "'v backend"
    using connect_sound [OF that(1) v, of "op_reset a" "op_connect a"] that(2) q
    by (auto simp: quiet_open_def)
  show "sound (has_manager s) (if \<not> isConnected (conn s)
      then seq (if has_manager s
                then stopClientThread client_callback (op_iterations a) (op_thread_deleted a) s
                else Done s)
             (connect (op_reset a) (op_connect a) (op_deleted a) (op_create a) (op_monitor a))
      else Done s)"
    using inv sound_seq [OF stop conn] by simp
next
  fix t :: "'v backend" assume t: "backend_inv t" "has_manager t = has_manager s"
  have "sound (has_manager t) (wait_connected (op_waiting a) 0 t)"
    by (rule wait_connected_sound [OF t(1)]) (use q t in \<open>auto simp: quiet_open_def\<close>)
  then show "sound (has_manager s) (seq (wait_connected (op_waiting a) 0 t)
      (\<lambda>s. Done (s\<lparr>opened := True\<rparr>)))"
    unfolding t(2) by (rule sound_seq) simp
qed

lemma attach_sound:
  fixes s :: "'v backend"
  assumes inv: "backend_inv s" and v: "valid_response (at_create a)"
  shows "sound True (attach a name node acc s)"
proof -
  let ?s = "if \<not> has_manager s then activateSubscriptionSupport s else s"
  have "backend_inv ?s" "has_manager ?s" using support_inv [OF inv] inv by simp_all
  then show ?thesis
    unfolding attach_def by (intro sound_seq manager_sound v) (auto intro: start_sound)
qed

lemma activateAsyncRead_sound:
  fixes s :: "'v backend"
  assumes inv: "backend_inv s" and v: "valid_response r"
  shows "sound (functional \<or> has_manager s) (activateAsyncRead functional del r answer s)"
proof -
  note sup = support_inv [OF inv]
  have "sound True (seq (activate client_callback del r answer (activateSubscriptionSupport s))
      (\<lambda>s. if \<not> opcuaThread s then start s else Done s))"
    by (intro sound_seq manager_sound v sup) (auto intro: start_sound)
  with inv show ?thesis unfolding activateAsyncRead_def by (intro sound_noexcept) auto
qed

lemma mark_external_inv: "backend_inv s \<Longrightarrow> backend_inv (mark_external name s)"
proof -
  assume inv: "backend_inv s"
  have "thread_kept s (setExternalError name s)"
    by (simp add: thread_kept_def setExternalError_def split: option.split)
  with inv show ?thesis by (auto simp: mark_external_def intro: skel_inv [OF skel_setExternalError])
qed

lemma mark_external_has_manager [simp]: "has_manager (mark_external name s) = has_manager s"
  by (simp add: mark_external_def skel_more_eq(2) [OF skel_setExternalError])

lemma handleError_sound:
  fixes s :: "'v backend"
  assumes inv: "backend_inv s" and q: "has_manager s \<or> quiet es"
  shows "sound (has_manager s) (handleError es name node retval status_name s)"
proof -
  let ?s = "add_call Client_disconnect (mark_external name s)"
  have m: "has_manager ?s = has_manager s" by (simp add: add_call_def)
  from callbacks_sound [of ?s es] q have "sound (has_manager s) (run_all client_callback es ?s)"
    unfolding m using mark_external_inv [OF inv] by simp
  then show ?thesis unfolding handleError_def close_connection_def by (rule sound_seq) simp
qed

lemma perform_sound:
  assumes inv: "backend_inv s" and en: "enabled e s"
  shows "\<exists>m. sound m (perform e s)"
proof (cases e)
  case (Receive c)
  have "has_manager s" using inv en by (auto simp: Receive backend_inv_def thread_ok_def)
  with inv show ?thesis by (auto simp: Receive intro: callback_sound)
next
  case (Thread_end its del)
  have "has_manager s" using inv en by (auto simp: Thread_end backend_inv_def thread_ok_def)
  with inv show ?thesis by (auto simp: Thread_end intro: manager_sound)
next
  case (Open a)
  with inv en show ?thesis by (auto intro: open_device_sound)
next
  case (Close a)
  have "sound (has_manager (s\<lparr>opened := False\<rparr>)) (resetClient a (s\<lparr>opened := False\<rparr>))"
    by (rule resetClient_sound) (use inv en Close in simp_all)
  then show ?thesis by (auto simp: Close close_device_def)
next
  case (Activate_async f d r an)
  with inv en show ?thesis by (auto intro: activateAsyncRead_sound)
next
  case (Set_exception d)
  have "backend_inv (handleException m s)" for m
    by (rule skel_inv [OF skel_handleException _ inv]) (simp add: thread_kept_def)
  then have "sound True (deactivateAllAndPushException False d m s)" if "has_manager s" for m
    unfolding deactivateAllAndPushException_def
    using that skel_more_eq(2) [OF skel_handleException [of m s]] by (auto intro: manager_sound)
  with inv have "sound (has_manager s) (setExceptionImpl d s)"
    unfolding setExceptionImpl_def by (intro sound_noexcept) auto
  then show ?thesis by (auto simp: Set_exception)
next
  case (Attach a name node acc)
  with inv en show ?thesis by (auto intro: attach_sound)
next
  case (Detach a name acc)
  with inv en show ?thesis by (auto simp: detach_def intro: unsubscribe_sound)
next
  case (Transfer_error es name node r n)
  with inv en show ?thesis by (auto intro: handleError_sound)
next
  case (Not_writable name)
  with inv show ?thesis by (auto intro: mark_external_inv)
qed

lemma step_inv:
  assumes inv: "backend_inv s" and st: "backend_step s e t"
  shows "backend_inv t"
proof -
  from st have "enabled e s" by (cases) simp_all
  from perform_sound [OF inv this] obtain m where "sound m (perform e s)" ..
  then have "post backend_inv (perform e s)" by (simp add: sound_def post_conj)
  with st show ?thesis by (cases) simp_all
qed

lemma reachable_inv: "reachable s \<Longrightarrow> backend_inv s"
proof (induction rule: reachable.induct)
  case (start s)
  then show ?case
    by (simp add: initial_def backend_inv_def thread_ok_def wf_manager_def wf_items_def wf_map_def)
next
  case (step s e t)
  then show ?case by (blast intro: step_inv)
qed

section \<open>Properties of reachable states\<close>

definition blank_connection :: connection where
  "blank_connection = \<lparr>serverAddress = ''opc.tcp://host:4840'', channelState = Channel_closed,
     sessionState = Session_closed, username = [], password = [], certificate = [], key = [],
     publishingInterval = 500, connectionTimeout = 5000,
     config = \<lparr>securityMode = Mode_default, security_setup = Set_default,
       userIdentityToken = None, timeout = 5000\<rparr>\<rparr>"

definition blank_backend :: "variant backend" where
  "blank_backend = \<lparr>conn = blank_connection,
     accessors = (\<lambda>a. \<lparr>indexRange = [], acc_data = init_value, notifications = []\<rparr>),
     ua_calls = [], run = False, subscriptionActive = False, subscriptionNeedsToBeRemoved = False,
     asyncReadActive = False, subscriptionID = 0, items = [], subscriptionMap = [],
     opcuaThread = False, thread_live = False, next_addr = 0, opened = False,
     has_manager = False, registered = True\<rparr>"

lemma initial_blank: "initial blank_backend"
  by (simp add: initial_def blank_backend_def)

subsection \<open>No operation waits for ever\<close>

text \<open>An operation that returns, and ends with the loop flag set only while the thread runs.\<close>

definition alive :: "'v backend result \<Rightarrow> bool" where
  "alive r \<longleftrightarrow> post thread_ok r \<and> no_deadlock r"

lemma alive_simps [simp]:
  "alive (Done s) = thread_ok s" "alive (Throws e s) = thread_ok s" "alive Undefined" "alive Terminated"
  by (simp_all add: alive_def)

lemma alive_seq: "alive r \<Longrightarrow> (\<And>t. thread_ok t \<Longrightarrow> alive (f t)) \<Longrightarrow> alive (seq r f)"
  by (cases r) (auto simp: alive_def)

lemma alive_run_all: "(\<And>x t. thread_ok t \<Longrightarrow> alive (f x t)) \<Longrightarrow> thread_ok s \<Longrightarrow> alive (run_all f xs s)"
  by (induction xs arbitrary: s) (simp_all add: alive_seq)

lemma alive_noexcept: "alive r \<Longrightarrow> alive (noexcept r)"
  by (cases r) auto

lemma thread_ok_update [simp]:
  fixes s :: "'v backend"
  shows "thread_ok (s\<lparr>conn := c\<rparr>) = thread_ok s" "thread_ok (s\<lparr>subscriptionActive := b\<rparr>) = thread_ok s"
    "thread_ok (s\<lparr>subscriptionID := i\<rparr>) = thread_ok s" "thread_ok (s\<lparr>asyncReadActive := b\<rparr>) = thread_ok s"
    "thread_ok (s\<lparr>items := d\<rparr>) = thread_ok s" "thread_ok (s\<lparr>subscriptionMap := m\<rparr>) = thread_ok s"
    "thread_ok (s\<lparr>next_addr := n\<rparr>) = thread_ok s" "thread_ok (s\<lparr>opened := b\<rparr>) = thread_ok s"
    "thread_ok (add_call k s) = thread_ok s" "thread_ok (modify_item p f s) = thread_ok s"
    "thread_ok (handleException t s) = thread_ok s" "thread_ok (removeSubscription b s) = thread_ok s"
    "thread_ok (activate_items s) = thread_ok s" "thread_ok (push_all v as s) = thread_ok s"
    "thread_ok (resetMonitoredItems s) = thread_ok s" "thread_ok (mark_external name s) = thread_ok s"
  by (simp_all add: thread_ok_def add_call_def modify_item_def activate_items_def push_all_eq
      resetMonitoredItems_def mark_external_def setExternalError_def split: option.split)

lemma callbacks_alive: "thread_ok s \<Longrightarrow> alive (run_all client_callback es s)"
  unfolding alive_def by (intro conjI client.thr.run_all_inv client.thr.run_all_no_deadlock client.cb_live)

lemma createSubscription_alive: "thread_ok s \<Longrightarrow> alive (createSubscription client_callback del r s)"
  unfolding createSubscription_def Let_def
  by (rule alive_seq [OF callbacks_alive]) (auto split: option.split)

lemma addMonitoredItem_alive: "thread_ok s \<Longrightarrow> alive (addMonitoredItem client_callback answer p s)"
  unfolding addMonitoredItem_def Let_def
  by (auto intro!: alive_seq [OF callbacks_alive] split: option.split list.split)

lemma addMonitoredItems_alive: "thread_ok s \<Longrightarrow> alive (addMonitoredItems client_callback answer s)"
  unfolding addMonitoredItems_def by (rule alive_run_all [OF addMonitoredItem_alive])

lemma prepare_alive: "thread_ok s \<Longrightarrow> alive (prepare client_callback del r answer s)"
  unfolding prepare_def by (rule alive_seq [OF createSubscription_alive addMonitoredItems_alive])

lemma activate_alive: "thread_ok s \<Longrightarrow> alive (activate client_callback del r answer s)"
  unfolding activate_def Let_def
  by (rule alive_seq) (auto intro: createSubscription_alive addMonitoredItems_alive)

lemma start_alive: "thread_ok s \<Longrightarrow> alive (start s)"
  by (auto simp: start_def thread_ok_def)

lemma subscribe_alive: "thread_ok s \<Longrightarrow> alive (subscribe client_callback del r answer front name node a s)"
  unfolding subscribe_def Let_def
  by (auto intro!: alive_seq createSubscription_alive addMonitoredItems_alive split: option.split sum.split prod.split)

lemma deactivate_alive: "thread_ok s \<Longrightarrow> alive (deactivate False del s)"
  unfolding alive_def by (intro conjI post_kept [OF deactivate_thread] deactivate_unlocked_live)

lemma deactivate_stops: "post (\<lambda>t. \<not> run t) (deactivate locked del s)"
  by (simp add: deactivate_def deactivate_items_def Let_def)

text \<open>The loop of the client thread ends when it is told to, and at the latest when the client library reports an
  error.\<close>

abbreviation reports_error :: "'e iterate_answer list \<Rightarrow> bool" where
  "reports_error its \<equiv> \<exists>it \<in> set its. iterate_status it \<noteq> UA_STATUSCODE_GOOD"

lemma client_loop_alive:
  "thread_ok s \<Longrightarrow> \<not> run s \<or> reports_error its \<Longrightarrow> alive (client_loop client_callback its s)"
proof (induction its arbitrary: s)
  case (Cons it its)
  then have "alive (client_loop client_callback its t)" if "thread_ok t" "iterate_status it = UA_STATUSCODE_GOOD"
      "run s" for t
    using that by (intro Cons.IH) auto
  with Cons.prems(1) show ?case by (auto intro!: alive_seq [OF callbacks_alive])
qed simp

lemma runClient_alive:
  assumes "thread_ok s" and "\<not> run s \<or> reports_error its"
  shows "alive (runClient client_callback its del s)"
  unfolding runClient_def by (rule alive_seq [OF client_loop_alive [OF assms]]) (auto simp: thread_ok_def)

lemma stopClientThread_alive:
  assumes "thread_ok s" and "\<not> run s \<or> reports_error its"
  shows "alive (stopClientThread client_callback its del s)"
  unfolding alive_def
proof
  show "post thread_ok (stopClientThread client_callback its del s)"
    by (rule stopClientThread_thread_ok [OF assms(1)])
  show "no_deadlock (stopClientThread client_callback its del s)"
    using runClient_alive [OF assms] by (auto simp: stopClientThread_def alive_def intro!: no_deadlock_seq)
qed

lemma resetClient_alive:
  fixes s :: "'v backend"
  assumes ok: "thread_ok s"
  shows "alive (resetClient a s)"
proof -
  have "alive (seq (deactivate False (rs_deleted a) s) (\<lambda>s. stopClientThread client_callback
      (rs_iterations a) (rs_thread_deleted a) (resetMonitoredItems s)))"
  proof (cases "deactivate False (rs_deleted a) s")
    case (Done t)
    with deactivate_alive [OF ok, of "rs_deleted a"] deactivate_stops [of False "rs_deleted a" s]
    show ?thesis by (auto intro!: stopClientThread_alive simp: resetMonitoredItems_def [of t])
  qed (use deactivate_alive [OF ok, of "rs_deleted a"] in \<open>simp_all add: alive_def\<close>)
  with ok show ?thesis
    unfolding resetClient_def close_connection_def by (intro alive_seq) (auto intro: callbacks_alive)
qed

lemma connect_alive: "thread_ok s \<Longrightarrow> alive (connect a c del r answer s)"
  unfolding connect_def
  by (intro alive_seq resetClient_alive callbacks_alive) (auto intro: prepare_alive)

lemma wait_connected_alive: "thread_ok s \<Longrightarrow> alive (wait_connected during i s)"
proof (induction during i s rule: wait_connected.induct)
  case (1 during i s)
  then show ?case
    by (subst wait_connected.simps) (auto intro!: alive_seq [OF callbacks_alive])
qed

lemma open_device_alive:
  assumes "thread_ok s" and "reports_error (op_iterations a)"
  shows "alive (open_device a s)"
  unfolding open_device_def
  using assms by (auto intro!: alive_seq stopClientThread_alive connect_alive wait_connected_alive)

lemma unsubscribe_alive:
  assumes "thread_ok s"
  shows "alive (unsubscribe client_callback cbs del its del' name a s)"
  unfolding alive_def
proof
  show "post thread_ok (unsubscribe client_callback cbs del its del' name a s)"
    by (rule unsubscribe_thread_ok [OF assms])
  have last: "alive (if items t = []
      then stopClientThread client_callback its del' ((removeSubscription del t)\<lparr>run := False\<rparr>)
      else Done t)" if "thread_ok t" for t :: "'a backend"
    using that by (auto simp: thread_ok_def intro!: stopClientThread_alive)
  have "alive (unsubscribe client_callback cbs del its del' name a s)"
    unfolding unsubscribe_def Let_def
    using assms by (auto split: option.split prod.split intro!: alive_seq [OF callbacks_alive last])
  then show "no_deadlock (unsubscribe client_callback cbs del its del' name a s)" by (simp add: alive_def)
qed

lemma support_thread_ok: "thread_ok s \<Longrightarrow> thread_ok (activateSubscriptionSupport s)"
  by (auto simp: activateSubscriptionSupport_def new_manager_def thread_ok_def)

text \<open>An event in which a client thread that nobody stops is joined, or ends, has to see the error that ends it.\<close>

fun thread_can_end :: "event \<Rightarrow> bool" where
  "thread_can_end (Thread_end its deleted) \<longleftrightarrow> reports_error its"
| "thread_can_end (Open a) \<longleftrightarrow> reports_error (op_iterations a)"
| "thread_can_end _ \<longleftrightarrow> True"

lemma perform_alive:
  assumes ok: "thread_ok s" and "thread_can_end e"
  shows "alive (perform e s)"
proof (cases e)
  case (Receive c)
  with callbacks_alive [OF ok, of "[c]"] show ?thesis by simp
next
  case (Set_exception d)
  with ok show ?thesis
    by (auto simp: setExceptionImpl_def deactivateAllAndPushException_def intro!: alive_noexcept deactivate_alive)
next
  case (Activate_async f d r an)
  with ok show ?thesis
    by (auto simp: activateAsyncRead_def intro!: support_thread_ok alive_noexcept alive_seq activate_alive start_alive)
next
  case (Attach a name node acc)
  with ok show ?thesis
    by (auto simp: attach_def intro!: support_thread_ok alive_seq subscribe_alive start_alive)
qed (use assms in \<open>auto simp: detach_def handleError_def close_connection_def close_device_def
    intro!: alive_seq runClient_alive open_device_alive resetClient_alive unsubscribe_alive callbacks_alive\<close>)





end
