(* ===== verification/Subscription_Spec.thy ===== *)
theory Subscription_Spec
  imports Device_Steps
begin

text \<open>
  What the subscription manager promises to its clients. The abstract state is the registry, a map
  from the name of a node to the accessors that listen to it; subscribing and unsubscribing are
  one update of that map, whatever the client library answers and whichever callbacks run
  meanwhile. The other theorems say what values, exceptions and requests an operation produces.
\<close>

section \<open>The registry\<close>

definition reg_view :: "('v, 'z) manager_scheme \<Rightarrow> (addr \<times> string \<times> acc_id list \<times> node_id) list" where
  "reg_view s = map (\<lambda>(p, item). (p, browseName item, item_accessors item, item_node item)) (items s)"

definition registry :: "('v, 'z) manager_scheme \<Rightarrow> string \<rightharpoonup> acc_id list" where
  "registry s = map_of (map (\<lambda>(p, item). (browseName item, item_accessors item)) (items s))"

lemma registry_view:
  "registry s = map_of (map (\<lambda>(p, name, as, node). (name, as)) (reg_view s))"
  by (simp add: registry_def reg_view_def comp_def case_prod_unfold)

lemma registry_cong: "reg_view t = reg_view s \<Longrightarrow> registry t = registry s"
  by (simp add: registry_view)

lemma reg_view_skel:
  fixes s t :: "('v, 'z) manager_scheme"
  assumes "skel t = skel s"
  shows "reg_view t = reg_view s"
proof -
  have eq: "reg_view u = map (\<lambda>(p, item). (p, browseName item, item_accessors item, item_node item))
      (map (\<lambda>(p, item). (p, item_skel item)) (items u))" for u :: "('v, 'z) manager_scheme"
    by (simp add: reg_view_def comp_def case_prod_unfold)
  from assms have d: "map (\<lambda>(p, item). (p, item_skel item)) (items t) =
      map (\<lambda>(p, item). (p, item_skel item)) (items s)"
    by (simp add: skel_def)
  show ?thesis unfolding eq d ..
qed

lemma reg_view_update [simp]:
  "reg_view (s\<lparr>ua_calls := x\<rparr>) = reg_view s"
  "reg_view (s\<lparr>run := b\<rparr>) = reg_view s"
  "reg_view (s\<lparr>subscriptionActive := b\<rparr>) = reg_view s"
  "reg_view (s\<lparr>subscriptionNeedsToBeRemoved := b\<rparr>) = reg_view s"
  "reg_view (s\<lparr>asyncReadActive := b\<rparr>) = reg_view s"
  "reg_view (s\<lparr>subscriptionID := i\<rparr>) = reg_view s"
  "reg_view (s\<lparr>subscriptionMap := m\<rparr>) = reg_view s"
  "reg_view (s\<lparr>opcuaThread := b\<rparr>) = reg_view s"
  "reg_view (s\<lparr>thread_live := b\<rparr>) = reg_view s"
  "reg_view (s\<lparr>conn := c\<rparr>) = reg_view s"
  by (simp_all add: reg_view_def)

lemma reg_view_add_call [simp]: "reg_view (add_call c s) = reg_view s"
  by (simp add: add_call_def)

lemma reg_view_modify:
  assumes "\<And>item. browseName (f item) = browseName item \<and>
    item_accessors (f item) = item_accessors item \<and> item_node (f item) = item_node item"
  shows "reg_view (modify_item p f s) = reg_view s"
  using assms by (auto simp: reg_view_def modify_item_def deque_modify_def)

lemma reg_view_flags [simp]:
  "reg_view (modify_item p (\<lambda>x. x\<lparr>item_active := b\<rparr>) s) = reg_view s"
  "reg_view (modify_item p (\<lambda>x. x\<lparr>item_id := i, isMonitored := b\<rparr>) s) = reg_view s"
  "reg_view (removeSubscription del s) = reg_view s"
  "reg_view (handleException m s) = reg_view s"
  "reg_view (activate_items s) = reg_view s"
proof -
  show "reg_view (modify_item p (\<lambda>x. x\<lparr>item_active := b\<rparr>) s) = reg_view s"
    "reg_view (modify_item p (\<lambda>x. x\<lparr>item_id := i, isMonitored := b\<rparr>) s) = reg_view s"
    by (rule reg_view_modify; simp)+
  show "reg_view (removeSubscription del s) = reg_view s"
    by (simp add: reg_view_def removeSubscription_def resetMonitoredItems_def setInactive_def Let_def
        case_prod_unfold comp_def)
  show "reg_view (handleException m s) = reg_view s" by (rule reg_view_skel) simp
  show "reg_view (activate_items s) = reg_view s"
    by (simp add: reg_view_def activate_items_def case_prod_unfold comp_def)
qed

context client_callbacks
begin

lemma cbs_reg: "reg_view s = R \<Longrightarrow> post (\<lambda>t. reg_view t = R) (run_all cb es s)"
  by (rule post_mono [OF cbs_skel]) (auto dest: reg_view_skel)

lemma createSubscription_reg:
  assumes "reg_view s = R"
  shows "post (\<lambda>t. reg_view t = R) (createSubscription cb deleted r s)"
proof -
  let ?s1 = "if subscriptionID s \<noteq> 0 then removeSubscription deleted s else s"
  let ?s2 = "add_call (Create_subscription (publishingInterval (conn ?s1))) ?s1"
  have "reg_view ?s2 = R" using assms by simp
  from cbs_reg [OF this] show ?thesis
    unfolding createSubscription_def Let_def
    by (rule post_seqI) (simp_all split: option.split)
qed

lemma addMonitoredItem_reg:
  assumes "reg_view s = R"
  shows "post (\<lambda>t. reg_view t = R) (addMonitoredItem cb answer p s)"
proof (cases "map_of (items s) p")
  case (Some item)
  have base: "post (\<lambda>t. reg_view t = R) (run_all cb es (add_call c u))" if "reg_view u = R"
    for es c and u :: "('v, 'z) manager_scheme"
    by (rule cbs_reg) (use that in simp)
  show ?thesis
    unfolding addMonitoredItem_def Some option.case Let_def
    using assms
    by (simp split: list.split) (intro conjI impI allI post_seqI [OF base]; simp)
qed (simp add: addMonitoredItem_def)

lemma addMonitoredItems_reg:
  "reg_view s = R \<Longrightarrow> post (\<lambda>t. reg_view t = R) (addMonitoredItems cb answer s)"
  unfolding addMonitoredItems_def
  by (rule run_all_post [OF addMonitoredItem_reg])

lemma client_loop_reg:
  "reg_view s = R \<Longrightarrow> post (\<lambda>t. reg_view t = R) (client_loop cb its s)"
proof (induction its arbitrary: s)
  case (Cons it its)
  have "post (\<lambda>t. reg_view t = R) (seq (run_all cb (iterate_callbacks it) s) (\<lambda>s.
             if subscriptionNeedsToBeRemoved s \<or> iterate_status it \<noteq> UA_STATUSCODE_GOOD
             then Done s else client_loop cb its s))"
    by (rule post_seqI [OF cbs_reg [OF Cons.prems]]) (simp_all add: Cons.IH)
  then show ?case by (simp add: Cons.prems)
qed simp

lemma runClient_reg:
  "reg_view s = R \<Longrightarrow> post (\<lambda>t. reg_view t = R) (runClient cb its deleted s)"
  unfolding runClient_def by (rule post_seqI [OF client_loop_reg]) simp_all

lemma stopClientThread_reg:
  "reg_view s = R \<Longrightarrow> post (\<lambda>t. reg_view t = R) (stopClientThread cb its deleted s)"
  unfolding stopClientThread_def by (auto intro!: post_seq runClient_reg)

lemma prepare_reg:
  "reg_view s = R \<Longrightarrow> post (\<lambda>t. reg_view t = R) (prepare cb deleted r answer s)"
  unfolding prepare_def
  by (rule post_seq [OF createSubscription_reg addMonitoredItems_reg])

end

lemma registry_name:
  assumes "wf_items (items s) n" and "k < length (items s)" and "items s ! k = (p, item)"
  shows "registry s (browseName item) = Some (item_accessors item)"
proof -
  from assms(1) have "distinct (map fst (map (\<lambda>(p, item). (browseName item, item_accessors item)) (items s)))"
    by (simp add: wf_items_def comp_def case_prod_unfold)
  moreover from assms(2,3) have "(p, item) \<in> set (items s)" by (metis nth_mem)
  then have "(browseName item, item_accessors item) \<in>
      set (map (\<lambda>(p, item). (browseName item, item_accessors item)) (items s))"
    by force
  ultimately show ?thesis unfolding registry_def by simp
qed

lemma registry_none:
  "find_index (\<lambda>(p, item). browseName item = name) (items s) = None \<longleftrightarrow> registry s name = None"
  by (auto simp: find_index_None registry_def map_of_eq_None_iff image_iff)

text \<open>The abstract operations.\<close>

definition spec_subscribe :: "string \<Rightarrow> acc_id \<Rightarrow> (string \<rightharpoonup> acc_id list) \<Rightarrow> string \<rightharpoonup> acc_id list" where
  "spec_subscribe name a R =
     R(name \<mapsto> (case R name of None \<Rightarrow> [a] | Some as \<Rightarrow> as @ [a]))"

definition spec_unsubscribe :: "string \<Rightarrow> acc_id \<Rightarrow> (string \<rightharpoonup> acc_id list) \<Rightarrow> string \<rightharpoonup> acc_id list" where
  "spec_unsubscribe name a R =
     R(name := (case R name of None \<Rightarrow> None
                | Some as \<Rightarrow> if 1 < length as then Some (remove1 a as) else None))"

lemma map_of_update_key:
  assumes "map_of m k = Some v"
  shows "map_of (map (\<lambda>(k', v'). (k', if k' = k then f v' else v')) m) = (map_of m)(k \<mapsto> f v)"
proof -
  have "map_of (map (\<lambda>(k', v'). (k', if k' = k then f v' else v')) m) x =
      (if x = k then map_option f (map_of m k) else map_of m x)" for x
    by (induction m) auto
  with assms show ?thesis by (simp add: fun_eq_iff)
qed

lemma registry_modify:
  assumes wf: "wf_items (items s) n" and k: "k < length (items s)" "items s ! k = (p, item)"
  shows "registry (modify_item p (\<lambda>x. x\<lparr>item_accessors := f (item_accessors x)\<rparr>) s) =
    (registry s)(browseName item \<mapsto> f (item_accessors item))"
proof -
  let ?m = "map (\<lambda>(p, item). (browseName item, item_accessors item)) (items s)"
  from wf have d: "distinct (map fst (items s))" by (simp add: wf_items_def)
  from k have mem: "(p, item) \<in> set (items s)" by (metis nth_mem)
  have same: "q = p \<longleftrightarrow> browseName x = browseName item" if "(q, x) \<in> set (items s)" for q x
  proof -
    from wf have "inj_on (browseName \<circ> snd) (set (items s))" by (simp add: wf_items_def distinct_map)
    from inj_onD [OF this, of "(q, x)" "(p, item)"]
    have "browseName x = browseName item \<Longrightarrow> (q, x) = (p, item)"
      using that mem by simp
    moreover have "q = p \<Longrightarrow> x = item" using d that mem by (blast dest: eq_key_imp_eq_value)
    ultimately show ?thesis by auto
  qed
  have "map (\<lambda>(p, item). (browseName item, item_accessors item))
        (deque_modify p (\<lambda>x. x\<lparr>item_accessors := f (item_accessors x)\<rparr>) (items s)) =
      map (\<lambda>(k', v'). (k', if k' = browseName item then f v' else v')) ?m"
    by (auto simp: deque_modify_def same)
  then have "registry (modify_item p (\<lambda>x. x\<lparr>item_accessors := f (item_accessors x)\<rparr>) s) =
      map_of (map (\<lambda>(k', v'). (k', if k' = browseName item then f v' else v')) ?m)"
    by (simp add: registry_def modify_item_def)
  also have "\<dots> = (map_of ?m)(browseName item \<mapsto> f (item_accessors item))"
    by (rule map_of_update_key) (use registry_name [OF wf k] in \<open>simp add: registry_def\<close>)
  finally show ?thesis by (simp add: registry_def)
qed

lemma map_of_remove_nth:
  assumes "distinct (map fst m)" and "k < length m"
  shows "map_of (take k m @ drop (Suc k) m) = (map_of m)(fst (m ! k) := None)"
proof -
  have m: "m = take k m @ m ! k # drop (Suc k) m" using assms(2) by (rule id_take_nth_drop)
  obtain x v where xv: "m ! k = (x, v)" by fastforce
  have "x \<notin> fst ` set (take k m)" and "x \<notin> fst ` set (drop (Suc k) m)"
    using assms(1) by (subst (asm) m; simp add: xv)+
  then have "map_of (take k m) x = None" "map_of (drop (Suc k) m) x = None"
    by (simp_all add: map_of_eq_None_iff)
  then show ?thesis by (subst (3) m) (auto simp: xv fun_eq_iff map_add_def split: option.split)
qed

lemma registry_erase:
  assumes wf: "wf_items (items s) n" and k: "k < length (items s)" "items s ! k = (p, item)"
  shows "map_of (map (\<lambda>(p, item). (browseName item, item_accessors item))
      (deque_erase m k (items s))) = (registry s)(browseName item := None)"
proof -
  let ?f = "\<lambda>item. (browseName item, item_accessors item)"
  let ?m = "map ?f (map snd (items s))"
  have snd: "map (\<lambda>(p, item). ?f item) d = map ?f (map snd d)" for d :: "monitor_item deque"
    by (simp add: case_prod_unfold comp_def)
  have "distinct (map fst ?m)" using wf by (simp add: wf_items_def comp_def)
  from map_of_remove_nth [OF this, of k] k
  have "map_of (take k ?m @ drop (Suc k) ?m) = (map_of ?m)(browseName item := None)" by simp
  then show ?thesis
    unfolding snd registry_def
    by (simp only: map_snd_deque_erase [OF k(1)] map_append take_map drop_map)
qed

lemma registry_push_all [simp]: "registry (push_all n as s) = registry s"
  by (rule registry_cong, rule reg_view_skel) simp

context client_callbacks
begin

lemma subscribe_refines:
  assumes good: "good_in ctx s"
  shows "post (\<lambda>t. registry t = spec_subscribe name a (registry s))
    (subscribe cb deleted r answer front name node a s)"
proof (cases "find_index (\<lambda>(p, item). browseName item = name) (items s)")
  case None
  then have none: "registry s name = None" by (simp add: registry_none)
  let ?s1 = "s\<lparr>items := items s @ [(next_addr s, MonitorItem name node a)],
               next_addr := Suc (next_addr s)\<rparr>"
  have eq: "registry ?s1 = spec_subscribe name a (registry s)"
    using none
    by (auto simp: registry_def spec_subscribe_def MonitorItem_def map_add_def fun_eq_iff
        split: option.split)
  have reg: "post (\<lambda>t. reg_view t = reg_view ?s1)
      (if asyncReadActive s
       then seq (if \<not> subscriptionActive s then createSubscription cb deleted r ?s1 else Done ?s1)
              (addMonitoredItems cb answer)
       else Done ?s1)"
  proof -
    have "post (\<lambda>t. reg_view t = reg_view ?s1)
        (if \<not> subscriptionActive s then createSubscription cb deleted r ?s1 else Done ?s1)"
      by (simp add: createSubscription_reg)
    from post_seq [OF this addMonitoredItems_reg] show ?thesis by simp
  qed
  have split: "subscribe cb deleted r answer front name node a s =
      (if asyncReadActive s
       then seq (if \<not> subscriptionActive s then createSubscription cb deleted r ?s1 else Done ?s1)
              (addMonitoredItems cb answer)
       else Done ?s1)"
    by (simp add: subscribe_def None Let_def)
  show ?thesis
    unfolding split eq [symmetric] by (rule post_mono [OF reg]) (rule registry_cong)
next
  case (Some k)
  then have k: "k < length (items s)" and name: "browseName (snd (items s ! k)) = name"
    by (auto simp: find_index_Some)
  obtain p item where pi: "items s ! k = (p, item)" by fastforce
  have wi: "wf_items (items s) (next_addr s)" using good by (simp add: good_in_def wf_manager_def)
  let ?s1 = "modify_item p (\<lambda>x. x\<lparr>item_accessors := item_accessors x @ [a]\<rparr>) s"
  have eq: "registry ?s1 = spec_subscribe name a (registry s)"
    using registry_modify [OF wi k pi, of "\<lambda>as. as @ [a]"] registry_name [OF wi k pi] name
    by (simp add: spec_subscribe_def pi)
  then show ?thesis
    by (simp add: subscribe_def Some pi Let_def split: option.split sum.split)
qed

lemma unsubscribe_refines:
  assumes good: "good_in ctx s"
  shows "post (\<lambda>t. registry t = spec_unsubscribe name a (registry s))
    (unsubscribe cb cbs deleted its del name a s)"
proof (cases "find_index (\<lambda>(p, item). browseName item = name) (items s)")
  case None
  then have "registry s name = None" by (simp add: registry_none)
  then show ?thesis by (auto simp: unsubscribe_def None spec_unsubscribe_def)
next
  case (Some k)
  then have k: "k < length (items s)" and name: "browseName (snd (items s ! k)) = name"
    by (auto simp: find_index_Some)
  obtain p item where pi: "items s ! k = (p, item)" by fastforce
  have wi: "wf_items (items s) (next_addr s)" using good by (simp add: good_in_def wf_manager_def)
  note reg = registry_name [OF wi k pi]
  from name pi have nm: "browseName item = name" by simp
  show ?thesis
  proof (cases "1 < length (item_accessors item)")
    case True
    have "registry (modify_item p (\<lambda>x. x\<lparr>item_accessors := remove1 a (item_accessors x)\<rparr>) s) =
        spec_unsubscribe name a (registry s)"
      using registry_modify [OF wi k pi, of "remove1 a"] reg nm True
      by (simp add: spec_unsubscribe_def)
    with True show ?thesis by (simp add: unsubscribe_def Some pi)
  next
    case False
    let ?s1 = "s\<lparr>subscriptionMap := AList.delete (item_id item) (subscriptionMap s),
                 items := deque_erase (next_addr s) k (items s),
                 next_addr := next_addr s + length (items s)\<rparr>"
    let ?s2 = "add_call (Delete_monitored_item (subscriptionID s) (item_id item)) ?s1"
    have eq: "registry ?s1 = spec_unsubscribe name a (registry s)"
      using registry_erase [OF wi k pi] reg nm False
      by (simp add: spec_unsubscribe_def registry_def)
    have fin: "post (\<lambda>t. reg_view t = reg_view ?s1) (if items t = []
          then stopClientThread cb its del ((removeSubscription deleted t)\<lparr>run := False\<rparr>)
          else Done t)" if "reg_view t = reg_view ?s1" for t :: "('v, 'z) manager_scheme"
      using that by (simp add: stopClientThread_reg)
    have "post (\<lambda>t. reg_view t = reg_view ?s1) (seq (run_all cb cbs ?s2) (\<lambda>s2. if items s2 = []
          then stopClientThread cb its del ((removeSubscription deleted s2)\<lparr>run := False\<rparr>)
          else Done s2))"
      by (rule post_seq [OF cbs_reg fin]) simp_all
    moreover have "unsubscribe cb cbs deleted its del name a s =
        (if item_id item \<noteq> 0 \<and> isConnected (conn s)
         then seq (run_all cb cbs ?s2) (\<lambda>s2. if items s2 = []
              then stopClientThread cb its del ((removeSubscription deleted s2)\<lparr>run := False\<rparr>)
              else Done s2)
         else Done ?s1)"
      using False by (simp add: unsubscribe_def Some pi Let_def)
    ultimately have "post (\<lambda>t. reg_view t = reg_view ?s1) (unsubscribe cb cbs deleted its del name a s)"
      by simp
    then show ?thesis unfolding eq [symmetric] by (rule post_mono) (rule registry_cong)
  qed
qed

end

section \<open>The device implements the registry\<close>

fun spec_step :: "event \<Rightarrow> (string \<rightharpoonup> acc_id list) \<Rightarrow> string \<rightharpoonup> acc_id list" where
  "spec_step (Attach answer name node a) R = spec_subscribe name a R"
| "spec_step (Detach answer name a) R = spec_unsubscribe name a R"
| "spec_step _ R = R"

lemma deactivate_reg:
  "reg_view s = R \<Longrightarrow> post (\<lambda>t. reg_view t = R) (deactivate locked del s)"
proof -
  assume s: "reg_view s = R"
  have "post (\<lambda>t. reg_view t = R) (deactivate_items s)"
    by (rule post_mono [OF deactivate_items_skel]) (auto dest: reg_view_skel simp: s)
  then show ?thesis unfolding deactivate_def Let_def by (rule post_seqI) auto
qed

lemma resetMonitoredItems_reg: "reg_view (resetMonitoredItems s) = reg_view s"
  by (simp add: reg_view_def resetMonitoredItems_def case_prod_unfold comp_def)

lemma resetClient_reg: "reg_view s = R \<Longrightarrow> post (\<lambda>t. reg_view t = R) (resetClient a s)"
  unfolding resetClient_def close_connection_def
  by (auto intro!: post_seq [OF post_seq [OF deactivate_reg client.stopClientThread_reg] client.cbs_reg]
      client.cbs_reg simp: resetMonitoredItems_reg)

lemma connect_reg:
  "reg_view s = R \<Longrightarrow> post (\<lambda>t. reg_view t = R) (connect a c del r answer s)"
  unfolding connect_def
  by (rule post_seq [OF resetClient_reg], assumption)
    (rule post_seq [OF client.cbs_reg], auto intro: client.prepare_reg)

lemma wait_connected_reg:
  "reg_view s = R \<Longrightarrow> post (\<lambda>t. reg_view t = R) (wait_connected during i s)"
proof (induction during i s rule: wait_connected.induct)
  case (1 during i s)
  show ?case
  proof (cases "isConnected (conn s)")
    case False
    have "post (\<lambda>t. reg_view t = R) (seq (run_all client_callback (during i) s) (\<lambda>s.
           if Suc i > 4 then Throws (Runtime_error ''Connection could not be established.'') s
           else wait_connected during (Suc i) s))"
    proof (rule post_seq [OF client.cbs_reg [OF 1(2)]])
      fix t :: "'a backend" assume "reg_view t = R"
      with 1(1) [OF False, of t] show "post (\<lambda>t. reg_view t = R) (if Suc i > 4
          then Throws (Runtime_error ''Connection could not be established.'') t
          else wait_connected during (Suc i) t)"
        by auto
    qed
    with False show ?thesis by (subst wait_connected.simps) simp
  qed (subst wait_connected.simps, simp add: 1)
qed

lemma opened_reg [simp]: "reg_view (s\<lparr>opened := b\<rparr>) = reg_view s"
  by (simp add: reg_view_def)

lemma open_device_reg: "reg_view s = R \<Longrightarrow> post (\<lambda>t. reg_view t = R) (open_device a s)"
  unfolding open_device_def
proof (rule post_seq)
  assume "reg_view s = R"
  then show "post (\<lambda>t. reg_view t = R) (if \<not> isConnected (conn s)
      then seq (if has_manager s
                then stopClientThread client_callback (op_iterations a) (op_thread_deleted a) s
                else Done s)
             (connect (op_reset a) (op_connect a) (op_deleted a) (op_create a) (op_monitor a))
      else Done s)"
    by (auto intro!: post_seq [OF client.stopClientThread_reg connect_reg] connect_reg)
next
  fix t :: "'a backend" assume "reg_view t = R"
  then show "post (\<lambda>t. reg_view t = R)
      (seq (wait_connected (op_waiting a) 0 t) (\<lambda>s. Done (s\<lparr>opened := True\<rparr>)))"
    by (rule post_seq [OF wait_connected_reg]) simp
qed

lemma start_reg: "post (\<lambda>t. reg_view t = reg_view s) (start s)"
  by (simp add: start_def)

lemma support_reg:
  "backend_inv s \<Longrightarrow> reg_view (activateSubscriptionSupport s) = reg_view s"
  by (simp add: activateSubscriptionSupport_def new_manager_def backend_inv_def reg_view_def)

lemma post_noexcept: "post P r \<Longrightarrow> post P (noexcept r)"
  by (cases r) auto

lemma activateAsyncRead_reg:
  assumes "backend_inv s"
  shows "post (\<lambda>t. reg_view t = reg_view s) (activateAsyncRead f del r answer s)"
proof -
  have act: "post (\<lambda>t. reg_view t = R) (activate client_callback del r answer u)"
    if "reg_view u = R" for R and u :: "'a backend"
    unfolding activate_def Let_def
    by (rule post_seq [of "\<lambda>t. reg_view t = R"])
      (use that in \<open>auto intro!: client.createSubscription_reg client.addMonitoredItems_reg\<close>)
  have "post (\<lambda>t. reg_view t = reg_view s) (start t)" if "reg_view t = reg_view s" for t :: "'a backend"
    using start_reg [of t] that by simp
  then show ?thesis
    unfolding activateAsyncRead_def
    by (intro post_noexcept) (auto intro!: post_seq [OF act] simp: support_reg [OF assms])
qed

lemma setExternalError_reg [simp]: "reg_view (mark_external name s) = reg_view s"
  by (simp add: mark_external_def) (rule impI, rule reg_view_skel, simp)

lemma perform_registry:
  assumes inv: "backend_inv s"
  shows "post (\<lambda>t. registry t = spec_step e (registry s)) (perform e s)"
proof -
  have keep: "post (\<lambda>t. registry t = registry s) r"
    if "post (\<lambda>t. reg_view t = reg_view s) r" for r :: "variant backend result"
    using that by (rule post_mono) (rule registry_cong)
  show ?thesis
  proof (cases e)
    case (Receive c)
    have "post (\<lambda>t. reg_view t = reg_view s) (client_callback c s)"
      by (rule post_mono [OF client.cb_skel]) (rule reg_view_skel)
    then show ?thesis by (simp add: Receive keep)
  next
    case (Thread_end its del)
    then show ?thesis by (simp add: keep client.runClient_reg)
  next
    case (Open a)
    then show ?thesis by (simp add: keep open_device_reg)
  next
    case (Close a)
    then show ?thesis by (simp add: keep resetClient_reg close_device_def)
  next
    case (Activate_async f d r an)
    then show ?thesis by (simp add: keep activateAsyncRead_reg inv)
  next
    case (Set_exception d)
    have "post (\<lambda>t. reg_view t = reg_view s) (setExceptionImpl d s)"
      unfolding setExceptionImpl_def deactivateAllAndPushException_def
      by (intro post_noexcept) (simp add: deactivate_reg)
    then show ?thesis by (simp add: Set_exception keep)
  next
    case (Attach an name node a)
    let ?s = "if \<not> has_manager s then activateSubscriptionSupport s else s"
    have "good_in serving ?s" using inv_good [of s] inv_good [OF support_inv(1) [OF inv] support_inv(2) [OF inv]] inv
      by simp
    moreover have "registry ?s = registry s" using support_reg [OF inv] registry_cong by auto
    ultimately have "post (\<lambda>t. registry t = spec_subscribe name a (registry s))
        (subscribe client_callback (at_deleted an) (at_create an) (at_monitor an) (at_front an)
           name node a ?s)"
      by (metis client.subscribe_refines)
    then have "post (\<lambda>t. registry t = spec_subscribe name a (registry s)) (attach an name node a s)"
      unfolding attach_def
    proof (rule post_seq)
      fix t :: "variant backend"
      assume t: "registry t = spec_subscribe name a (registry s)"
      have "post (\<lambda>u. registry u = registry t) (start t)"
        by (rule post_mono [OF start_reg]) (rule registry_cong)
      with t show "post (\<lambda>t. registry t = spec_subscribe name a (registry s))
          (if asyncReadActive t \<and> \<not> opcuaThread t then start t else Done t)"
        by simp
    qed
    then show ?thesis by (simp add: Attach)
  next
    case (Detach an name a)
    show ?thesis
    proof (cases "has_manager s")
      case True
      from client.unsubscribe_refines [OF inv_good [OF inv True]] True
      show ?thesis by (simp add: Detach detach_def)
    qed (simp add: Detach detach_def)
  next
    case (Transfer_error es name node r n)
    have "post (\<lambda>t. reg_view t = reg_view s) (handleError es name node r n s)"
      unfolding handleError_def close_connection_def by (rule post_seq [OF client.cbs_reg]) simp_all
    then show ?thesis by (simp add: Transfer_error keep)
  next
    case (Not_writable name)
    then show ?thesis using registry_cong [OF setExternalError_reg [of name s]] by simp
  qed
qed

text \<open>
  C2: The device implements the registry of accessors: in every reachable state every event, whether
  it returns or throws, changes the map from node names to their accessors exactly as the abstract
  registry does. Attaching an accessor appends it to its node, detaching one removes it (and the
  node with its last accessor), and no other event, callback, error or reconnection touches it.
\<close>

theorem device_refines_registry:
  assumes "reachable s" and "backend_step s e t"
  shows "registry t = spec_step e (registry s)"
  using assms(2) perform_registry [OF reachable_inv [OF assms(1)], of e]
  by (auto elim!: backend_stepE)

definition blank_attach :: "variant attach_answer" where
  "blank_attach = \<lparr>at_deleted = False,
     at_create = \<lparr>sub_result = 0, sub_id = 1, revisedPublishingInterval = 500, sub_callbacks = []\<rparr>,
     at_monitor = (\<lambda>p. \<lparr>mon_status = 0, mon_status_name = [], monitoredItemId = word_of_nat p + 1,
       mon_callbacks = []\<rparr>),
     at_front = (\<lambda>_. None)\<rparr>"

lemma valid_blank_response: "valid_response (at_create blank_attach)"
  by (simp add: valid_response_def blank_attach_def double_to_ulong_def truncate_rat_def)

theorem device_refines_registry_witness:
  "\<exists>t. backend_step blank_backend (Attach blank_attach ''temp'' UA_NODEID_NULL 7) t \<and>
     registry t = [''temp'' \<mapsto> [7]]"
proof -
  let ?e = "Attach blank_attach ''temp'' UA_NODEID_NULL 7"
  have "\<exists>t. perform ?e blank_backend = Done t"
    by (simp add: attach_def subscribe_def activateSubscriptionSupport_def new_manager_def
        blank_backend_def)
  then obtain t where t: "perform ?e blank_backend = Done t" ..
  have st: "backend_step blank_backend ?e t"
    by (rule backend_step.returns) (use t valid_blank_response in simp_all)
  have empty: "registry blank_backend = Map.empty"
    by (simp add: registry_def blank_backend_def)
  have "registry t = [''temp'' \<mapsto> [7]]"
    using device_refines_registry [OF reachable.start [OF initial_blank] st]
    by (simp add: empty spec_subscribe_def)
  with st show ?thesis by blast
qed

end
