(* ===== verification/Data_Frame.thy ===== *)
theory Data_Frame
  imports Subscription_Spec
begin

text \<open>
  What the operations of the manager and the device do to the accessors: they push to their queues, and
  nothing else. A predicate of the accessors that survives the pushing of exceptions and of the values at hand is
  kept by every operation, first for any callbacks that keep it (locale \<open>frame_callbacks\<close>),
  then for the callbacks of the backend (locale \<open>value_frame\<close>). One such predicate says that
  the data an accessor has taken from its queue is its own.
\<close>

section \<open>Predicates of the accessors\<close>

locale accessor_frame =
  fixes P :: "('v, 'z) manager_scheme \<Rightarrow> bool"
  assumes accessors_only: "P s \<Longrightarrow> accessors t = accessors s \<Longrightarrow> P t"
    and exception_pushed: "P s \<Longrightarrow> P (push_all (Pushed_exception m) as s)"
begin

lemma frame_update:
  "P s \<Longrightarrow> P (s\<lparr>conn := c\<rparr>)" "P s \<Longrightarrow> P (s\<lparr>ua_calls := x\<rparr>)" "P s \<Longrightarrow> P (s\<lparr>run := b\<rparr>)"
  "P s \<Longrightarrow> P (s\<lparr>subscriptionActive := b\<rparr>)" "P s \<Longrightarrow> P (s\<lparr>subscriptionNeedsToBeRemoved := b\<rparr>)"
  "P s \<Longrightarrow> P (s\<lparr>asyncReadActive := b\<rparr>)" "P s \<Longrightarrow> P (s\<lparr>subscriptionID := i\<rparr>)"
  "P s \<Longrightarrow> P (s\<lparr>items := d\<rparr>)" "P s \<Longrightarrow> P (s\<lparr>subscriptionMap := m\<rparr>)"
  "P s \<Longrightarrow> P (s\<lparr>opcuaThread := b\<rparr>)" "P s \<Longrightarrow> P (s\<lparr>thread_live := b\<rparr>)"
  "P s \<Longrightarrow> P (s\<lparr>next_addr := n\<rparr>)"
  by (erule accessors_only, simp)+

lemma frame_oper:
  "P s \<Longrightarrow> P (add_call k s)" "P s \<Longrightarrow> P (modify_item p f s)" "P s \<Longrightarrow> P (setExternalError name s)"
  "P s \<Longrightarrow> P (resetMonitoredItems s)" "P s \<Longrightarrow> P (setInactive s)"
  "P s \<Longrightarrow> P (removeSubscription del s)" "P s \<Longrightarrow> P (activate_items s)"
  by (erule accessors_only, simp add: add_call_def modify_item_def setExternalError_def
      resetMonitoredItems_def setInactive_def removeSubscription_def activate_items_def Let_def
      split: option.split)+

lemma handleException_frame_all: "P s \<Longrightarrow> P (handleException m s)"
proof -
  have step: "P s \<Longrightarrow> P (handle_item m x s)" for x s
    by (cases x) (simp add: handle_item_def exception_pushed frame_oper)
  have "P s \<Longrightarrow> P (fold (handle_item m) xs s)" for xs
    by (induction xs arbitrary: s) (simp_all add: step)
  then show "P s \<Longrightarrow> P (handleException m s)" by (simp add: handleException_def)
qed

lemmas framed = frame_update frame_oper handleException_frame_all

lemma deactivate_framed: "P s \<Longrightarrow> post P (deactivate locked del s)"
  unfolding deactivate_def deactivate_items_def Let_def by (auto intro!: framed)

lemma deactivateAll_framed: "P s \<Longrightarrow> post P (deactivateAllAndPushException locked del m s)"
  unfolding deactivateAllAndPushException_def by (intro deactivate_framed framed)

lemma start_framed: "P s \<Longrightarrow> post P (start s)"
  by (simp add: start_def framed)

end

section \<open>The manager\<close>

text \<open>\<open>ok\<close> tells the callbacks that keep the predicate; the answers of the library carry no others.\<close>

locale frame_callbacks = accessor_frame P for P :: "('v, 'z) manager_scheme \<Rightarrow> bool" +
  fixes cb :: "'e \<Rightarrow> ('v, 'z) manager_scheme \<Rightarrow> ('v, 'z) manager_scheme result"
    and ok :: "'e \<Rightarrow> bool"
  assumes cb_framed: "ok e \<Longrightarrow> P s \<Longrightarrow> post P (cb e s)"
begin

lemma run_all_framed: "list_all ok es \<Longrightarrow> P s \<Longrightarrow> post P (run_all cb es s)"
  by (induction es arbitrary: s) (auto intro!: post_seq cb_framed)

lemma createSubscription_framed:
  "list_all ok (sub_callbacks r) \<Longrightarrow> P s \<Longrightarrow> post P (createSubscription cb del r s)"
  unfolding createSubscription_def Let_def
  by (rule post_seq [OF run_all_framed]) (auto intro!: framed split: option.split)

lemma addMonitoredItem_framed:
  assumes "list_all ok (mon_callbacks (answer p))" and "P s"
  shows "post P (addMonitoredItem cb answer p s)"
proof -
  have base: "post P (run_all cb (mon_callbacks (answer p)) (add_call c u))" if "P u" for c u
    using assms(1) that by (intro run_all_framed framed)
  from assms(2) show ?thesis
    unfolding addMonitoredItem_def Let_def
    by (auto intro!: post_seq [OF base] framed split: option.split list.split)
qed

lemma addMonitoredItems_framed:
  "(\<And>p. list_all ok (mon_callbacks (answer p))) \<Longrightarrow> P s \<Longrightarrow> post P (addMonitoredItems cb answer s)"
  unfolding addMonitoredItems_def by (rule run_all_post [OF addMonitoredItem_framed])

lemma prepare_framed:
  "list_all ok (sub_callbacks r) \<Longrightarrow> (\<And>p. list_all ok (mon_callbacks (answer p))) \<Longrightarrow> P s \<Longrightarrow>
   post P (prepare cb del r answer s)"
  unfolding prepare_def by (rule post_seq [OF createSubscription_framed addMonitoredItems_framed])

lemma activate_framed:
  "list_all ok (sub_callbacks r) \<Longrightarrow> (\<And>p. list_all ok (mon_callbacks (answer p))) \<Longrightarrow> P s \<Longrightarrow>
   post P (activate cb del r answer s)"
  unfolding activate_def Let_def
  by (rule post_seq [of P]) (auto intro!: createSubscription_framed addMonitoredItems_framed framed)

lemma client_loop_framed:
  "list_all (\<lambda>it. list_all ok (iterate_callbacks it)) its \<Longrightarrow> P s \<Longrightarrow> post P (client_loop cb its s)"
  by (induction its arbitrary: s) (auto intro!: post_seq [OF run_all_framed])

lemma runClient_framed:
  "list_all (\<lambda>it. list_all ok (iterate_callbacks it)) its \<Longrightarrow> P s \<Longrightarrow> post P (runClient cb its del s)"
  unfolding runClient_def by (rule post_seq [OF client_loop_framed]) (auto intro!: framed)

lemma stopClientThread_framed:
  "list_all (\<lambda>it. list_all ok (iterate_callbacks it)) its \<Longrightarrow> P s \<Longrightarrow> post P (stopClientThread cb its del s)"
  unfolding stopClientThread_def by (auto intro!: post_seq [of P] runClient_framed framed)

text \<open>The initial value of a new accessor is the only value the manager pushes on its own account.\<close>

lemma subscribe_framed:
  assumes "list_all ok (sub_callbacks r)" and "\<And>p. list_all ok (mon_callbacks (answer p))" and "P s"
    and front: "\<And>d b t. front (notifications (accessors s b)) = Some (Inr d) \<Longrightarrow> P t \<Longrightarrow> P (push_all (Pushed (copied_value d)) [a] t)"
    and data: "\<And>b t. hasValue (acc_data (accessors s b)) \<Longrightarrow> P t \<Longrightarrow> P (push_all (Pushed (copied_value (acc_data (accessors s b)))) [a] t)"
  shows "post P (subscribe cb del r answer front name node a s)"
proof -
  have "accessors (modify_item p f s) = accessors s" for p f by (simp add: modify_item_def)
  with assms show ?thesis
    unfolding subscribe_def Let_def
    by (auto intro!: post_seq [of P] createSubscription_framed addMonitoredItems_framed front data framed
        split: option.split sum.split prod.split)
qed

lemma unsubscribe_framed:
  "list_all ok es \<Longrightarrow> list_all (\<lambda>it. list_all ok (iterate_callbacks it)) its \<Longrightarrow> P s \<Longrightarrow>
   post P (unsubscribe cb es del its del' name a s)"
  unfolding unsubscribe_def Let_def
  by (auto intro!: post_seq [of P] run_all_framed stopClientThread_framed framed split: option.split prod.split)

lemmas manager_framed =
  run_all_framed prepare_framed activate_framed stopClientThread_framed runClient_framed
  unsubscribe_framed deactivate_framed deactivateAll_framed start_framed

end

section \<open>The device\<close>

text \<open>The values of a set may be pushed; a callback is fine when the value it brings is one of them.\<close>

fun brings :: "'v data_value set \<Rightarrow> 'v callback \<Rightarrow> bool" where
  "brings V (Data_changed i d) \<longleftrightarrow> d \<in> V"
| "brings V _ \<longleftrightarrow> True"

abbreviation all_bring :: "'v data_value set \<Rightarrow> 'v callback list \<Rightarrow> bool" where
  "all_bring V \<equiv> list_all (brings V)"

abbreviation iterations_bring :: "'v data_value set \<Rightarrow> 'v callback iterate_answer list \<Rightarrow> bool" where
  "iterations_bring V \<equiv> list_all (\<lambda>it. all_bring V (iterate_callbacks it))"

abbreviation monitors_bring :: "'v data_value set \<Rightarrow> (addr \<Rightarrow> 'v callback monitor_answer) \<Rightarrow> bool" where
  "monitors_bring V m \<equiv> \<forall>p. all_bring V (mon_callbacks (m p))"

definition reset_brings :: "'v data_value set \<Rightarrow> 'v reset_answer \<Rightarrow> bool" where
  "reset_brings V a \<longleftrightarrow> iterations_bring V (rs_iterations a) \<and> all_bring V (rs_disconnect a)"

definition open_brings :: "'v data_value set \<Rightarrow> 'v open_answer \<Rightarrow> bool" where
  "open_brings V a \<longleftrightarrow> iterations_bring V (op_iterations a) \<and> reset_brings V (op_reset a) \<and>
     all_bring V (connect_callbacks (op_connect a)) \<and> all_bring V (sub_callbacks (op_create a)) \<and>
     monitors_bring V (op_monitor a) \<and> (\<forall>i. all_bring V (op_waiting a i))"

fun event_brings :: "variant data_value set \<Rightarrow> event \<Rightarrow> bool" where
  "event_brings V (Receive e) \<longleftrightarrow> brings V e"
| "event_brings V (Thread_end its deleted) \<longleftrightarrow> iterations_bring V its"
| "event_brings V (Open a) \<longleftrightarrow> open_brings V a"
| "event_brings V (Close a) \<longleftrightarrow> reset_brings V a"
| "event_brings V (Activate_async functional deleted r m) \<longleftrightarrow>
     all_bring V (sub_callbacks r) \<and> monitors_bring V m"
| "event_brings V (Set_exception deleted) \<longleftrightarrow> True"
| "event_brings V (Attach a name node acc) \<longleftrightarrow>
     all_bring V (sub_callbacks (at_create a)) \<and> monitors_bring V (at_monitor a)"
| "event_brings V (Detach a name acc) \<longleftrightarrow>
     all_bring V (dt_callbacks a) \<and> iterations_bring V (dt_iterations a)"
| "event_brings V (Transfer_error es name node retval status_name) \<longleftrightarrow> all_bring V es"
| "event_brings V (Not_writable name) \<longleftrightarrow> True"

text \<open>The value \<open>subscribe\<close> reads at the front of a queue.\<close>

definition shows_within ::
    "'v data_value set \<Rightarrow> ('v notification list \<Rightarrow> (string + 'v data_value) option) \<Rightarrow> ('v, 'z) manager_scheme \<Rightarrow> bool" where
  "shows_within V front s \<longleftrightarrow>
     (\<forall>b d. front (notifications (accessors s b)) = Some (Inr d) \<longrightarrow> copied_value d \<in> V)"

fun front_within :: "variant data_value set \<Rightarrow> event \<Rightarrow> variant backend \<Rightarrow> bool" where
  "front_within V (Attach a name node acc) s \<longleftrightarrow> shows_within V (at_front a) s"
| "front_within V _ s \<longleftrightarrow> True"

locale value_frame = accessor_frame P for P :: "'v backend \<Rightarrow> bool" +
  fixes V :: "'v data_value set"
  assumes value_pushed: "d \<in> V \<Longrightarrow> P s \<Longrightarrow> P (push_all (Pushed d) as s)"
    and own_data: "P s \<Longrightarrow> hasValue (acc_data (accessors s b)) \<Longrightarrow> copied_value (acc_data (accessors s b)) \<in> V"
begin

lemma callback_framed: "brings V e \<Longrightarrow> P s \<Longrightarrow> post P (client_callback e s)"
  by (cases e)
    (auto simp: stateCallback_def inactivityCallback_def deleteSubscriptionCallback_def
      responseHandler_def Let_def intro!: post_seq deactivateAll_framed value_pushed framed split: option.split)

end

sublocale value_frame < frame_callbacks P client_callback "brings V"
  by unfold_locales (rule callback_framed)

context value_frame
begin

lemma device_update: "P s \<Longrightarrow> P (s\<lparr>opened := b\<rparr>)" "P s \<Longrightarrow> P (activateSubscriptionSupport s)"
  "P s \<Longrightarrow> P (mark_external name s)"
  by (erule accessors_only, simp add: activateSubscriptionSupport_def new_manager_def mark_external_def
      setExternalError_def modify_item_def split: option.split)+

lemma close_connection_framed: "all_bring V es \<Longrightarrow> P s \<Longrightarrow> post P (close_connection es s)"
  unfolding close_connection_def by (intro run_all_framed framed)

lemma resetClient_framed: "reset_brings V a \<Longrightarrow> P s \<Longrightarrow> post P (resetClient a s)"
  unfolding resetClient_def reset_brings_def
  by (auto intro!: post_seq [of P] close_connection_framed manager_framed framed)

lemma connect_framed:
  "reset_brings V reset \<Longrightarrow> all_bring V (connect_callbacks answer) \<Longrightarrow> all_bring V (sub_callbacks r) \<Longrightarrow>
   monitors_bring V monitor \<Longrightarrow> P s \<Longrightarrow> post P (connect reset answer del r monitor s)"
  unfolding connect_def by (auto intro!: post_seq [of P] manager_framed resetClient_framed framed)

lemma wait_connected_framed: "\<forall>i. all_bring V (during i) \<Longrightarrow> P s \<Longrightarrow> post P (wait_connected during i s)"
proof (induction during i s rule: wait_connected.induct)
  case (1 during i s)
  then have during: "all_bring V (during i)" by simp
  show ?case
  proof (cases "isConnected (conn s)")
    case True
    with 1 show ?thesis by (simp add: wait_connected.simps)
  next
    case False
    show ?thesis
      unfolding wait_connected.simps [of during i] using False
      by (simp, intro post_seqI [OF run_all_framed [OF during "1.prems"(2)]])
        (auto intro: "1.IH" simp: "1.prems"(1))
  qed
qed

lemma open_device_framed: "open_brings V a \<Longrightarrow> P s \<Longrightarrow> post P (open_device a s)"
  unfolding open_device_def open_brings_def
  by (auto intro!: post_seq [of P] manager_framed connect_framed wait_connected_framed device_update)

lemma attach_framed:
  assumes "all_bring V (sub_callbacks (at_create a))" and "monitors_bring V (at_monitor a)"
    and "shows_within V (at_front a) s" and "P s"
  shows "post P (attach a name node acc s)"
proof -
  let ?s1 = "if \<not> has_manager s then activateSubscriptionSupport s else s"
  have s1: "P ?s1" using assms(4) by (simp add: device_update)
  have "accessors ?s1 = accessors s" by (simp add: activateSubscriptionSupport_def new_manager_def)
  with assms(3) have "shows_within V (at_front a) ?s1" by (simp add: shows_within_def)
  moreover have "hasValue (acc_data (accessors ?s1 b)) \<Longrightarrow> copied_value (acc_data (accessors ?s1 b)) \<in> V" for b
    by (rule own_data [OF s1])
  ultimately have "post P (subscribe client_callback (at_deleted a) (at_create a) (at_monitor a)
      (at_front a) name node acc ?s1)"
    using assms(1,2) s1
    by (intro subscribe_framed) (auto intro: value_pushed simp: shows_within_def simp del: if_not_P if_P split del: if_split)
  then show ?thesis
    unfolding attach_def by (rule post_seq) (simp add: start_framed)
qed

end

locale device_frame = value_frame P V for P :: "variant backend \<Rightarrow> bool" and V
begin

lemma perform_framed: "event_brings V e \<Longrightarrow> front_within V e s \<Longrightarrow> P s \<Longrightarrow> post P (perform e s)"
  by (cases e)
    (auto simp: close_device_def activateAsyncRead_def setExceptionImpl_def detach_def handleError_def
      intro!: post_seq [of P] post_noexcept callback_framed manager_framed resetClient_framed
        close_connection_framed open_device_framed attach_framed device_update)

end

section \<open>The data of the accessors\<close>

definition has_data :: "(acc_id \<Rightarrow> 'v data_value) \<Rightarrow> ('v, 'z) manager_scheme \<Rightarrow> bool" where
  "has_data D s \<longleftrightarrow> (\<lambda>a. acc_data (accessors s a)) = D"

lemma has_data_same: "has_data (\<lambda>a. acc_data (accessors s a)) s"
  by (simp add: has_data_def)

interpretation own_data: device_frame "has_data D" UNIV
  by unfold_locales (simp_all add: has_data_def push_all_eq)

lemma brings_UNIV [simp]: "brings UNIV e"
  by (cases e) simp_all

lemma event_brings_UNIV [simp]: "event_brings UNIV e"
  by (cases e) (auto simp: open_brings_def reset_brings_def list_all_iff split: option.split sum.split)

lemma front_within_UNIV [simp]: "front_within UNIV e s"
  by (cases e) (auto simp: shows_within_def)

lemma perform_data: "has_data D s \<Longrightarrow> post (has_data D) (perform e s)"
  by (rule own_data.perform_framed) simp_all

lemma callbacks_data: "has_data D s \<Longrightarrow> post (has_data D) (run_all client_callback es s)" for s :: "variant backend"
  by (rule own_data.run_all_framed) (simp_all add: list_all_iff)

lemmas mark_external_data = own_data.device_update(3)

end
