(* ===== verification/Xml_Tools.thy ===== *)
theory Xml_Tools
  imports Cpp_Std
begin

text \<open>
  The XML helpers (\<^verbatim>\<open>src/XmlTools.cc\<close>) on the part of the libxml++ document model the code uses.
  The parser and the writer of XML text are not part of the repository: reading a file is a
  parameter \<open>load\<close> that yields a document or the text of an exception, and what a written document
  reads back as is the relation \<open>reads_as\<close>. The texts of standard exceptions are a parameter
  \<open>what\<close>.
\<close>

section \<open>Documents\<close>

text \<open>An element has a name, attributes, the line it starts at and children.\<close>

datatype xml =
    Element string "(string \<times> string) list" int "xml list"
  | Text string
  | Comment string

record document =
  root_element :: xml
  root_namespace :: string

fun is_element :: "xml \<Rightarrow> bool" where
  "is_element (Element _ _ _ _) = True"
| "is_element _ = False"

fun get_name :: "xml \<Rightarrow> string" where
  "get_name (Element n _ _ _) = n"
| "get_name (Text _) = ''text''"
| "get_name (Comment _) = ''comment''"

fun get_line :: "xml \<Rightarrow> int" where
  "get_line (Element _ _ l _) = l"
| "get_line _ = 0"

fun get_children :: "xml \<Rightarrow> xml list" where
  "get_children (Element _ _ _ cs) = cs"
| "get_children _ = []"

fun get_attribute :: "xml \<Rightarrow> string \<Rightarrow> string option" where
  "get_attribute (Element _ as _ _) k = map_of as k"
| "get_attribute _ k = None"

text \<open>\<open>get_child_text\<close>: the first text child, a null pointer (\<open>None\<close>) when there is none.\<close>

fun first_text :: "xml list \<Rightarrow> string option" where
  "first_text [] = None"
| "first_text (Text t # cs) = Some t"
| "first_text (_ # cs) = first_text cs"

definition get_child_text :: "xml \<Rightarrow> string option" where
  "get_child_text e = first_text (get_children e)"

abbreviation elements :: "xml list \<Rightarrow> xml list" where
  "elements cs \<equiv> filter is_element cs"

section \<open>Helpers of the repository\<close>

text \<open>A null pointer that is dereferenced is the outcome \<open>None\<close>.\<close>

definition parse_error :: "(exn \<Rightarrow> string) \<Rightarrow> int \<Rightarrow> exn \<Rightarrow> exn" where
  "parse_error what line e =
     Logic_error (''Failed to parse node at line '' @ show_int line @ '':'' @ what e)"

definition convertToUint :: "(exn \<Rightarrow> string) \<Rightarrow> string \<Rightarrow> int \<Rightarrow> exn + u32" where
  "convertToUint what s line =
     (case stoul s of Inl e \<Rightarrow> Inl (parse_error what line e) | Inr v \<Rightarrow> Inr (ucast v))"

definition convertToInt :: "(exn \<Rightarrow> string) \<Rightarrow> string \<Rightarrow> int \<Rightarrow> exn + int" where
  "convertToInt what s line =
     (case stol s of Inl e \<Rightarrow> Inl (parse_error what line e) | Inr v \<Rightarrow> Inr (int_of_long v))"

definition parseLength :: "(exn \<Rightarrow> string) \<Rightarrow> xml \<Rightarrow> (exn + u32) option" where
  "parseLength what c =
     map_option (\<lambda>t. convertToUint what t (get_line c)) (get_child_text c)"

definition parseTypeId :: "(exn \<Rightarrow> string) \<Rightarrow> xml \<Rightarrow> (exn + int) option" where
  "parseTypeId what c =
     map_option (\<lambda>t. convertToInt what t (get_line c)) (get_child_text c)"

definition parseAccessMode :: "(string \<Rightarrow> exn + 'f) \<Rightarrow> xml \<Rightarrow> exn + 'f" where
  "parseAccessMode deserialize c =
     deserialize (case get_child_text c of None \<Rightarrow> [] | Some t \<Rightarrow> t)"

definition createDomParser :: "(string \<Rightarrow> string + document) \<Rightarrow> string \<Rightarrow> exn + document" where
  "createDomParser load xmlfile =
     (case load xmlfile of
        Inl m \<Rightarrow> Inl (Logic_error (''Error opening '' @ xmlfile @ '': '' @ m))
      | Inr d \<Rightarrow> Inr d)"

definition expected_namespace :: string where
  "expected_namespace = ''https://github.com/ChimeraTK/DeviceAccess-OpcUaBackend''"

text \<open>\<open>getRootNode\<close> builds an exception for a wrong tag, but does not throw it.\<close>

definition getRootNode :: "document \<Rightarrow> string \<Rightarrow> exn + xml" where
  "getRootNode d rootNodeName =
     (if root_namespace d \<noteq> expected_namespace
      then Inl (Logic_error (''Wrong namespace is used: '' @ root_namespace d @
             ''/t -> Should be '' @ [CHR 0x27] @ expected_namespace @ [CHR 0x27]))
      else Inr (root_element d))"

section \<open>Writing and reading back\<close>

text \<open>
  What a formatted write followed by a parse does to an element: names and attributes stay, an
  element with a text keeps it unless the text is empty, an element without children gets none, and
  among the children of any other element white space and nothing else is added. Lines may change.
\<close>

fun leaf_text :: "xml list \<Rightarrow> string option" where
  "leaf_text [] = Some []"
| "leaf_text [Text t] = Some t"
| "leaf_text _ = None"

function reads_as :: "xml \<Rightarrow> xml \<Rightarrow> bool" where
  "reads_as (Element n as l cs) e' \<longleftrightarrow>
     is_element e' \<and> get_name e' = n \<and> (\<forall>k. get_attribute e' k = map_of as k) \<and>
     (case leaf_text cs of
        Some t \<Rightarrow> elements (get_children e') = [] \<and>
          get_child_text e' = (if t = [] then None else Some t)
      | None \<Rightarrow> list_all2 reads_as (elements cs) (elements (get_children e')))"
| "reads_as (Text t) e' \<longleftrightarrow> e' = Text t"
| "reads_as (Comment t) e' \<longleftrightarrow> e' = Comment t"
  by pat_completeness auto
termination
proof (relation "measure (\<lambda>(d, e'). size d)")
  fix n :: string and as :: "(string \<times> string) list" and l cs e' z yb
  assume "z \<in> set (elements cs)"
  then have "z \<in> set cs" by simp
  then have "size z < size_list size cs + 1" by (induction cs) auto
  then show "((z, yb), (Element n as l cs, e')) \<in> measure (\<lambda>(d, e'). size d)" by simp
qed simp_all

section \<open>Lemmas\<close>

lemma u32_through_u64 [simp]: "ucast (ucast (w :: u32) :: u64) = w"
  by transfer simp

lemma convertToUint_to_string:
  "convertToUint what (to_string (w :: u32)) line = Inr w"
  by (simp add: convertToUint_def stoul_to_string_u32)

lemma convertToInt_show_int:
  assumes "- (2 ^ 31) \<le> i" and "i < 2 ^ 31"
  shows "convertToInt what (show_int i) line = Inr i"
proof -
  from assms have "stol (show_int i) = Inr i" by (intro stol_show_int) simp_all
  with assms show ?thesis by (simp add: convertToInt_def int_of_long_id)
qed

lemma convertToInt_show_nat: "n < 2 ^ 31 \<Longrightarrow> convertToInt what (show_nat n) line = Inr (int n)"
  using convertToInt_show_int [of "int n" what line] by (simp add: show_int_of_nat)

text \<open>
  The root element's tag is not checked: a document in the right namespace is accepted whatever
  its root is called.
\<close>

theorem getRootNode_accepts_any_tag:
  "getRootNode \<lparr>root_element = Element tag as l cs, root_namespace = expected_namespace\<rparr> expected =
   Inr (Element tag as l cs)"
  by (simp add: getRootNode_def)

text \<open>
  Numbers written in decimal read back as themselves if they fit the type they are read into;
  a length beyond 32 bits is cut off to its low 32 bits without an error, and a text that does
  not start with a number is reported as a logic error that names the line.
\<close>

theorem convert_decimal:
  "convertToUint what (to_string (w :: u32)) line = Inr w \<and>
   convertToUint what (to_string (v :: u64)) line = Inr (ucast v) \<and>
   (i \<in> {- (2 ^ 31) ..< 2 ^ 31} \<longrightarrow> convertToInt what (show_int i) line = Inr i) \<and>
   (\<not> is_space c \<and> \<not> is_digit c \<and> c \<noteq> CHR ''-'' \<and> c \<noteq> CHR ''+'' \<longrightarrow>
     convertToUint what (c # s) line = Inl (parse_error what line Invalid_argument) \<and>
     convertToInt what (c # s) line = Inl (parse_error what line Invalid_argument))"
proof (intro conjI impI)
  show "convertToUint what (to_string w) line = Inr w" by (rule convertToUint_to_string)
  have "unat v < 2 ^ 64" using unsigned_less [of v] by simp
  then show "convertToUint what (to_string v) line = Inr (ucast v)"
    by (simp add: convertToUint_def to_string_def stoul_show_nat)
  show "convertToInt what (show_int i) line = Inr i" if "i \<in> {- (2 ^ 31) ..< 2 ^ 31}"
    using that by (intro convertToInt_show_int) auto
  assume "\<not> is_space c \<and> \<not> is_digit c \<and> c \<noteq> CHR ''-'' \<and> c \<noteq> CHR ''+''"
  then have "parse_integer (c # s) = None" by (simp add: parse_integer_def parse_sign_def)
  then show "convertToUint what (c # s) line = Inl (parse_error what line Invalid_argument)"
    "convertToInt what (c # s) line = Inl (parse_error what line Invalid_argument)"
    by (simp_all add: convertToUint_def convertToInt_def stoul_def stol_def)
qed

theorem convert_decimal_witness:
  "convertToUint (\<lambda>e. ''stoul'') (to_string (4294967303 :: u64)) 7 = Inr 7 \<and>
   convertToInt (\<lambda>e. ''stol'') (show_int (- 12)) 7 = Inr (- 12) \<and>
   convertToInt (\<lambda>e. ''stol'') ''x1'' 7 = Inl (parse_error (\<lambda>e. ''stol'') 7 Invalid_argument)"
  using convert_decimal [of "\<lambda>e. ''stoul''" 0 7 4294967303 0 "CHR ''x''" "[]"]
    convert_decimal [of "\<lambda>e. ''stol''" 0 7 0 "- 12" "CHR ''x''" "''1''"]
  by (simp add: is_space_def is_digit_def)

end
