(* ===== verification/Catalogue_Cache.thy ===== *)
theory Catalogue_Cache
  imports Xml_Tools Register_Info
begin

text \<open>
  The catalogue cache (\<^verbatim>\<open>src/CatalogueCache.cc\<close>): a catalogue is written to an XML file with one
  element per register and read back from it. The file system, the XML writer and the text form
  of the access modes (\<open>serialize\<close>, \<open>deserialize\<close>) are parameters.
\<close>

section \<open>Writing\<close>

definition leaf :: "string \<Rightarrow> string \<Rightarrow> xml" where
  "leaf tag t = Element tag [] 0 [Text t]"

text \<open>\<open>std::to_string\<close> of a \<open>bool\<close>, which is promoted to \<open>int\<close>.\<close>

definition bool_to_string :: "bool \<Rightarrow> string" where
  "bool_to_string b = (if b then ''1'' else ''0'')"

text \<open>The text of a node id. For a node id that is neither numeric nor a string, \<open>isNumeric\<close> is false
  and the string member of the union is read: \<open>None\<close>.\<close>

definition id_text :: "register_info \<Rightarrow> string option" where
  "id_text r =
     (case node_identifier (reg_id r) of
        Numeric n \<Rightarrow> if isNumeric r then Some (to_string n) else None
      | Str s \<Rightarrow> if isNumeric r then None else Some s
      | Opaque n \<Rightarrow> if isNumeric r then Some (to_string n) else None)"

definition addRegInfoXmlNode ::
    "(string \<Rightarrow> string) \<Rightarrow> (bool \<Rightarrow> string) \<Rightarrow> register_info \<Rightarrow> xml outcome" where
  "addRegInfoXmlNode normal serialize r =
     (case id_text r of
        None \<Rightarrow> None
      | Some nodeId \<Rightarrow> value_of (Element ''register'' [] 0
          [leaf ''nodeId'' nodeId,
           leaf ''name'' (normal (nodeBrowseName r)),
           leaf ''description'' (description r),
           leaf ''length'' (to_string (getNumberOfElements r)),
           leaf ''access_mode'' (serialize (waitForNewData r)),
           leaf ''readOnly'' (bool_to_string (isReadonly r)),
           leaf ''typeId'' (to_string (dataType r)),
           leaf ''nameSpace'' (to_string (reg_namespaceIndex r)),
           leaf ''isNumeric'' (bool_to_string (isNumeric r)),
           leaf ''indexRange'' (reg_indexRange r)]))"

definition catalogue_document ::
    "(string \<Rightarrow> string) \<Rightarrow> (bool \<Rightarrow> string) \<Rightarrow> catalogue \<Rightarrow> document outcome" where
  "catalogue_document normal serialize c =
     andThen (foldThen (\<lambda>r es. andThen (addRegInfoXmlNode normal serialize r) (\<lambda>e. value_of (es @ [e]))) c [])
       (\<lambda>es. value_of \<lparr>root_element = Element ''catalogue'' [(''version'', ''1.0'')] 0
           (Element ''general'' [] 0 [Element ''serverAddress'' [] 0
              (case c of [] \<Rightarrow> [] | r # _ \<Rightarrow> [Text (reg_serverAddress r)])] # es),
         root_namespace = expected_namespace\<rparr>)"

text \<open>The file operations of \<open>saveCatalogue\<close>: the temporary name or an error text, whether the
  temporary file is empty after writing, and the error text of the rename, if it fails.\<close>

record save_answer =
  unique_path :: "string + string"
  temporary_empty :: bool
  rename_error :: "string option"

definition saveCatalogue ::
    "(string \<Rightarrow> string) \<Rightarrow> (bool \<Rightarrow> string) \<Rightarrow> save_answer \<Rightarrow> catalogue \<Rightarrow> document outcome" where
  "saveCatalogue normal serialize a c =
     andThen (catalogue_document normal serialize c) (\<lambda>doc.
     case unique_path a of
       Inl m \<Rightarrow> error_of (Runtime_error (''Failed to generate temporary path: '' @ m))
     | Inr tmp \<Rightarrow>
         if temporary_empty a then error_of (Runtime_error ''Failed to save cache File'')
         else (case rename_error a of
                 Some m \<Rightarrow> error_of (Runtime_error (''Failed to replace cache file: '' @ m))
               | None \<Rightarrow> value_of doc))"

section \<open>Reading\<close>

text \<open>The local variables of \<open>parseRegister\<close>; four of them have no initial value.\<close>

record parsed_register =
  p_nodeId :: string
  p_name :: string
  p_description :: string
  p_indexRange :: string
  p_isReadonly :: "bool option"
  p_isNumeric :: "bool option"
  p_typeId :: "u32 option"
  p_namespaceId :: "u16 option"
  p_length :: u32

definition blank_register :: parsed_register where
  "blank_register = \<lparr>p_nodeId = [], p_name = [], p_description = [], p_indexRange = [],
     p_isReadonly = None, p_isNumeric = None, p_typeId = None, p_namespaceId = None, p_length = 0\<rparr>"

definition required_text :: "xml \<Rightarrow> string outcome" where
  "required_text e = map_option Inr (get_child_text e)"

definition parse_field ::
    "(exn \<Rightarrow> string) \<Rightarrow> (string \<Rightarrow> exn + 'f) \<Rightarrow> xml \<Rightarrow> parsed_register \<Rightarrow> parsed_register outcome" where
  "parse_field what deserialize e p =
     (if \<not> is_element e then value_of p
      else if get_name e = ''name'' then andThen (required_text e) (\<lambda>t. value_of (p\<lparr>p_name := t\<rparr>))
      else if get_name e = ''nodeId'' then andThen (required_text e) (\<lambda>t. value_of (p\<lparr>p_nodeId := t\<rparr>))
      else if get_name e = ''length'' then andThen (parseLength what e) (\<lambda>n. value_of (p\<lparr>p_length := n\<rparr>))
      else if get_name e = ''access_mode''
      then andThen (Some (parseAccessMode deserialize e)) (\<lambda>f. value_of p)
      else if get_name e = ''description''
      then value_of (case get_child_text e of None \<Rightarrow> p | Some t \<Rightarrow> p\<lparr>p_description := t\<rparr>)
      else if get_name e = ''readOnly''
      then andThen (parseTypeId what e) (\<lambda>i. value_of (p\<lparr>p_isReadonly := Some (i \<noteq> 0)\<rparr>))
      else if get_name e = ''typeId''
      then andThen (parseTypeId what e) (\<lambda>i. value_of (p\<lparr>p_typeId := Some (word_of_int i)\<rparr>))
      else if get_name e = ''nameSpace''
      then andThen (parseTypeId what e) (\<lambda>i. value_of (p\<lparr>p_namespaceId := Some (word_of_int i)\<rparr>))
      else if get_name e = ''isNumeric''
      then andThen (parseTypeId what e) (\<lambda>i. value_of (p\<lparr>p_isNumeric := Some (i \<noteq> 0)\<rparr>))
      else if get_name e = ''indexRange''
      then value_of (case get_child_text e of None \<Rightarrow> p | Some t \<Rightarrow> p\<lparr>p_indexRange := t\<rparr>)
      else value_of p)"

definition parsed_node :: "bool \<Rightarrow> u16 \<Rightarrow> string \<Rightarrow> node_id outcome" where
  "parsed_node num ns nodeId =
     (if num
      then (case stoul nodeId of
              Inl e \<Rightarrow> error_of e
            | Inr i \<Rightarrow> value_of \<lparr>namespaceIndex = ns, node_identifier = Numeric (ucast i)\<rparr>)
      else value_of \<lparr>namespaceIndex = ns, node_identifier = Str (c_str nodeId)\<rparr>)"

definition finish_register ::
    "(string \<Rightarrow> string \<Rightarrow> string) \<Rightarrow> (register_info \<Rightarrow> catalogue \<Rightarrow> exn + catalogue) \<Rightarrow> string \<Rightarrow>
     parsed_register \<Rightarrow> catalogue \<Rightarrow> catalogue outcome" where
  "finish_register join add_register server p c =
     (case (p_isNumeric p, p_namespaceId p, p_typeId p, p_isReadonly p) of
        (Some num, Some ns, Some typ, Some readonly) \<Rightarrow>
          andThen (parsed_node num ns (p_nodeId p))
            (\<lambda>node. Some (addProperty join add_register node (p_name p) (p_indexRange p) typ
               (ucast (p_length p)) server (p_description p) readonly c))
      | _ \<Rightarrow> None)"

definition parseRegister ::
    "(exn \<Rightarrow> string) \<Rightarrow> (string \<Rightarrow> exn + 'f) \<Rightarrow> (string \<Rightarrow> string \<Rightarrow> string) \<Rightarrow>
     (register_info \<Rightarrow> catalogue \<Rightarrow> exn + catalogue) \<Rightarrow> string \<Rightarrow> xml \<Rightarrow> catalogue \<Rightarrow> catalogue outcome" where
  "parseRegister what deserialize join add_register server registerNode c =
     andThen (foldThen (parse_field what deserialize) (get_children registerNode) blank_register)
       (\<lambda>p. finish_register join add_register server p c)"

definition parse_address :: "xml \<Rightarrow> string \<Rightarrow> string outcome" where
  "parse_address node address =
     (if is_element node \<and> get_name node = ''general''
      then foldThen (\<lambda>e address. if is_element e \<and> get_name e = ''serverAddress'' then required_text e
                       else value_of address) (get_children node) address
      else value_of address)"

definition readCatalogue ::
    "(exn \<Rightarrow> string) \<Rightarrow> (string \<Rightarrow> exn + 'f) \<Rightarrow> (string \<Rightarrow> string \<Rightarrow> string) \<Rightarrow>
     (register_info \<Rightarrow> catalogue \<Rightarrow> exn + catalogue) \<Rightarrow> (string \<Rightarrow> string + document) \<Rightarrow> string \<Rightarrow>
     catalogue outcome" where
  "readCatalogue what deserialize join add_register load xmlfile =
     andThen (Some (createDomParser load xmlfile)) (\<lambda>d.
     andThen (Some (getRootNode d ''catalogue'')) (\<lambda>registerList.
     andThen (foldThen parse_address (get_children registerList) []) (\<lambda>server.
     foldThen (\<lambda>node c. if is_element node \<and> get_name node \<noteq> ''general''
         then parseRegister what deserialize join add_register server node c else value_of c)
       (get_children registerList) [])))"

section \<open>What a cached register keeps\<close>

definition cached :: "(string \<Rightarrow> string \<Rightarrow> string) \<Rightarrow> (string \<Rightarrow> string) \<Rightarrow> register_info \<Rightarrow> register_info" where
  "cached join normal r = r\<lparr>path := join (reg_serverAddress r) (normal (nodeBrowseName r)),
     nodeBrowseName := normal (nodeBrowseName r), unit_name := [], waitForNewData := True,
     dataDescriptor := descriptor_of (dataType r)\<rparr>"

text \<open>Registers as \<open>addProperty\<close> makes them: the copies of the node id's parts agree with it, the
  type is one of the twelve, and the length fits the 32 bits it is written with.\<close>

definition cacheable :: "string \<Rightarrow> (string \<Rightarrow> string) \<Rightarrow> register_info \<Rightarrow> bool" where
  "cacheable server normal r \<longleftrightarrow>
     reg_serverAddress r = server \<and> normal (nodeBrowseName r) \<noteq> [] \<and>
     reg_namespaceIndex r = namespaceIndex (reg_id r) \<and> isNumeric r = is_numeric (reg_id r) \<and>
     (case node_identifier (reg_id r) of
        Numeric n \<Rightarrow> True | Str s \<Rightarrow> s \<noteq> [] \<and> CHR 0x00 \<notin> set s | Opaque n \<Rightarrow> False) \<and>
     1 \<le> dataType r \<and> dataType r \<le> 12 \<and> arrayLength r < 2 ^ 32"

lemma reads_as_leaf:
  "reads_as (leaf tag t) e \<longleftrightarrow>
     is_element e \<and> get_name e = tag \<and> (\<forall>k. get_attribute e k = None) \<and>
     elements (get_children e) = [] \<and> get_child_text e = (if t = [] then None else Some t)"
  by (auto simp: leaf_def)

lemma parse_fields_elements:
  "foldThen (parse_field what deserialize) cs p = foldThen (parse_field what deserialize) (elements cs) p"
  by (rule foldThen_filter [symmetric]) (simp add: parse_field_def)

lemma is_element_leaf [simp]: "is_element (leaf tag t)"
  by (simp add: leaf_def)

lemma bool_to_string_nonempty [simp]: "bool_to_string b \<noteq> []"
  by (simp add: bool_to_string_def)

lemma convert_bool [simp]: "convertToInt what (bool_to_string b) line = Inr (if b then 1 else 0)"
proof -
  have "show_int 1 = ''1''" "show_int 0 = ''0''"
    by (simp_all add: show_int_def show_nat.simps digit_char_def char_of_def bit_0)
  then show ?thesis
    using convertToInt_show_int [of 1 what line] convertToInt_show_int [of 0 what line]
    by (simp add: bool_to_string_def)
qed

lemma elements_mapped [simp]: "elements (map f cs) = map f (filter (\<lambda>c. is_element (f c)) cs)"
  by (simp add: filter_map comp_def)

text \<open>One field: the element that was written for it sets the member of \<open>parsed_register\<close>.\<close>

lemma parse_string_fields:
  assumes "reads_as (leaf tag t) e"
  shows "tag = ''name'' \<Longrightarrow> t \<noteq> [] \<Longrightarrow> parse_field what deserialize e p = value_of (p\<lparr>p_name := t\<rparr>)"
    and "tag = ''nodeId'' \<Longrightarrow> t \<noteq> [] \<Longrightarrow> parse_field what deserialize e p = value_of (p\<lparr>p_nodeId := t\<rparr>)"
    and "tag = ''description'' \<Longrightarrow> p_description p = [] \<Longrightarrow>
      parse_field what deserialize e p = value_of (p\<lparr>p_description := t\<rparr>)"
    and "tag = ''indexRange'' \<Longrightarrow> p_indexRange p = [] \<Longrightarrow>
      parse_field what deserialize e p = value_of (p\<lparr>p_indexRange := t\<rparr>)"
  using assms by (simp_all add: reads_as_leaf parse_field_def required_text_def)

lemma parse_number_fields:
  assumes "reads_as (leaf tag t) e"
  shows "tag = ''length'' \<Longrightarrow> t = to_string (n :: u32) \<Longrightarrow>
      parse_field what deserialize e p = value_of (p\<lparr>p_length := n\<rparr>)"
    and "tag = ''typeId'' \<Longrightarrow> t = to_string (ty :: u32) \<Longrightarrow> unat ty < 2 ^ 31 \<Longrightarrow>
      parse_field what deserialize e p = value_of (p\<lparr>p_typeId := Some ty\<rparr>)"
    and "tag = ''nameSpace'' \<Longrightarrow> t = to_string (ns :: u16) \<Longrightarrow>
      parse_field what deserialize e p = value_of (p\<lparr>p_namespaceId := Some ns\<rparr>)"
    and "tag = ''readOnly'' \<Longrightarrow> t = bool_to_string b \<Longrightarrow>
      parse_field what deserialize e p = value_of (p\<lparr>p_isReadonly := Some b\<rparr>)"
    and "tag = ''isNumeric'' \<Longrightarrow> t = bool_to_string b \<Longrightarrow>
      parse_field what deserialize e p = value_of (p\<lparr>p_isNumeric := Some b\<rparr>)"
    and "tag = ''access_mode'' \<Longrightarrow> deserialize t = Inr f \<Longrightarrow>
      parse_field what deserialize e p = value_of p"
proof -
  note facts = assms [unfolded reads_as_leaf] parse_field_def parseLength_def parseTypeId_def
  show "parse_field what deserialize e p = value_of (p\<lparr>p_length := n\<rparr>)"
    if "tag = ''length''" "t = to_string n"
    using that by (simp add: facts convertToUint_to_string)
  have small: "convertToInt what (to_string w) line = Inr (int (unat w))"
    if "unat w < 2 ^ 31" for w :: "'n::len word" and line
    using that by (simp add: to_string_def convertToInt_show_nat)
  show "parse_field what deserialize e p = value_of (p\<lparr>p_typeId := Some ty\<rparr>)"
    if "tag = ''typeId''" "t = to_string ty" "unat ty < 2 ^ 31"
    using that by (simp add: facts small)
  have "unat ns < 2 ^ LENGTH(16)" by (rule unsigned_less)
  then show "parse_field what deserialize e p = value_of (p\<lparr>p_namespaceId := Some ns\<rparr>)"
    if "tag = ''nameSpace''" "t = to_string ns"
    using that by (simp add: facts small)
  show "parse_field what deserialize e p = value_of (p\<lparr>p_isReadonly := Some b\<rparr>)"
    if "tag = ''readOnly''" "t = bool_to_string b"
    using that by (simp add: facts)
  show "parse_field what deserialize e p = value_of (p\<lparr>p_isNumeric := Some b\<rparr>)"
    if "tag = ''isNumeric''" "t = bool_to_string b"
    using that by (simp add: facts)
  show "parse_field what deserialize e p = value_of p"
    if "tag = ''access_mode''" "deserialize t = Inr f"
    using that by (cases "t = []") (simp_all add: facts parseAccessMode_def)
qed

section \<open>One register\<close>

text \<open>What the fields of a written register are read back as.\<close>

definition read_fields :: "(string \<Rightarrow> string) \<Rightarrow> string \<Rightarrow> register_info \<Rightarrow> parsed_register" where
  "read_fields normal node r = \<lparr>p_nodeId = node, p_name = normal (nodeBrowseName r),
     p_description = description r, p_indexRange = reg_indexRange r, p_isReadonly = Some (isReadonly r),
     p_isNumeric = Some (isNumeric r), p_typeId = Some (dataType r),
     p_namespaceId = Some (reg_namespaceIndex r), p_length = getNumberOfElements r\<rparr>"

lemma parse_written_fields:
  assumes "list_all2 reads_as
      [leaf ''nodeId'' node, leaf ''name'' (normal (nodeBrowseName r)), leaf ''description'' (description r),
       leaf ''length'' (to_string (getNumberOfElements r)), leaf ''access_mode'' mode,
       leaf ''readOnly'' (bool_to_string (isReadonly r)), leaf ''typeId'' (to_string (dataType r)),
       leaf ''nameSpace'' (to_string (reg_namespaceIndex r)),
       leaf ''isNumeric'' (bool_to_string (isNumeric r)), leaf ''indexRange'' (reg_indexRange r)] es"
    and "node \<noteq> []" and "normal (nodeBrowseName r) \<noteq> []" and "deserialize mode = Inr f"
    and "unat (dataType r) < 2 ^ 31"
  shows "foldThen (parse_field what deserialize) es blank_register = value_of (read_fields normal node r)"
  using assms
  by (auto simp: list_all2_Cons1 parse_string_fields parse_number_fields blank_register_def read_fields_def
      simp del: reads_as.simps)

lemma node_text_read_back:
  assumes "cacheable server normal r" and "id_text r = Some node"
  shows "node \<noteq> []" and
    "parsed_node (isNumeric r) (reg_namespaceIndex r) node = value_of (reg_id r)"
  using assms
  by (auto simp: parsed_node_def cacheable_def id_text_def is_numeric_def stoul_to_string_u32 c_str_id
      split: node_identifier.splits)

lemma addProperty_cached:
  assumes "cacheable server normal r"
  shows "addProperty join add_register (reg_id r) (normal (nodeBrowseName r)) (reg_indexRange r)
    (dataType r) (ucast (getNumberOfElements r)) server (description r) (isReadonly r) c =
    add_register (cached join normal r) c"
proof -
  from assms obtain d where d: "descriptor_of (dataType r) = Some d"
    using descriptor_of_range [of "dataType r"] by (auto simp: cacheable_def)
  have "unat (arrayLength r) mod 2 ^ 32 = unat (arrayLength r)"
    using assms by (simp add: cacheable_def word_less_nat_alt)
  then have "(ucast (getNumberOfElements r) :: u64) = arrayLength r"
    by (simp add: getNumberOfElements_def word_unat_eq_iff unsigned_ucast_eq take_bit_eq_mod unat_mod_distrib)
  moreover have "cached join normal r = (info_with_id join server (normal (nodeBrowseName r)) (reg_id r))
      \<lparr>dataType := dataType r, description := description r, arrayLength := arrayLength r,
       isReadonly := isReadonly r, waitForNewData := True, reg_indexRange := reg_indexRange r,
       dataDescriptor := Some d\<rparr>"
    using assms d by (cases r) (auto simp: cached_def cacheable_def info_with_id_def info_without_id_def
      default_info_def)
  ultimately show ?thesis using d by (simp add: addProperty_def info_with_id_def info_without_id_def Let_def)
qed

lemma parseRegister_written:
  assumes "cacheable server normal r" and "addRegInfoXmlNode normal serialize r = value_of x"
    and "reads_as x e" and "deserialize (serialize (waitForNewData r)) = Inr f"
  shows "parseRegister what deserialize join add_register server e c =
    Some (add_register (cached join normal r) c)"
proof -
  from assms(2) obtain node where node: "id_text r = Some node"
    by (auto simp: addRegInfoXmlNode_def split: option.splits)
  note readback = node_text_read_back [OF assms(1) node]
  have "dataType r \<le> 12" using assms(1) by (simp add: cacheable_def)
  then have "unat (dataType r) < 2 ^ 31" by (simp add: word_le_nat_alt)
  moreover have "normal (nodeBrowseName r) \<noteq> []" using assms(1) by (simp add: cacheable_def)
  ultimately have "foldThen (parse_field what deserialize) (get_children e) blank_register =
      value_of (read_fields normal node r)"
    using assms(2,3,4) readback(1)
    by (subst parse_fields_elements)
      (auto simp: addRegInfoXmlNode_def node intro!: parse_written_fields)
  with readback(2) addProperty_cached [OF assms(1), of join add_register c] show ?thesis
    by (simp add: parseRegister_def finish_register_def read_fields_def)
qed

section \<open>The whole file\<close>

lemma foldThen_collect:
  assumes "foldThen (\<lambda>r es. andThen (f r) (\<lambda>e. value_of (es @ [e]))) c acc = value_of es"
  shows "\<exists>xs. es = acc @ xs \<and> list_all2 (\<lambda>r x. f r = value_of x) c xs"
  using assms
proof (induction c arbitrary: acc)
  case (Cons r c)
  then obtain x where x: "f r = value_of x"
    and rest: "foldThen (\<lambda>r es. andThen (f r) (\<lambda>e. value_of (es @ [e]))) c (acc @ [x]) = value_of es"
    by (auto simp: andThen_eq_value)
  from Cons.IH [OF rest] obtain xs where "es = (acc @ [x]) @ xs"
    and "list_all2 (\<lambda>r x. f r = value_of x) c xs" by blast
  with x show ?case by (intro exI [of _ "x # xs"]) simp
qed simp

lemma saved_document:
  assumes "saveCatalogue normal serialize a c = value_of doc"
  obtains es where "list_all2 (\<lambda>r x. addRegInfoXmlNode normal serialize r = value_of x) c es"
    and "root_element doc = Element ''catalogue'' [(''version'', ''1.0'')] 0
      (Element ''general'' [] 0 [Element ''serverAddress'' [] 0
        (case c of [] \<Rightarrow> [] | r # _ \<Rightarrow> [Text (reg_serverAddress r)])] # es)"
    and "root_namespace doc = expected_namespace"
proof -
  from assms have "catalogue_document normal serialize c = value_of doc"
    by (cases "unique_path a")
      (auto simp: saveCatalogue_def andThen_eq_value split: if_splits option.splits)
  then obtain es where "foldThen (\<lambda>r es. andThen (addRegInfoXmlNode normal serialize r)
      (\<lambda>e. value_of (es @ [e]))) c [] = value_of es"
    and "doc = \<lparr>root_element = Element ''catalogue'' [(''version'', ''1.0'')] 0
           (Element ''general'' [] 0 [Element ''serverAddress'' [] 0
              (case c of [] \<Rightarrow> [] | r # _ \<Rightarrow> [Text (reg_serverAddress r)])] # es),
         root_namespace = expected_namespace\<rparr>"
    by (auto simp: catalogue_document_def andThen_eq_value)
  then show ?thesis using foldThen_collect [of "addRegInfoXmlNode normal serialize" c "[]" es]
    by (intro that [of es]) auto
qed

text \<open>The children of the root element after reading the file back.\<close>

lemma read_back_children:
  assumes "reads_as (Element ''catalogue'' as 0 (g # es)) (root_element d)"
    and "is_element g" and "\<forall>e \<in> set es. is_element e"
  obtains g' es' where "elements (get_children (root_element d)) = g' # es'"
    and "reads_as g g'" and "list_all2 reads_as es es'"
proof -
  from assms(2,3) have "leaf_text (g # es) = None" and "elements (g # es) = g # es"
    by (cases g; cases es; auto)+
  with assms(1) show ?thesis by (auto simp: list_all2_Cons1 intro: that)
qed

lemma parse_address_general:
  assumes "reads_as (Element ''general'' [] 0 [Element ''serverAddress'' [] 0 cs]) g"
    and "leaf_text cs = Some server"
  shows "parse_address g address = (if server = [] then None else value_of server)"
proof -
  from assms obtain a where a: "elements (get_children g) = [a]" "is_element a"
      "get_name a = ''serverAddress''" "get_child_text a = (if server = [] then None else Some server)"
    by (auto simp: list_all2_Cons1)
  from assms(1) have g: "is_element g" "get_name g = ''general''" by auto
  let ?f = "\<lambda>e address. if is_element e \<and> get_name e = ''serverAddress'' then required_text e
              else value_of address"
  have "foldThen ?f (get_children g) address = foldThen ?f (elements (get_children g)) address"
    by (rule foldThen_filter [symmetric]) simp
  also have "\<dots> = (if server = [] then None else value_of server)"
    using a by (simp add: required_text_def)
  finally show ?thesis using g by (simp add: parse_address_def)
qed

lemma parse_address_skips: "get_name e \<noteq> ''general'' \<Longrightarrow> parse_address e address = value_of address"
  by (simp add: parse_address_def)

lemma written_register_element:
  assumes "addRegInfoXmlNode normal serialize r = value_of x"
  shows "is_element x" and "get_name x = ''register''"
  using assms by (auto simp: addRegInfoXmlNode_def split: option.splits)

lemma addresses_skipped:
  "\<forall>e \<in> set es. get_name e = ''register'' \<Longrightarrow> foldThen parse_address es address = value_of address"
  by (induction es) (auto simp: parse_address_skips)

text \<open>The second pass over the root's children: one register is parsed after the other.\<close>

lemma registers_read_back:
  assumes "list_all2 (\<lambda>r e. \<exists>x. addRegInfoXmlNode normal serialize r = value_of x \<and> reads_as x e) rs es"
    and modes: "\<And>b. \<exists>f. deserialize (serialize b) = Inr f"
    and adds: "\<And>r c. path r \<notin> path ` set c \<Longrightarrow> add_register r c = Inr (c @ [r])"
    and "\<forall>r \<in> set rs. cacheable server normal r"
    and "distinct (map path (acc @ map (cached join normal) rs))"
  shows "foldThen (\<lambda>node c. if is_element node \<and> get_name node \<noteq> ''general''
         then parseRegister what deserialize join add_register server node c else value_of c) es acc =
    value_of (acc @ map (cached join normal) rs)"
  using assms(1,4,5)
proof (induction arbitrary: acc rule: list_all2_induct)
  case (Cons r rs e es)
  from Cons.hyps(1) obtain x where x: "addRegInfoXmlNode normal serialize r = value_of x" "reads_as x e"
    by blast
  from written_register_element [OF x(1)] x(2) have e: "is_element e" "get_name e = ''register''"
    by (cases x; auto)+
  from modes obtain f where "deserialize (serialize (waitForNewData r)) = Inr f" by blast
  moreover have "cacheable server normal r" using Cons.prems(1) by simp
  ultimately have "parseRegister what deserialize join add_register server e acc =
      Some (add_register (cached join normal r) acc)"
    by (intro parseRegister_written [OF _ x])
  moreover have "add_register (cached join normal r) acc = Inr (acc @ [cached join normal r])"
    using Cons.prems(2) by (intro adds) auto
  ultimately show ?case
    using e Cons.IH [of "acc @ [cached join normal r]"] Cons.prems by simp
qed simp

lemma reading_pass_elements:
  "foldThen (\<lambda>node c. if is_element node \<and> get_name node \<noteq> ''general''
      then f node c else value_of c) cs c =
   foldThen (\<lambda>node c. if is_element node \<and> get_name node \<noteq> ''general''
      then f node c else value_of c) (elements cs) c"
  "foldThen parse_address cs address = foldThen parse_address (elements cs) address"
  by (rule foldThen_filter [symmetric]; simp add: parse_address_def)+

section \<open>Properties\<close>

text \<open>The documents a parser can return for a saved one.\<close>

definition reread :: "document \<Rightarrow> document \<Rightarrow> bool" where
  "reread doc d \<longleftrightarrow> reads_as (root_element doc) (root_element d) \<and> root_namespace d = root_namespace doc"

lemma readCatalogue_loaded:
  assumes "load xmlfile = Inr d" and "root_namespace d = expected_namespace"
  shows "readCatalogue what deserialize join add_register load xmlfile =
    andThen (foldThen parse_address (get_children (root_element d)) []) (\<lambda>server.
     foldThen (\<lambda>node c. if is_element node \<and> get_name node \<noteq> ''general''
         then parseRegister what deserialize join add_register server node c else value_of c)
       (get_children (root_element d)) [])"
  using assms by (simp add: readCatalogue_def createDomParser_def getRootNode_def)

lemma cached_roundtrip:
  assumes "saveCatalogue normal serialize a c = value_of doc" and "reread doc d" and "load xmlfile = Inr d"
    and "c \<noteq> []" and "server \<noteq> []" and cs: "\<forall>r \<in> set c. cacheable server normal r"
    and paths: "distinct (map (path \<circ> cached join normal) c)"
    and modes: "\<And>b. \<exists>f. deserialize (serialize b) = Inr f"
    and adds: "\<And>r c. path r \<notin> path ` set c \<Longrightarrow> add_register r c = Inr (c @ [r])"
  shows "readCatalogue what deserialize join add_register load xmlfile = value_of (map (cached join normal) c)"
proof -
  let ?address = "case c of [] \<Rightarrow> [] | r # _ \<Rightarrow> [Text (reg_serverAddress r)]"
  let ?general = "Element ''general'' [] 0 [Element ''serverAddress'' [] 0 ?address]"
  from saved_document [OF assms(1)] obtain es
    where es: "list_all2 (\<lambda>r x. addRegInfoXmlNode normal serialize r = value_of x) c es"
      and doc: "root_element doc = Element ''catalogue'' [(''version'', ''1.0'')] 0 (?general # es)"
      and ns: "root_namespace doc = expected_namespace" by blast
  have reg: "is_element x \<and> get_name x = ''register''" if "x \<in> set es" for x
    using list_all2_set2 [OF es that] written_register_element by blast
  from assms(2) doc have "reads_as (Element ''catalogue'' [(''version'', ''1.0'')] 0 (?general # es))
      (root_element d)" by (simp add: reread_def del: reads_as.simps)
  then obtain g es' where kids: "elements (get_children (root_element d)) = g # es'"
    and g: "reads_as ?general g" and es': "list_all2 reads_as es es'"
    using reg by (elim read_back_children) simp_all
  have names: "\<forall>e \<in> set es'. get_name e = ''register''"
  proof
    fix e
    assume "e \<in> set es'"
    with list_all2_set2 [OF es'] obtain x where "x \<in> set es" "reads_as x e" by blast
    with reg [of x] show "get_name e = ''register''" by (cases x) auto
  qed
  have "leaf_text ?address = Some server"
    using \<open>c \<noteq> []\<close> cs by (cases c) (auto simp: cacheable_def)
  then have address: "foldThen parse_address (g # es') [] = value_of server"
    using \<open>server \<noteq> []\<close> names by (simp add: parse_address_general [OF g] addresses_skipped)
  have "list_all2 (\<lambda>r e. \<exists>x. addRegInfoXmlNode normal serialize r = value_of x \<and> reads_as x e) c es'"
    by (rule list_all2_trans [OF _ es es']) blast
  then have regs: "foldThen (\<lambda>node c. if is_element node \<and> get_name node \<noteq> ''general''
         then parseRegister what deserialize join add_register server node c else value_of c) es' [] =
    value_of ([] @ map (cached join normal) c)"
    by (rule registers_read_back) (use modes adds cs paths in \<open>simp_all add: comp_def\<close>)
  have "is_element g" "get_name g = ''general''" using g by auto
  moreover have "root_namespace d = expected_namespace" using assms(2) ns by (simp add: reread_def)
  ultimately show ?thesis
    unfolding readCatalogue_loaded [where load = load and xmlfile = xmlfile, OF assms(3) \<open>root_namespace d = expected_namespace\<close>]
    by (subst reading_pass_elements(2), subst reading_pass_elements(1)) (simp add: kids address [simplified] regs [simplified])
qed

text \<open>
  C10: What was saved is what is read: if a catalogue of registers of one server was written, reading
  the file back yields the same registers in the same order, up to the members the file does not
  hold, whose values are those that \<open>cached\<close> gives (the path in normal form, no unit, waiting for new data
  supported, the descriptor recomputed from the type).
\<close>

theorem cache_roundtrip:
  assumes "saveCatalogue normal serialize a c = value_of doc" and "reread doc d" and "load xmlfile = Inr d"
    and "c \<noteq> []" and "server \<noteq> []" and cs: "\<forall>r \<in> set c. cacheable server normal r"
    and paths: "distinct (map (path \<circ> cached join normal) c)"
    and modes: "\<And>b. \<exists>f. deserialize (serialize b) = Inr f"
    and adds: "\<And>r c. path r \<notin> path ` set c \<Longrightarrow> add_register r c = Inr (c @ [r])"
  shows "readCatalogue what deserialize join add_register load xmlfile = value_of (map (cached join normal) c)"
  using assms(1-3,4,5) cs paths modes adds by (rule cached_roundtrip)

text \<open>A concrete instance: a path is joined with a slash, a name is its own normal form, a register
  whose path exists is refused.\<close>

definition slash_join :: "string \<Rightarrow> string \<Rightarrow> string" where
  "slash_join server name = server @ ''/'' @ name"

definition append_new :: "register_info \<Rightarrow> catalogue \<Rightarrow> exn + catalogue" where
  "append_new r c = (if path r \<in> path ` set c then Inl (Logic_error ''exists'') else Inr (c @ [r]))"

definition sample_register :: "node_id \<Rightarrow> string \<Rightarrow> register_info" where
  "sample_register node name =
     (info_with_id slash_join ''opc.tcp://h'' name node)\<lparr>dataType := 6, description := ''d'',
       arrayLength := 3, isReadonly := False, waitForNewData := True, reg_indexRange := ''0:2'',
       dataDescriptor := descriptor_of 6\<rparr>"

definition sample_catalogue :: catalogue where
  "sample_catalogue =
     [sample_register \<lparr>namespaceIndex = 1, node_identifier = Numeric 20\<rparr> ''numeric/20'',
      sample_register \<lparr>namespaceIndex = 2, node_identifier = Str ''a/b''\<rparr> ''a/b'']"

definition good_save :: save_answer where
  "good_save = \<lparr>unique_path = Inr ''tmp'', temporary_empty = False, rename_error = None\<rparr>"

lemma reads_as_same_leaf [simp]: "t \<noteq> [] \<Longrightarrow> reads_as (leaf tag t) (leaf tag t)"
  by (simp add: leaf_def get_child_text_def)

lemma sample_saved:
  obtains doc where "saveCatalogue id (\<lambda>b. ''wait_for_new_data'') good_save sample_catalogue = value_of doc"
    and "reread doc doc"
proof -
  let ?doc = "\<lambda>es. \<lparr>root_element = Element ''catalogue'' [(''version'', ''1.0'')] 0
      (Element ''general'' [] 0 [Element ''serverAddress'' [] 0 [Text ''opc.tcp://h'']] # es),
    root_namespace = expected_namespace\<rparr>"
  obtain x y where xy: "map (addRegInfoXmlNode id (\<lambda>b. ''wait_for_new_data'')) sample_catalogue =
      [value_of x, value_of y]" and "reads_as x x" "reads_as y y" "is_element x" "is_element y"
    by (simp add: sample_catalogue_def sample_register_def info_with_id_def info_without_id_def
        default_info_def addRegInfoXmlNode_def id_text_def is_numeric_def del: reads_as.simps)
      (auto simp: reads_as.simps(1))
  then have "reread (?doc [x, y]) (?doc [x, y])"
    by (cases x; cases y) (simp_all add: reread_def get_child_text_def)
  moreover have "saveCatalogue id (\<lambda>b. ''wait_for_new_data'') good_save sample_catalogue =
      value_of (?doc [x, y])"
    using xy by (simp add: saveCatalogue_def catalogue_document_def good_save_def sample_catalogue_def
        sample_register_def info_with_id_def info_without_id_def default_info_def)
  ultimately show ?thesis using that by blast
qed

theorem cache_roundtrip_witness:
  "\<exists>doc. readCatalogue (\<lambda>e. []) Inr slash_join append_new (\<lambda>f. Inr doc) ''c.xml'' =
     value_of sample_catalogue"
proof -
  obtain doc where saved: "saveCatalogue id (\<lambda>b. ''wait_for_new_data'') good_save sample_catalogue =
      value_of doc" and re: "reread doc doc" by (rule sample_saved)
  have same: "map (cached slash_join id) sample_catalogue = sample_catalogue"
    by (simp add: sample_catalogue_def sample_register_def cached_def info_with_id_def
        info_without_id_def default_info_def)
  have "readCatalogue (\<lambda>e. []) Inr slash_join append_new (\<lambda>f. Inr doc) ''c.xml'' =
      value_of (map (cached slash_join id) sample_catalogue)"
  proof (rule cache_roundtrip [OF saved re, where server = "''opc.tcp://h''"])
    show "\<forall>r \<in> set sample_catalogue. cacheable ''opc.tcp://h'' id r"
      by (simp add: sample_catalogue_def sample_register_def cacheable_def info_with_id_def
          info_without_id_def default_info_def is_numeric_def)
    show "distinct (map (path \<circ> cached slash_join id) sample_catalogue)"
      by (simp add: sample_catalogue_def sample_register_def cached_def slash_join_def
          info_with_id_def info_without_id_def default_info_def)
  qed (simp_all add: sample_catalogue_def append_new_def)
  with same show ?thesis by auto
qed

text \<open>
  The cache of an empty catalogue (browsing found no variable) is written without an error, but
  has no server address: reading it back dereferences a null pointer instead of falling back to
  browsing.
\<close>

theorem empty_cache_undefined:
  assumes "saveCatalogue normal serialize a [] = value_of doc" and "reread doc d" and "load xmlfile = Inr d"
  shows "readCatalogue what deserialize join add_register load xmlfile = None"
proof -
  let ?general = "Element ''general'' [] 0 [Element ''serverAddress'' [] 0 []]"
  from saved_document [OF assms(1)] have doc: "root_element doc = Element ''catalogue''
      [(''version'', ''1.0'')] 0 [?general]" and ns: "root_namespace doc = expected_namespace" by auto
  from assms(2) doc have "reads_as (Element ''catalogue'' [(''version'', ''1.0'')] 0 [?general])
      (root_element d)" by (simp add: reread_def del: reads_as.simps)
  then obtain g es' where kids: "elements (get_children (root_element d)) = g # es'"
    and g: "reads_as ?general g" by (elim read_back_children) simp_all
  have "root_namespace d = expected_namespace" using assms(2) ns by (simp add: reread_def)
  then show ?thesis
    unfolding readCatalogue_loaded [where load = load and xmlfile = xmlfile, OF assms(3) \<open>root_namespace d = expected_namespace\<close>]
    by (subst reading_pass_elements(2)) (simp add: kids parse_address_general [OF g])
qed

theorem empty_cache_undefined_witness:
  "\<exists>doc. readCatalogue (\<lambda>e. []) Inr slash_join append_new (\<lambda>f. Inr doc) ''c.xml'' = None"
proof -
  let ?doc = "\<lparr>root_element = Element ''catalogue'' [(''version'', ''1.0'')] 0
      [Element ''general'' [] 0 [Element ''serverAddress'' [] 0 []]], root_namespace = expected_namespace\<rparr>"
  have "saveCatalogue id (\<lambda>b. ''x'') good_save [] = value_of ?doc"
    by (simp add: saveCatalogue_def catalogue_document_def good_save_def)
  moreover have "reread ?doc ?doc" by (simp add: reread_def get_child_text_def)
  ultimately show ?thesis by (intro exI [of _ ?doc] empty_cache_undefined) auto
qed

end
