(* ===== verification/Map_File.thy ===== *)
theory Map_File
  imports Xml_Tools Subscription_State
begin

text \<open>
  The XML map file (\<^verbatim>\<open>src/MapFile.cc\<close>): the \<open>pv\<close> elements below the root become map elements
  with a numeric or a string node id.
\<close>

section \<open>Elements\<close>

record map_element =
  me_namespace :: u16
  strNode :: string
  iNode :: u32
  me_node :: node_id
  me_range :: string
  me_name :: string

definition MapElement_numeric :: "u32 \<Rightarrow> u16 \<Rightarrow> string \<Rightarrow> string \<Rightarrow> map_element" where
  "MapElement_numeric i ns rng name =
     \<lparr>me_namespace = ns, strNode = [], iNode = i,
      me_node = \<lparr>namespaceIndex = ns, node_identifier = Numeric i\<rparr>, me_range = rng, me_name = name\<rparr>"

definition MapElement_string :: "string \<Rightarrow> u16 \<Rightarrow> string \<Rightarrow> string \<Rightarrow> map_element" where
  "MapElement_string i ns rng name =
     \<lparr>me_namespace = ns, strNode = i, iNode = 0,
      me_node = \<lparr>namespaceIndex = ns, node_identifier = Str (c_str i)\<rparr>, me_range = rng,
      me_name = name\<rparr>"

text \<open>
  The nested \<open>try\<close> blocks for one \<open>pv\<close> element: a failure of either conversion to a number that is
  an \<open>std::invalid_argument\<close> leads to a string node id, and \<open>None\<close> stands for a line that is logged
  and skipped. \<open>std::stoul\<close> accepts any text that starts with a number.
\<close>

definition string_entry :: "string \<Rightarrow> string \<Rightarrow> string \<Rightarrow> string \<Rightarrow> string \<Rightarrow> map_element option" where
  "string_entry serverRootNode node nsString rng name =
     (case stoul nsString of
        Inr ns \<Rightarrow> Some (MapElement_string (serverRootNode @ node) (ucast ns) rng name)
      | Inl _ \<Rightarrow> None)"

definition parse_pv :: "string \<Rightarrow> string \<Rightarrow> string \<Rightarrow> string \<Rightarrow> string \<Rightarrow> map_element option" where
  "parse_pv serverRootNode node nsString rng name =
     (case stoul node of
        Inr i \<Rightarrow>
          (case stoul nsString of
             Inr ns \<Rightarrow> Some (MapElement_numeric (ucast i) (ucast ns) rng name)
           | Inl e \<Rightarrow> if e = Invalid_argument then string_entry serverRootNode node nsString rng name
                      else None)
      | Inl e \<Rightarrow> if e = Invalid_argument then string_entry serverRootNode node nsString rng name
                 else None)"

definition attribute_or_empty :: "xml \<Rightarrow> string \<Rightarrow> string" where
  "attribute_or_empty reg k = (case get_attribute reg k of None \<Rightarrow> [] | Some v \<Rightarrow> v)"

definition readElement :: "string \<Rightarrow> xml \<Rightarrow> map_element list \<Rightarrow> map_element list outcome" where
  "readElement serverRootNode i es =
     (if \<not> is_element i \<or> get_name i \<noteq> ''pv'' then value_of es
      else (case get_child_text i of
              None \<Rightarrow> None
            | Some node \<Rightarrow>
                value_of (es @ (case parse_pv serverRootNode node (attribute_or_empty i ''ns'')
                                    (attribute_or_empty i ''range'') (attribute_or_empty i ''name'') of
                                  None \<Rightarrow> [] | Some e \<Rightarrow> [e]))))"

definition readElements :: "string \<Rightarrow> xml \<Rightarrow> map_element list outcome" where
  "readElements serverRootNode xmlRoot = foldThen (readElement serverRootNode) (get_children xmlRoot) []"

definition OPCUAMapFileReader ::
    "(string \<Rightarrow> string + document) \<Rightarrow> string \<Rightarrow> string \<Rightarrow> map_element list outcome" where
  "OPCUAMapFileReader load filePath rootNode =
     andThen (Some (createDomParser load filePath)) (\<lambda>d.
     andThen (Some (getRootNode d ''opcua_map'')) (readElements rootNode))"

section \<open>Properties\<close>

text \<open>Map entries, and what makes a \<open>pv\<close> element one of them: its text is the node id and its attributes are the
  name space and, where they are not empty, the range and the name, in any order and on any line.\<close>

datatype entry =
    Numeric_entry u32 u16 string string
  | String_entry string u16 string string

definition is_pv :: "xml \<Rightarrow> bool" where
  "is_pv x \<longleftrightarrow> is_element x \<and> get_name x = ''pv''"

definition pv_with :: "xml \<Rightarrow> string \<Rightarrow> u16 \<Rightarrow> string \<Rightarrow> string \<Rightarrow> bool" where
  "pv_with x node ns rng name \<longleftrightarrow> is_pv x \<and> get_child_text x = Some node \<and>
     get_attribute x ''ns'' = Some (to_string ns) \<and>
     attribute_or_empty x ''range'' = rng \<and> attribute_or_empty x ''name'' = name"

fun written_as :: "entry \<Rightarrow> xml \<Rightarrow> bool" where
  "written_as (Numeric_entry i ns rng name) x \<longleftrightarrow> pv_with x (to_string i) ns rng name"
| "written_as (String_entry i ns rng name) x \<longleftrightarrow> pv_with x i ns rng name"

fun entry_element :: "string \<Rightarrow> entry \<Rightarrow> map_element" where
  "entry_element prfx (Numeric_entry i ns rng name) = MapElement_numeric i ns rng name"
| "entry_element prfx (String_entry i ns rng name) = MapElement_string (prfx @ i) ns rng name"

fun not_a_number :: "entry \<Rightarrow> bool" where
  "not_a_number (Numeric_entry _ _ _ _) = True"
| "not_a_number (String_entry i _ _ _) = (parse_integer i = None)"

lemma stoul_to_string_u16: "stoul (to_string (w :: u16)) = Inr (ucast w)"
proof -
  have "unat w < 2 ^ LENGTH(16)" by (rule unsigned_less)
  then show ?thesis by (simp add: to_string_def stoul_show_nat)
qed

lemma u16_through_u64 [simp]: "ucast (ucast (w :: u16) :: u64) = w"
  by transfer simp

lemma stoul_not_a_number: "parse_integer i = None \<Longrightarrow> stoul i = Inl Invalid_argument"
  by (simp add: stoul_def)

lemma readElement_entry:
  assumes "written_as e x" and "not_a_number e"
  shows "readElement prfx x es = value_of (es @ [entry_element prfx e])"
proof -
  have ns: "attribute_or_empty x ''ns'' = to_string ns" if "pv_with x t ns rng name" for t ns rng name
    using that by (simp add: pv_with_def attribute_or_empty_def)
  from assms show ?thesis
    by (cases e) (auto simp: ns pv_with_def is_pv_def readElement_def parse_pv_def
      string_entry_def stoul_to_string_u16 stoul_to_string_u32 stoul_not_a_number)
qed

text \<open>
  C34: A map file with one \<open>pv\<close> element per entry reads as the list of its entries, in order: numeric ids
  and name spaces as written, and string ids behind the server's root node, as long as they do not start with a
  number (those that do are taken for numeric ids). The elements may stand on any lines, a range and a name that are
  empty may be left out, and anything between the elements is ignored.
\<close>

theorem readElements_entries:
  assumes "list_all2 written_as entries (filter is_pv cs)" and "\<forall>e \<in> set entries. not_a_number e"
  shows "readElements prfx (Element tag as line cs) = value_of (map (entry_element prfx) entries)"
proof -
  have "foldThen (readElement prfx) xs acc = value_of (acc @ map (entry_element prfx) es)"
    if "list_all2 written_as es xs" "\<forall>e \<in> set es. not_a_number e" for es xs acc
    using that
  proof (induction es xs arbitrary: acc rule: list_all2_induct)
    case (Cons e es x xs)
    then show ?case using readElement_entry [of e x prfx acc] by simp
  qed simp
  from this [OF assms, of "[]"] have "foldThen (readElement prfx) (filter is_pv cs) [] =
      value_of (map (entry_element prfx) entries)" by simp
  moreover have "foldThen (readElement prfx) (filter is_pv cs) [] = foldThen (readElement prfx) cs []"
    by (rule foldThen_filter) (auto simp: readElement_def is_pv_def)
  ultimately show ?thesis by (simp add: readElements_def)
qed

theorem readElements_entries_witness:
  "readElements ''srv/'' (Element ''opcua_map'' [] 1 [Text ''  '',
      Element ''pv'' [(''name'', ''a''), (''ns'', ''1'')] 2 [Text ''123''], Comment ''x'',
      Element ''pv'' [(''ns'', ''2''), (''range'', ''0:3'')] 3 [Text ''dir/var'']]) =
    value_of [MapElement_numeric 123 1 [] ''a'', MapElement_string ''srv/dir/var'' 2 ''0:3'' []]"
proof -
  let ?es = "[Numeric_entry 123 1 [] ''a'', String_entry ''dir/var'' 2 ''0:3'' []]"
  let ?cs = "[Text ''  '', Element ''pv'' [(''name'', ''a''), (''ns'', ''1'')] 2 [Text ''123''], Comment ''x'',
      Element ''pv'' [(''ns'', ''2''), (''range'', ''0:3'')] 3 [Text ''dir/var'']]"
  have digits: "digit_char (Suc 0) = CHR ''1''" "digit_char 2 = CHR ''2''" "digit_char 3 = CHR ''3''"
    by code_simp+
  have "list_all2 written_as ?es (filter is_pv ?cs)"
    using digits by (simp add: is_pv_def pv_with_def get_child_text_def attribute_or_empty_def to_string_def show_nat.simps)
  moreover have "\<forall>e \<in> set ?es. not_a_number e"
    by (simp add: parse_integer_def parse_sign_def is_space_def is_digit_def)
  ultimately show ?thesis
    using readElements_entries [of ?es ?cs "''srv/''"] by simp
qed

text \<open>
  A string node id that starts with a number is taken for a numeric id: the rest of the text and
  the server's root node are dropped.
\<close>

theorem numeric_prefix_drops_name:
  assumes "parse_integer node = Some (False, n)" and "n < 2 ^ 32"
  shows "parse_pv prfx node (to_string (ns :: u16)) rng name =
    Some (MapElement_numeric (word_of_nat n) ns rng name)"
proof -
  have "stoul node = Inr (word_of_nat n)" using assms by (simp add: stoul_def)
  moreover have "ucast (word_of_nat n :: u64) = (word_of_nat n :: u32)"
    by transfer (simp add: take_bit_take_bit)
  ultimately show ?thesis by (simp add: parse_pv_def stoul_to_string_u16)
qed

theorem numeric_prefix_drops_name_witness:
  "parse_pv ''srv/'' ''12/temperature'' (to_string (1 :: u16)) [] [] =
     Some (MapElement_numeric 12 1 [] [])"
proof -
  have "parse_integer ''12/temperature'' = Some (False, 12)"
    by (simp add: parse_integer_def parse_sign_def is_space_def is_digit_def nat_of_digits_def)
  from numeric_prefix_drops_name [OF this, of "''srv/''" 1 "[]" "[]"] show ?thesis by simp
qed

text \<open>
  A \<open>pv\<close> element without text dereferences a null pointer, whatever the other elements are.
\<close>

theorem empty_pv_undefined:
  assumes "Element ''pv'' as l [] \<in> set cs"
  shows "readElements prfx (Element tag bs line cs) = None"
proof -
  from assms obtain us vs where cs: "cs = us @ Element ''pv'' as l [] # vs"
    by (auto simp: in_set_conv_decomp)
  have none: "readElement prfx (Element ''pv'' as l []) es = None" for es
    by (simp add: readElement_def get_child_text_def)
  have step: "readElement prfx c es = None \<or> (\<exists>es'. readElement prfx c es = value_of es')" for c es
    by (auto simp: readElement_def split: option.split)
  have "foldThen (readElement prfx) us es = None \<or> (\<exists>es'. foldThen (readElement prfx) us es = value_of es')"
    for es
  proof (induction us arbitrary: es)
    case (Cons c us)
    from step [of c es] Cons.IH show ?case by (elim disjE exE) simp_all
  qed simp
  from this [of "[]"] show ?thesis
    by (auto simp: readElements_def cs foldThen_append none)
qed

theorem empty_pv_undefined_witness:
  "readElements [] (Element ''opcua_map'' [] 1 [Element ''pv'' [(''ns'', ''1'')] 2 [Text ''5''],
     Element ''pv'' [(''ns'', ''1'')] 3 []]) = None"
  by (rule empty_pv_undefined [of "[(''ns'', ''1'')]" 3]) simp

end
