(* ===== verification/Catalogue.thy ===== *)
theory Catalogue
  imports Catalogue_Cache Map_File "HOL-Library.Sublist"
begin

text \<open>
  How the catalogue is filled (\<^verbatim>\<open>src/OPC-UA-Backend.cc\<close>): one entry per variable node
  (\<open>addCatalogueEntry\<close>), found by browsing the server (\<open>browseRecursive\<close>) or listed in a map file
  (\<open>getNodesFromMapfile\<close>). What the server answers is the record \<open>server\<close>; the parsing of a
  numeric range, the tokenizer of Boost and the catalogue container are parameters.
\<close>

unbundle bit_operations_syntax

section \<open>The server\<close>

text \<open>A value is a scalar or an array with its length; an empty variant is an array of length 0.\<close>

datatype value_shape = Scalar | Array u64

datatype node_class = Object_node | Variable_node | Other_node

text \<open>What the service calls return for a node, \<open>None\<close> being a bad status code. The type of a value is
  given by what \<open>identifier.numeric\<close> reads of its id. \<open>browse\<close> lists the forward references.\<close>

record server =
  read_data_type :: "node_id \<Rightarrow> u32 option"
  read_description :: "node_id \<Rightarrow> string option"
  read_shape :: "node_id \<Rightarrow> value_shape option"
  read_access_level :: "node_id \<Rightarrow> u8 option"
  browse :: "node_id \<Rightarrow> (node_class \<times> node_id) list"

section \<open>One entry\<close>

text \<open>The root name without a trailing \<^verbatim>\<open>Dir\<close>. The test compares with \<open>length() - 3\<close>, which wraps around
  for a short name.\<close>

definition local_root_name :: "string \<Rightarrow> string" where
  "local_root_name rootNode =
     (let p = rfind rootNode ''Dir''
      in if p = word_of_nat (length rootNode) - 3 then substr0 rootNode p else rootNode)"

definition local_node_name :: "string \<Rightarrow> node_id \<Rightarrow> string option \<Rightarrow> exn + string" where
  "local_node_name rootNode node nodeName =
     (case nodeName of
        Some n \<Rightarrow> Inr n
      | None \<Rightarrow>
          let s = (case node_identifier node of
                     Str t \<Rightarrow> t
                   | Numeric i \<Rightarrow> ''numeric/'' @ to_string i
                   | Opaque i \<Rightarrow> ''numeric/'' @ to_string i)
          in (case s of
                [] \<Rightarrow> Inl Out_of_range
              | ch # t \<Rightarrow> Inr (drop (length (local_root_name rootNode)) (if ch = CHR ''/'' then t else s))))"

text \<open>
  The number of elements: \<open>Some None\<close> when the variable is skipped, \<open>None\<close> when the parsed range has
  no dimension, whose pointer is null and is dereferenced. The length of a range is computed with
  32 bits.
\<close>

definition element_count ::
    "(string \<Rightarrow> (u32 \<times> u32) list) \<Rightarrow> value_shape \<Rightarrow> string \<Rightarrow> u64 option option" where
  "element_count parse_range shape rng =
     (case shape of
        Scalar \<Rightarrow> Some (Some 1)
      | Array n \<Rightarrow>
          if n = 0 then Some None
          else if rng = [] then Some (Some n)
          else (case parse_range (c_str rng) of
                  [] \<Rightarrow> None
                | [(mn, mx)] \<Rightarrow> Some (Some (ucast (mx - mn + 1)))
                | _ \<Rightarrow> Some None))"

definition UA_ACCESSLEVELMASK_WRITE :: u8 where
  "UA_ACCESSLEVELMASK_WRITE = 2"

definition addCatalogueEntry ::
    "(string \<Rightarrow> string \<Rightarrow> string) \<Rightarrow> (register_info \<Rightarrow> catalogue \<Rightarrow> exn + catalogue) \<Rightarrow>
     (string \<Rightarrow> (u32 \<times> u32) list) \<Rightarrow> server \<Rightarrow> string \<Rightarrow> string \<Rightarrow>
     node_id \<Rightarrow> string option \<Rightarrow> string \<Rightarrow> catalogue \<Rightarrow> catalogue result" where
  "addCatalogueEntry join add_register parse_range srv address rootNode node nodeName rng c =
     (case local_node_name rootNode node nodeName of
        Inl e \<Rightarrow> Throws e c
      | Inr name \<Rightarrow>
     (case read_data_type srv node of
        None \<Rightarrow> Done c
      | Some typ \<Rightarrow>
          if 12 < typ \<or> typ < 1 then Done c
          else let descr = (case read_description srv node of None \<Rightarrow> [] | Some d \<Rightarrow> d) in
     (case read_shape srv node of
        None \<Rightarrow> Done c
      | Some shape \<Rightarrow>
     (case element_count parse_range shape rng of
        None \<Rightarrow> Undefined
      | Some None \<Rightarrow> Done c
      | Some (Some len) \<Rightarrow>
     (case read_access_level srv node of
        None \<Rightarrow> Done c
      | Some level \<Rightarrow>
          from_sum c (addProperty join add_register node name rng typ len address descr
            (level AND UA_ACCESSLEVELMASK_WRITE = 0) c))))))"

section \<open>Browsing\<close>

text \<open>
  \<open>browseRecursive\<close>: object nodes are entered, variables with a string id are added. The first
  argument adds a node, the second bounds the depth of the recursion: \<open>Blocked\<close> when it is not
  enough.
\<close>

definition has_string_id :: "node_id \<Rightarrow> bool" where
  "has_string_id n = (case node_identifier n of Str _ \<Rightarrow> True | _ \<Rightarrow> False)"

primrec browseRecursive ::
    "(node_id \<Rightarrow> 'c \<Rightarrow> 'c result) \<Rightarrow> server \<Rightarrow> nat \<Rightarrow> node_id \<Rightarrow> 'c \<Rightarrow> 'c result" where
  "browseRecursive add srv 0 startingNode = (\<lambda>c. Blocked)"
| "browseRecursive add srv (Suc depth) startingNode =
     run_all (\<lambda>(class, node) c.
         if class = Object_node then browseRecursive add srv depth node c
         else if class = Variable_node \<and> has_string_id node then add node c
         else Done c)
       (browse srv startingNode)"

section \<open>Map files\<close>

text \<open>The lines of a legacy map file: \<open>name\<close> is the first of three tokens.\<close>

definition legacy_node ::
    "(node_id \<Rightarrow> string option \<Rightarrow> 'c \<Rightarrow> 'c result) \<Rightarrow> string \<Rightarrow> string option \<Rightarrow> string \<Rightarrow> string \<Rightarrow>
     'c \<Rightarrow> 'c result" where
  "legacy_node add rootNode name node nsString c =
     on_throw (\<lambda>e c.
         if e = Invalid_argument
         then on_throw (\<lambda>e c. if e = Invalid_argument \<or> e = Out_of_range then Done c else Throws e c)
                (case stoul nsString of
                   Inl e \<Rightarrow> Throws e c
                 | Inr ns \<Rightarrow> add \<lparr>namespaceIndex = ucast ns,
                                 node_identifier = Str (c_str (rootNode @ node))\<rparr> name c)
         else if e = Out_of_range then Done c else Throws e c)
       (case stoul node of
          Inl e \<Rightarrow> Throws e c
        | Inr i \<Rightarrow>
       (case stoul nsString of
          Inl e \<Rightarrow> Throws e c
        | Inr ns \<Rightarrow> add \<lparr>namespaceIndex = ucast ns, node_identifier = Numeric (ucast i)\<rparr> name c))"

definition legacy_line ::
    "(node_id \<Rightarrow> string option \<Rightarrow> 'c \<Rightarrow> 'c result) \<Rightarrow> (string \<Rightarrow> string list) \<Rightarrow> string \<Rightarrow> string \<Rightarrow>
     'c \<Rightarrow> 'c result" where
  "legacy_line add tokenize rootNode line c =
     (if line = [] \<or> hd line = CHR ''#'' \<or> hd line = CHR ''<'' then Done c
      else (case tokenize line of
              [node, ns] \<Rightarrow> legacy_node add rootNode None node ns c
            | [name, node, ns] \<Rightarrow> legacy_node add rootNode (Some name) node ns c
            | _ \<Rightarrow> Done c))"

text \<open>\<open>lines\<close> is what the stream yields, \<open>None\<close> when the file cannot be opened.\<close>

definition xml_nodes ::
    "(node_id \<Rightarrow> string option \<Rightarrow> string \<Rightarrow> catalogue \<Rightarrow> catalogue result) \<Rightarrow>
     (string \<Rightarrow> string + document) \<Rightarrow> string \<Rightarrow> string \<Rightarrow> catalogue \<Rightarrow> catalogue result" where
  "xml_nodes add load mapfile rootNode c =
     (case OPCUAMapFileReader load mapfile rootNode of
        None \<Rightarrow> Undefined
      | Some (Inl e) \<Rightarrow> Throws e c
      | Some (Inr es) \<Rightarrow>
          if es = [] then Throws (Runtime_error ''No elements found in the map file!'') c
          else run_all (\<lambda>e. add (me_node e) (if me_name e = [] then None else Some (me_name e)) (me_range e))
                 es c)"

definition getNodesFromMapfile ::
    "(node_id \<Rightarrow> string option \<Rightarrow> string \<Rightarrow> catalogue \<Rightarrow> catalogue result) \<Rightarrow> (string \<Rightarrow> string list) \<Rightarrow>
     (string \<Rightarrow> string + document) \<Rightarrow> string list option \<Rightarrow> string \<Rightarrow> string \<Rightarrow>
     catalogue \<Rightarrow> catalogue result" where
  "getNodesFromMapfile add tokenize load lines mapfile rootNode c =
     seq (on_throw (\<lambda>_ c.
            case lines of
              None \<Rightarrow> Throws (Runtime_error (''Failed reading opcua mapfile: '' @ mapfile)) c
            | Some ls \<Rightarrow> run_all (legacy_line (\<lambda>node name. add node name []) tokenize rootNode) ls c)
          (xml_nodes add load mapfile rootNode c)) (\<lambda>c.
     if c = []
     then Throws (Runtime_error (''No elements added to the catalogue from the map file: '' @ mapfile)) c
     else Done c)"

section \<open>Filling the catalogue\<close>

text \<open>The parameters of the model: the parts of Boost, ChimeraTK DeviceAccess and open62541 the catalogue
  code calls, and the files it reads and writes.\<close>

record 'f environment =
  join :: "string \<Rightarrow> string \<Rightarrow> string"
  add_register :: "register_info \<Rightarrow> catalogue \<Rightarrow> exn + catalogue"
  parse_range :: "string \<Rightarrow> (u32 \<times> u32) list"
  tokenize :: "string \<Rightarrow> string list"
  normal :: "string \<Rightarrow> string"
  serialize :: "bool \<Rightarrow> string"
  deserialize :: "string \<Rightarrow> exn + 'f"
  what :: "exn \<Rightarrow> string"
  load :: "string \<Rightarrow> string + document"
  text_lines :: "string \<Rightarrow> string list option"
  save_answer :: save_answer

record catalogue_state =
  catalogue :: catalogue
  catalogue_filled :: bool
  saved_cache :: "document option"

text \<open>The members the constructor sets; \<open>rootNS\<close> is an \<open>unsigned long\<close>.\<close>

record device_config =
  mapfile :: string
  rootNode :: string
  rootNS :: u64
  address :: string

definition OBJECTSFOLDER :: node_id where
  "OBJECTSFOLDER = \<lparr>namespaceIndex = 0, node_identifier = Numeric 85\<rparr>"

definition add_entry ::
    "'f environment \<Rightarrow> server \<Rightarrow> device_config \<Rightarrow> node_id \<Rightarrow> string option \<Rightarrow> string \<Rightarrow> catalogue \<Rightarrow>
     catalogue result" where
  "add_entry env srv cfg =
     addCatalogueEntry (join env) (add_register env) (parse_range env) srv (address cfg) (rootNode cfg)"

definition find_nodes ::
    "'f environment \<Rightarrow> server \<Rightarrow> nat \<Rightarrow> device_config \<Rightarrow> catalogue \<Rightarrow> catalogue result" where
  "find_nodes env srv depth cfg c =
     (if mapfile cfg = []
      then if rootNode cfg = []
           then browseRecursive (\<lambda>n. add_entry env srv cfg n None []) srv depth OBJECTSFOLDER c
           else on_throw (\<lambda>_ c. Throws (Runtime_error
                    ''root node not formatted correct. Expected ns:nodeid or ns:nodename!'') c)
                  (browseRecursive (\<lambda>n. add_entry env srv cfg n None []) srv depth
                     \<lparr>namespaceIndex = ucast (rootNS cfg), node_identifier = Str (c_str (rootNode cfg))\<rparr> c)
      else getNodesFromMapfile (add_entry env srv cfg) (tokenize env) (load env)
             (text_lines env (mapfile cfg)) (mapfile cfg) (rootNode cfg) c)"

definition save_cache :: "'f environment \<Rightarrow> string \<Rightarrow> catalogue_state \<Rightarrow> catalogue_state result" where
  "save_cache env cacheFile s =
     (if cacheFile = [] then Done s
      else (case saveCatalogue (normal env) (serialize env) (save_answer env) (catalogue s) of
              None \<Rightarrow> Undefined
            | Some (Inl e) \<Rightarrow> Throws e s
            | Some (Inr doc) \<Rightarrow> Done (s\<lparr>saved_cache := Some doc\<rparr>)))"

definition fillCatalogue ::
    "'f environment \<Rightarrow> server \<Rightarrow> nat \<Rightarrow> device_config \<Rightarrow> string \<Rightarrow> catalogue_state \<Rightarrow>
     catalogue_state result" where
  "fillCatalogue env srv depth cfg cacheFile s =
     seq (map_result (\<lambda>c. s\<lparr>catalogue := c\<rparr>) (find_nodes env srv depth cfg (catalogue s))) (\<lambda>s.
     seq (save_cache env cacheFile s) (\<lambda>s. Done (s\<lparr>catalogue_filled := True\<rparr>)))"

section \<open>What every register looks like\<close>

text \<open>Its own fields are in order.\<close>

definition in_order :: "(string \<Rightarrow> string \<Rightarrow> string) \<Rightarrow> string \<Rightarrow> register_info \<Rightarrow> bool" where
  "in_order jn server r \<longleftrightarrow>
     reg_serverAddress r = server \<and> path r = jn server (nodeBrowseName r) \<and>
     reg_namespaceIndex r = namespaceIndex (reg_id r) \<and> isNumeric r = is_numeric (reg_id r) \<and>
     1 \<le> dataType r \<and> dataType r \<le> 12 \<and> dataDescriptor r = descriptor_of (dataType r) \<and>
     waitForNewData r \<and> unit_name r = []"

text \<open>It says of the node with its id what the server says. A node without a readable description has an
  empty one; a register with an index range is as long as the range.\<close>

definition matches_node :: "(string \<Rightarrow> (u32 \<times> u32) list) \<Rightarrow> server \<Rightarrow> register_info \<Rightarrow> bool" where
  "matches_node ranges srv r \<longleftrightarrow>
     read_data_type srv (reg_id r) = Some (dataType r) \<and>
     description r = (case read_description srv (reg_id r) of None \<Rightarrow> [] | Some d \<Rightarrow> d) \<and>
     (\<exists>level. read_access_level srv (reg_id r) = Some level \<and> isReadonly r = (level AND 2 = 0)) \<and>
     (case read_shape srv (reg_id r) of
        None \<Rightarrow> False
      | Some Scalar \<Rightarrow> arrayLength r = 1
      | Some (Array n) \<Rightarrow> n \<noteq> 0 \<and>
          (if reg_indexRange r = [] then arrayLength r = n
           else \<exists>mn mx. ranges (c_str (reg_indexRange r)) = [(mn, mx)] \<and>
             arrayLength r = ucast (mx - mn + 1)))"

definition described :: "'f environment \<Rightarrow> server \<Rightarrow> string \<Rightarrow> register_info \<Rightarrow> bool" where
  "described env srv server r \<longleftrightarrow> in_order (join env) server r \<and> matches_node (parse_range env) srv r"

text \<open>The container stores what it is given and nothing else.\<close>

definition stores_only :: "(register_info \<Rightarrow> catalogue \<Rightarrow> exn + catalogue) \<Rightarrow> bool" where
  "stores_only add \<longleftrightarrow> (\<forall>r c c'. add r c = Inr c' \<longrightarrow> set c' \<subseteq> insert r (set c))"

abbreviation all_described :: "'f environment \<Rightarrow> server \<Rightarrow> string \<Rightarrow> catalogue \<Rightarrow> bool" where
  "all_described env srv server c \<equiv> list_all (described env srv server) c"

lemma post_run_all:
  "(\<And>x s. P s \<Longrightarrow> post P (f x s)) \<Longrightarrow> P s \<Longrightarrow> post P (run_all f xs s)"
  by (rule keeps_invariant.run_all_inv) (rule keeps_invariant.intro)

text \<open>What is added to the catalogue, and what is known of it.\<close>

definition new_register ::
    "(string \<Rightarrow> string \<Rightarrow> string) \<Rightarrow> node_id \<Rightarrow> string \<Rightarrow> string \<Rightarrow> u32 \<Rightarrow> u64 \<Rightarrow> string \<Rightarrow> string \<Rightarrow>
     bool \<Rightarrow> register_info" where
  "new_register jn node name rng typ len server descr readonly =
     (info_with_id jn server name node)\<lparr>dataType := typ, description := descr, arrayLength := len,
      isReadonly := readonly, waitForNewData := True, reg_indexRange := rng,
      dataDescriptor := descriptor_of typ\<rparr>"

lemma addProperty_adds:
  assumes "stores_only add" and "addProperty jn add node name rng typ len server descr readonly c = Inr c'"
    and "1 \<le> typ" and "typ \<le> 12"
  shows "set c' \<subseteq> insert (new_register jn node name rng typ len server descr readonly) (set c)"
proof -
  from descriptor_of_range [of "typ"] assms(3,4) obtain d where "descriptor_of typ = Some d" by auto
  with assms(2) have "add (new_register jn node name rng typ len server descr readonly) c = Inr c'"
    by (simp add: addProperty_def new_register_def Let_def)
  with assms(1) show ?thesis by (simp add: stores_only_def)
qed

lemma from_sum_post: "P c \<Longrightarrow> (\<And>c'. r = Inr c' \<Longrightarrow> P c') \<Longrightarrow> post P (from_sum c r)"
  by (cases r) auto

lemma new_register_described:
  assumes "read_data_type srv node = Some typ" and "\<not> (12 < typ \<or> typ < 1)" and "read_shape srv node = Some shape"
    and "element_count (parse_range env) shape rng = Some (Some len)"
    and "read_access_level srv node = Some level"
  shows "described env srv server (new_register (join env) node name rng typ len server
    (case read_description srv node of None \<Rightarrow> [] | Some d \<Rightarrow> d) (level AND UA_ACCESSLEVELMASK_WRITE = 0))"
proof -
  have "1 \<le> typ" "typ \<le> 12" using assms(2) by (simp_all only: not_less de_Morgan_disj)
  with assms show ?thesis
    by (auto simp: described_def in_order_def matches_node_def new_register_def info_with_id_def
        info_without_id_def default_info_def element_count_def UA_ACCESSLEVELMASK_WRITE_def
        split: value_shape.split value_shape.split_asm if_splits list.split_asm prod.split_asm)
qed

lemma addCatalogueEntry_described:
  assumes "stores_only (add_register env)" and c: "all_described env srv server c"
  shows "post (all_described env srv server)
    (addCatalogueEntry (join env) (add_register env) (parse_range env) srv server rootName node name rng c)"
proof -
  have "all_described env srv server c'"
    if "read_data_type srv node = Some typ" "\<not> (12 < typ \<or> typ < 1)" "read_shape srv node = Some shape"
      "element_count (parse_range env) shape rng = Some (Some len)" "read_access_level srv node = Some level"
      "addProperty (join env) (add_register env) node n rng typ len server
        (case read_description srv node of None \<Rightarrow> [] | Some d \<Rightarrow> d) (level AND UA_ACCESSLEVELMASK_WRITE = 0) c = Inr c'"
    for "typ" shape len level n c'
    using addProperty_adds [OF assms(1) that(6)] that(2) [unfolded de_Morgan_disj not_less] c
      new_register_described [where env = env and name = n and server = server, OF that(1-5)]
    by (auto simp: list_all_iff)
  with c show ?thesis
    unfolding addCatalogueEntry_def Let_def
    by (auto intro!: from_sum_post split: sum.splits option.split)
qed

text \<open>The loops over nodes and lines keep what adding a node keeps.\<close>

lemma post_browseRecursive:
  assumes "\<And>n c. P c \<Longrightarrow> post P (add n c)"
  shows "P c \<Longrightarrow> post P (browseRecursive add srv depth n c)"
proof (induction depth arbitrary: n c)
  case (Suc depth)
  show ?case unfolding browseRecursive.simps
    by (rule post_run_all) (auto intro: Suc assms)
qed simp

lemma post_legacy_node:
  assumes "\<And>n name c. P c \<Longrightarrow> post P (add n name c)" and "P c"
  shows "post P (legacy_node add rootName name node nsString c)"
  unfolding legacy_node_def
  using assms by (auto intro!: post_on_throw split: sum.splits)

lemma post_legacy_line:
  assumes "\<And>n name c. P c \<Longrightarrow> post P (add n name c)" and "P c"
  shows "post P (legacy_line add tok rootName line c)"
  using assms post_legacy_node [of P add]
  by (simp add: legacy_line_def split: list.split)

lemma post_xml_nodes:
  assumes "\<And>n name rng c. P c \<Longrightarrow> post P (add n name rng c)" and "P c"
  shows "post P (xml_nodes add ld file rootName c)"
  using assms by (simp add: xml_nodes_def post_run_all split: option.split sum.split)

lemma post_getNodesFromMapfile:
  assumes "\<And>n name rng c. P c \<Longrightarrow> post P (add n name rng c)" and "P c"
  shows "post P (getNodesFromMapfile add tok ld ls file rootName c)"
  unfolding getNodesFromMapfile_def
proof (intro post_seq post_on_throw)
  show "post P (xml_nodes add ld file rootName c)" using assms by (rule post_xml_nodes)
  show "post P (case ls of None \<Rightarrow> Throws (Runtime_error (''Failed reading opcua mapfile: '' @ file)) c
      | Some ls \<Rightarrow> run_all (legacy_line (\<lambda>node name. add node name []) tok rootName) ls c)"
    if "P c" for c
    using that by (cases ls) (auto intro!: post_run_all post_legacy_line assms)
qed auto

lemma post_find_nodes:
  assumes "\<And>n name rng c. P c \<Longrightarrow> post P (add_entry env srv cfg n name rng c)" and "P c"
  shows "post P (find_nodes env srv depth cfg c)"
  using assms unfolding find_nodes_def
  by (auto intro!: post_on_throw post_browseRecursive post_getNodesFromMapfile)

lemma post_map_result: "post (\<lambda>s. P (f s)) r \<Longrightarrow> post P (map_result f r)"
  by (cases r) auto

lemma post_save_cache: "P (catalogue s) \<Longrightarrow> post (\<lambda>t. P (catalogue t)) (save_cache env file s)"
  by (auto simp: save_cache_def split: option.split sum.split)

lemma described_fill:
  assumes "stores_only (add_register env)" and "all_described env srv (address cfg) (catalogue s)"
  shows "post (\<lambda>t. all_described env srv (address cfg) (catalogue t)) (fillCatalogue env srv depth cfg cacheFile s)"
  unfolding fillCatalogue_def
proof (intro post_seq post_map_result)
  let ?P = "all_described env srv (address cfg)"
  show "post (\<lambda>c. ?P (catalogue (s\<lparr>catalogue := c\<rparr>))) (find_nodes env srv depth cfg (catalogue s))"
    using post_find_nodes [of ?P env srv cfg "catalogue s" depth] addCatalogueEntry_described [OF assms(1)]
      assms(2) by (simp add: add_entry_def)
  show "post (\<lambda>t. ?P (catalogue t)) (save_cache env cacheFile t)" if "?P (catalogue t)" for t
    using that by (rule post_save_cache)
qed simp

text \<open>
  C20: Whatever the server answers and whatever the map file holds, and also if filling the catalogue
  ends with an exception, every register that filling it adds describes the node of this server that has its id: the
  data type, the description, the write access and the length are those the server reports for that node (the length
  is that of the index range if there is one), and the register's path, the copies of the node
  id's parts, a type between 1 and 12 and the descriptor of that type are in order.
\<close>

theorem fillCatalogue_describes:
  assumes "stores_only (add_register env)" and "all_described env srv (address cfg) (catalogue s)"
  shows "post (\<lambda>t. all_described env srv (address cfg) (catalogue t))
    (fillCatalogue env srv depth cfg cacheFile s)"
  using assms by (rule described_fill)

definition tiny_server :: server where
  "tiny_server = \<lparr>read_data_type = (\<lambda>n. Some 6), read_description = (\<lambda>n. None),
     read_shape = (\<lambda>n. Some (Array 4)), read_access_level = (\<lambda>n. Some 3),
     browse = (\<lambda>n. if n = OBJECTSFOLDER
       then [(Object_node, \<lparr>namespaceIndex = 1, node_identifier = Numeric 7\<rparr>), (Other_node, UA_NODEID_NULL)]
       else if n = \<lparr>namespaceIndex = 1, node_identifier = Numeric 7\<rparr>
       then [(Variable_node, \<lparr>namespaceIndex = 1, node_identifier = Str ''/dev/x''\<rparr>)] else [])\<rparr>"

definition tiny_environment :: "string environment" where
  "tiny_environment = \<lparr>join = slash_join, add_register = append_new, parse_range = (\<lambda>r. []),
     tokenize = (\<lambda>l. []), normal = id, serialize = (\<lambda>b. ''x''), deserialize = Inr, what = (\<lambda>e. []),
     load = (\<lambda>f. Inl ''no such file''), text_lines = (\<lambda>f. None), save_answer = good_save\<rparr>"

definition tiny_config :: device_config where
  "tiny_config = \<lparr>mapfile = [], rootNode = [], rootNS = 0, address = ''opc.tcp://h''\<rparr>"

definition no_catalogue :: catalogue_state where
  "no_catalogue = \<lparr>catalogue = [], catalogue_filled = False, saved_cache = None\<rparr>"

definition tiny_register :: register_info where
  "tiny_register = (info_with_id slash_join ''opc.tcp://h'' ''dev/x''
       \<lparr>namespaceIndex = 1, node_identifier = Str ''/dev/x''\<rparr>)\<lparr>dataType := 6, arrayLength := 4,
       isReadonly := False, waitForNewData := True, dataDescriptor := descriptor_of 6\<rparr>"

lemma stores_only_append_new: "stores_only append_new"
  by (simp add: stores_only_def append_new_def)

lemma local_root_name_empty [simp]: "local_root_name [] = []"
  by (simp add: local_root_name_def substr0_def Let_def)

lemma tiny_fill:
  "fillCatalogue tiny_environment tiny_server (Suc (Suc 0)) tiny_config [] no_catalogue =
     Done \<lparr>catalogue = [tiny_register], catalogue_filled = True, saved_cache = None\<rparr>"
  by (simp add: fillCatalogue_def find_nodes_def tiny_config_def tiny_server_def tiny_environment_def
      no_catalogue_def OBJECTSFOLDER_def has_string_id_def add_entry_def
      addCatalogueEntry_def local_node_name_def element_count_def addProperty_def append_new_def
      tiny_register_def info_with_id_def info_without_id_def descriptor_of_def default_info_def
      UA_ACCESSLEVELMASK_WRITE_def save_cache_def)

theorem fillCatalogue_describes_witness:
  "all_described tiny_environment tiny_server ''opc.tcp://h'' [tiny_register]"
  using fillCatalogue_describes [of tiny_environment tiny_server tiny_config no_catalogue "Suc (Suc 0)" "[]"]
  by (simp add: tiny_fill) (simp add: tiny_environment_def tiny_config_def no_catalogue_def
      stores_only_append_new)

section \<open>What browsing visits\<close>

text \<open>The variables with a string id below a list of references, in depth-first order.\<close>

inductive listed :: "server \<Rightarrow> (node_class \<times> node_id) list \<Rightarrow> node_id list \<Rightarrow> bool" for srv where
  listed_end: "listed srv [] []"
| listed_object: "listed srv (browse srv n) vs \<Longrightarrow> listed srv refs ws \<Longrightarrow>
    listed srv ((Object_node, n) # refs) (vs @ ws)"
| listed_variable: "has_string_id n \<Longrightarrow> listed srv refs ws \<Longrightarrow>
    listed srv ((Variable_node, n) # refs) (n # ws)"
| listed_skip: "class \<noteq> Object_node \<Longrightarrow> \<not> (class = Variable_node \<and> has_string_id n) \<Longrightarrow>
    listed srv refs ws \<Longrightarrow> listed srv ((class, n) # refs) ws"

inductive_simps listed_Nil: "listed srv [] vs"
inductive_cases listed_ConsE: "listed srv ((class, n) # refs) vs"

definition visit :: "(node_id \<Rightarrow> 'c \<Rightarrow> 'c result) \<Rightarrow> server \<Rightarrow> nat \<Rightarrow> node_class \<times> node_id \<Rightarrow> 'c \<Rightarrow> 'c result" where
  "visit add srv depth = (\<lambda>(class, node) c.
     if class = Object_node then browseRecursive add srv depth node c
     else if class = Variable_node \<and> has_string_id node then add node c else Done c)"

lemma browse_Suc: "browseRecursive add srv (Suc depth) n = run_all (visit add srv depth) (browse srv n)"
  by (rule ext) (simp add: visit_def)

lemma visit_variable: "has_string_id n \<Longrightarrow> visit add srv depth (Variable_node, n) = add n"
  by (rule ext) (simp add: visit_def)

lemma visit_skip:
  "class \<noteq> Object_node \<Longrightarrow> \<not> (class = Variable_node \<and> has_string_id n) \<Longrightarrow>
   visit add srv depth (class, n) = Done"
  by (rule ext) (auto simp: visit_def)

lemma listed_run_all:
  "listed srv refs vs \<Longrightarrow> \<exists>d. \<forall>depth \<ge> d. run_all (visit add srv depth) refs = run_all add vs"
proof (induction rule: listed.induct)
  case (listed_object n vs refs ws)
  then obtain d1 d2 where d1: "\<forall>depth \<ge> d1. run_all (visit add srv depth) (browse srv n) = run_all add vs"
    and d2: "\<forall>depth \<ge> d2. run_all (visit add srv depth) refs = run_all add ws" by blast
  have "run_all (visit add srv depth) ((Object_node, n) # refs) = run_all add (vs @ ws)"
    if "depth \<ge> max (Suc d1) d2" for depth
  proof
    fix c
    from that obtain k where k: "depth = Suc k" "k \<ge> d1" by (cases depth) auto
    have "run_all (visit add srv depth) refs = run_all add ws" using that d2 by simp
    moreover have "visit add srv depth (Object_node, n) c = run_all add vs c"
      using k d1 by (simp add: visit_def browse_Suc del: browseRecursive.simps)
    ultimately show "run_all (visit add srv depth) ((Object_node, n) # refs) c = run_all add (vs @ ws) c"
      by (simp add: run_all_append)
  qed
  then show ?case by blast
next
  case (listed_variable n refs ws)
  then obtain d where "\<forall>depth \<ge> d. run_all (visit add srv depth) refs = run_all add ws" by blast
  with listed_variable(1) have "\<forall>depth \<ge> d.
      run_all (visit add srv depth) ((Variable_node, n) # refs) = run_all add (n # ws)"
    by (simp add: run_all_Cons visit_variable del: run_all.simps)
  then show ?case by blast
next
  case (listed_skip cls n refs ws)
  then obtain d where "\<forall>depth \<ge> d. run_all (visit add srv depth) refs = run_all add ws" by blast
  with listed_skip(1,2) have "\<forall>depth \<ge> d.
      run_all (visit add srv depth) ((cls, n) # refs) = run_all add ws"
    by (simp add: run_all_Cons visit_skip del: run_all.simps)
  then show ?case by blast
qed auto

lemma listed_Cons:
  assumes "listed srv refs vs" and "cls = Object_node \<longrightarrow> (\<exists>us. listed srv (browse srv n) us)"
  shows "\<exists>vs. listed srv ((cls, n) # refs) vs"
proof (cases "cls = Object_node")
  case True
  with assms show ?thesis by (blast intro: listed_object)
next
  case False
  with assms(1) show ?thesis
    by (cases "cls = Variable_node \<and> has_string_id n") (blast intro: listed_variable listed_skip)+
qed

text \<open>If adding a node never fails, only depth can stop the recursion.\<close>

lemma run_all_listed:
  assumes "\<And>n c. \<exists>c'. add n c = Done c'"
  shows "run_all (visit add srv depth) refs c \<noteq> Blocked \<Longrightarrow> \<exists>vs. listed srv refs vs \<and> (\<exists>t. run_all (visit add srv depth) refs c = Done t)"
proof (induction depth arbitrary: refs c)
  case 0
  show ?case
    using 0
  proof (induction refs arbitrary: c)
    case (Cons r refs)
    obtain cls n where r: "r = (cls, n)" by (cases r)
    from Cons.prems r have obj: "cls \<noteq> Object_node" by (auto simp: visit_def)
    have "\<exists>c'. visit add srv 0 r c = Done c'"
      using r obj assms [of n c] by (simp add: visit_def)
    then obtain c' where step: "visit add srv 0 r c = Done c'" by blast
    with Cons.prems Cons.IH [of c'] obtain vs t where "listed srv refs vs"
      and t: "run_all (visit add srv 0) refs c' = Done t" by auto
    then have "\<exists>vs. listed srv (r # refs) vs" using r obj by (simp add: listed_Cons)
    with step t show ?case by auto
  qed (auto intro: listed_end)
next
  case (Suc depth)
  show ?case
    using Suc.prems
  proof (induction refs arbitrary: c)
    case (Cons r refs)
    obtain cls n where r: "r = (cls, n)" by (cases r)
    have step: "\<exists>c'. visit add srv (Suc depth) r c = Done c' \<and>
        (cls = Object_node \<longrightarrow> (\<exists>vs. listed srv (browse srv n) vs))"
    proof (cases "cls = Object_node")
      case True
      have "run_all (visit add srv depth) (browse srv n) c \<noteq> Blocked"
        using Cons.prems r True by (auto simp: visit_def browse_Suc simp del: browseRecursive.simps)
      from Suc.IH [OF this] True r show ?thesis
        by (auto simp: visit_def browse_Suc simp del: browseRecursive.simps)
    next
      case False
      with r assms [of n c] show ?thesis by (auto simp: visit_def)
    qed
    then obtain c' where c': "visit add srv (Suc depth) r c = Done c'" by blast
    with Cons.prems Cons.IH [of c'] obtain vs t where vs: "listed srv refs vs"
      and t: "run_all (visit add srv (Suc depth)) refs c' = Done t" by auto
    have "\<exists>vs. listed srv (r # refs) vs" using r step by (auto intro: listed_Cons [OF vs])
    with c' t show ?case by auto
  qed (auto intro: listed_end)
qed

lemma browse_run_all:
  assumes "listed srv (browse srv start) vs"
  shows "\<exists>d. \<forall>depth \<ge> d. browseRecursive add srv depth start = run_all add vs"
proof -
  from listed_run_all [OF assms] obtain d
    where d: "\<forall>depth \<ge> d. run_all (visit add srv depth) (browse srv start) = run_all add vs" by blast
  have "browseRecursive add srv depth start = run_all add vs" if "depth \<ge> Suc d" for depth
    using that d by (cases depth) (simp_all add: browse_Suc del: browseRecursive.simps)
  then show ?thesis by blast
qed

lemma browse_returns_iff:
  assumes "\<And>n c. \<exists>c'. add n c = Done c'"
  shows "(\<exists>depth. browseRecursive add srv depth start c \<noteq> Blocked) \<longleftrightarrow> (\<exists>vs. listed srv (browse srv start) vs)"
proof
  assume "\<exists>depth. browseRecursive add srv depth start c \<noteq> Blocked"
  then obtain depth where d: "browseRecursive add srv depth start c \<noteq> Blocked" ..
  then obtain k where "depth = Suc k" by (cases depth) auto
  with d run_all_listed [of add, OF assms, of srv k "browse srv start" c] show "\<exists>vs. listed srv (browse srv start) vs"
    by (auto simp: browse_Suc simp del: browseRecursive.simps)
next
  assume "\<exists>vs. listed srv (browse srv start) vs"
  then obtain vs where "listed srv (browse srv start) vs" ..
  from browse_run_all [OF this, of add] obtain d where d: "browseRecursive add srv d start = run_all add vs" by blast
  have "\<exists>t. run_all add vs c = Done t"
  proof (induction vs arbitrary: c)
    case (Cons v vs)
    from assms [of v c] obtain c' where "add v c = Done c'" by blast
    with Cons.IH [of c'] show ?case by simp
  qed simp
  with d show "\<exists>depth. browseRecursive add srv depth start c \<noteq> Blocked" by (intro exI [of _ d]) auto
qed

lemma cycle_not_listed:
  assumes "\<And>n. n \<in> S \<Longrightarrow> \<exists>m \<in> S. (Object_node, m) \<in> set (browse srv n)"
  shows "listed srv refs vs \<Longrightarrow> n \<in> S \<Longrightarrow> (Object_node, n) \<notin> set refs"
proof (induction arbitrary: n rule: listed.induct)
  case (listed_object n' vs refs ws)
  then show ?case using assms by fastforce
qed auto

text \<open>
  C21: Browsing adds exactly the variables with a string id that are found below the starting node, in
  depth-first order, a node that is referenced several times several times: whenever that list
  exists, some depth of recursion is enough and browsing is the loop of \<open>addCatalogueEntry\<close> over
  it, whatever exceptions that throws.
\<close>

theorem browse_adds_listed:
  assumes "listed srv (browse srv start) vs"
  shows "\<exists>d. \<forall>depth \<ge> d. browseRecursive add srv depth start c = run_all add vs c"
proof -
  from browse_run_all [OF assms, of add] obtain d
    where "\<forall>depth \<ge> d. browseRecursive add srv depth start = run_all add vs" by blast
  then show ?thesis by (intro exI [of _ d]) simp
qed

theorem browse_adds_listed_witness:
  "\<exists>d. browseRecursive (\<lambda>n c. Done (c @ [n])) tiny_server d OBJECTSFOLDER [] =
     Done [\<lparr>namespaceIndex = 1, node_identifier = Str ''/dev/x''\<rparr>]"
proof -
  let ?x = "\<lparr>namespaceIndex = 1, node_identifier = Str ''/dev/x''\<rparr>"
  have "listed tiny_server (browse tiny_server \<lparr>namespaceIndex = 1, node_identifier = Numeric 7\<rparr>) [?x]"
    by (auto simp: tiny_server_def OBJECTSFOLDER_def has_string_id_def intro: listed.intros)
  then have "listed tiny_server [(Object_node, \<lparr>namespaceIndex = 1, node_identifier = Numeric 7\<rparr>),
      (Other_node, UA_NODEID_NULL)] ([?x] @ [])"
    by (rule listed_object) (auto intro: listed.intros)
  then have "listed tiny_server (browse tiny_server OBJECTSFOLDER) [?x]" by (simp add: tiny_server_def)
  from browse_adds_listed [OF this, of "\<lambda>n c. Done (c @ [n])" "[]"] show ?thesis by auto
qed

text \<open>
  Browsing has no protection against cycles: if every object node of some set refers to another of
  the set, browsing from one of them never returns, whatever depth of recursion is allowed.
\<close>

theorem browse_cycle_never_returns:
  assumes "\<And>n. n \<in> S \<Longrightarrow> \<exists>m \<in> S. (Object_node, m) \<in> set (browse srv n)" and "start \<in> S"
    and "\<And>n c. \<exists>c'. add n c = Done c'"
  shows "browseRecursive add srv depth start c = Blocked"
proof -
  from assms(1) [OF assms(2)] obtain m where "m \<in> S" "(Object_node, m) \<in> set (browse srv start)" by blast
  with cycle_not_listed [of S srv, OF assms(1)] have "\<nexists>vs. listed srv (browse srv start) vs" by blast
  with browse_returns_iff [of add, OF assms(3), of srv start c] show ?thesis by blast
qed

theorem browse_cycle_never_returns_witness:
  "browseRecursive (\<lambda>n c. Done (n # c)) (tiny_server\<lparr>browse := \<lambda>n. [(Object_node, OBJECTSFOLDER)]\<rparr>) 100
     OBJECTSFOLDER [] = Blocked"
  by (rule browse_cycle_never_returns [where S = "{OBJECTSFOLDER}"]) auto

text \<open>The object nodes an object node refers to.\<close>

definition refers_to :: "server \<Rightarrow> node_id \<Rightarrow> node_id \<Rightarrow> bool" where
  "refers_to srv n m \<longleftrightarrow> (Object_node, m) \<in> set (browse srv n)"

text \<open>When the depth is used up, that many references led from the start to some node.\<close>

lemma run_all_Blocked: "run_all f xs c = Blocked \<Longrightarrow> \<exists>x \<in> set xs. \<exists>c'. f x c' = Blocked"
proof (induction xs arbitrary: c)
  case (Cons x xs)
  then show ?case by (cases "f x c") auto
qed simp

lemma browse_Blocked_chain:
  assumes "\<And>n c. \<exists>c'. add n c = Done c'"
  shows "browseRecursive add srv depth n c = Blocked \<Longrightarrow> \<exists>m. (refers_to srv ^^ depth) n m"
proof (induction depth arbitrary: n c)
  case (Suc depth)
  then have "run_all (visit add srv depth) (browse srv n) c = Blocked"
    by (simp add: browse_Suc del: browseRecursive.simps)
  then obtain cls k c' where k: "(cls, k) \<in> set (browse srv n)" "visit add srv depth (cls, k) c' = Blocked"
    using run_all_Blocked by fastforce
  then have "cls = Object_node" "browseRecursive add srv depth k c' = Blocked"
    using assms [of k c'] by (auto simp: visit_def split: if_splits)
  with Suc.IH [of k c'] obtain m where "(refers_to srv ^^ depth) k m" by blast
  moreover have "refers_to srv n k" using k(1) \<open>cls = Object_node\<close> by (simp add: refers_to_def)
  ultimately show ?case by (blast intro: relpowp_Suc_I2)
qed auto

lemma chain_repeats:
  assumes "(r ^^ k) x y" and "finite {z. r\<^sup>*\<^sup>* x z}" and "card {z. r\<^sup>*\<^sup>* x z} \<le> k"
  shows "\<exists>z. r\<^sup>*\<^sup>* x z \<and> r\<^sup>+\<^sup>+ z z"
proof -
  from assms(1) obtain f where f: "f 0 = x" "\<forall>i<k. r (f i) (f (Suc i))"
    unfolding relpowp_fun_conv by blast
  have path: "r\<^sup>*\<^sup>* (f i) (f j)" if "i \<le> j" "j \<le> k" for i j
    using that by (induction rule: dec_induct) (use f(2) in \<open>auto intro: rtranclp.rtrancl_into_rtrancl\<close>)
  have "f ` {..k} \<subseteq> {z. r\<^sup>*\<^sup>* x z}" using path [of 0] f(1) by auto
  from card_mono [OF assms(2) this] assms(3) have "\<not> inj_on f {..k}" by (intro notI) (simp add: card_image)
  then obtain i j where ij: "i < j" "j \<le> k" "f i = f j"
    unfolding inj_on_def by (metis atMost_iff linorder_neqE_nat)
  from ij(1,2) have "r (f i) (f (Suc i))" "r\<^sup>*\<^sup>* (f (Suc i)) (f j)" using f(2) path [of "Suc i" j] by simp_all
  then have "r\<^sup>+\<^sup>+ (f i) (f j)" by (rule rtranclp_into_tranclp2)
  with ij path [of 0 i] f(1) show ?thesis by (intro exI [of _ "f i"]) simp
qed

text \<open>
  C36: Browsing a server with finitely many nodes below the start returns exactly when no reference of
  objects below the start leads back to where it came from: with such a cycle no depth of recursion is enough, and
  without one the number of nodes is.
\<close>

theorem browse_terminates_without_cycle:
  assumes "finite {n. (refers_to srv)\<^sup>*\<^sup>* start n}" and "\<And>n c. \<exists>c'. add n c = Done c'"
  shows "if \<exists>n. (refers_to srv)\<^sup>*\<^sup>* start n \<and> (refers_to srv)\<^sup>+\<^sup>+ n n
    then \<forall>depth. browseRecursive add srv depth start c = Blocked
    else \<forall>depth \<ge> card {n. (refers_to srv)\<^sup>*\<^sup>* start n}. browseRecursive add srv depth start c \<noteq> Blocked"
proof (split if_split, intro conjI impI)
  assume "\<exists>n. (refers_to srv)\<^sup>*\<^sup>* start n \<and> (refers_to srv)\<^sup>+\<^sup>+ n n"
  then obtain n where n: "(refers_to srv)\<^sup>*\<^sup>* start n" "(refers_to srv)\<^sup>+\<^sup>+ n n" by blast
  let ?S = "{m. (refers_to srv)\<^sup>*\<^sup>* m n}"
  have "\<exists>k \<in> ?S. (Object_node, k) \<in> set (browse srv m)" if "m \<in> ?S" for m
  proof -
    have "(refers_to srv)\<^sup>+\<^sup>+ m n"
      using that n(2) by (auto dest: rtranclpD)
    then obtain k where "refers_to srv m k" "(refers_to srv)\<^sup>*\<^sup>* k n" by (blast dest: tranclpD)
    then show ?thesis by (auto simp: refers_to_def)
  qed
  from browse_cycle_never_returns [of ?S srv start add, OF this _ assms(2)] n(1)
  show "\<forall>depth. browseRecursive add srv depth start c = Blocked" by simp
next
  assume acyclic: "\<not> (\<exists>n. (refers_to srv)\<^sup>*\<^sup>* start n \<and> (refers_to srv)\<^sup>+\<^sup>+ n n)"
  show "\<forall>depth \<ge> card {n. (refers_to srv)\<^sup>*\<^sup>* start n}. browseRecursive add srv depth start c \<noteq> Blocked"
  proof (intro allI impI notI)
    fix depth assume "card {n. (refers_to srv)\<^sup>*\<^sup>* start n} \<le> depth"
      and "browseRecursive add srv depth start c = Blocked"
    with browse_Blocked_chain [of add srv depth start c, OF assms(2)] chain_repeats [OF _ assms(1)] acyclic
    show False by blast
  qed
qed

text \<open>The folder of the objects refers to one object with a variable; or to itself.\<close>

theorem browse_terminates_without_cycle_witness:
  "(\<exists>d. browseRecursive (\<lambda>n c. Done (n # c)) tiny_server d OBJECTSFOLDER [] \<noteq> Blocked) \<and>
   browseRecursive (\<lambda>n c. Done (n # c)) (tiny_server\<lparr>browse := \<lambda>n. [(Object_node, OBJECTSFOLDER)]\<rparr>) 100
     OBJECTSFOLDER [] = Blocked"
proof (rule conjI)
  let ?d = "\<lparr>namespaceIndex = 1, node_identifier = Numeric 7\<rparr>"
  have edge: "refers_to tiny_server n m \<longleftrightarrow> n = OBJECTSFOLDER \<and> m = ?d" for n m
    by (auto simp: refers_to_def tiny_server_def OBJECTSFOLDER_def)
  have "{n. (refers_to tiny_server)\<^sup>*\<^sup>* OBJECTSFOLDER n} \<subseteq> {OBJECTSFOLDER, ?d}"
    by (auto simp: edge elim: rtranclp.cases)
  then have "finite {n. (refers_to tiny_server)\<^sup>*\<^sup>* OBJECTSFOLDER n}" by (rule finite_subset) simp
  note result = browse_terminates_without_cycle [OF this, of "\<lambda>n c. Done (n # c)" "[]"]
  have "\<not> (refers_to tiny_server)\<^sup>+\<^sup>+ n n" for n
  proof
    assume "(refers_to tiny_server)\<^sup>+\<^sup>+ n n"
    then obtain k where "refers_to tiny_server n k" "(refers_to tiny_server)\<^sup>*\<^sup>* k n" by (blast dest: tranclpD)
    then show False by (auto simp: edge OBJECTSFOLDER_def elim: converse_rtranclpE)
  qed
  with result show "\<exists>d. browseRecursive (\<lambda>n c. Done (n # c)) tiny_server d OBJECTSFOLDER [] \<noteq> Blocked"
    by auto
next
  let ?srv = "tiny_server\<lparr>browse := \<lambda>n. [(Object_node, OBJECTSFOLDER)]\<rparr>"
  have "{n. (refers_to ?srv)\<^sup>*\<^sup>* OBJECTSFOLDER n} \<subseteq> {OBJECTSFOLDER}"
    by (auto simp: refers_to_def elim: rtranclp.cases)
  then have "finite {n. (refers_to ?srv)\<^sup>*\<^sup>* OBJECTSFOLDER n}" by (rule finite_subset) simp
  note result = browse_terminates_without_cycle [OF this, of "\<lambda>n c. Done (n # c)" "[]"]
  have "(refers_to ?srv)\<^sup>+\<^sup>+ OBJECTSFOLDER OBJECTSFOLDER"
    by (rule tranclp.r_into_trancl) (simp add: refers_to_def)
  then have "\<exists>n. (refers_to ?srv)\<^sup>*\<^sup>* OBJECTSFOLDER n \<and> (refers_to ?srv)\<^sup>+\<^sup>+ n n" by blast
  from result [unfolded if_P [OF this]] show "browseRecursive (\<lambda>n c. Done (n # c)) ?srv 100 OBJECTSFOLDER [] = Blocked" by blast
qed

end
