(* ===== verification/Device_Creation.thy ===== *)
theory Device_Creation
  imports Accessor Catalogue
begin

text \<open>
  How a device comes into being (\<^verbatim>\<open>src/OPC-UA-Backend.cc\<close>): \<open>createInstance\<close> reads the parameters
  of the device descriptor, the constructor of \<open>OpcUABackend\<close> connects and fills the catalogue or
  reads it from its cache file, and \<open>getRegisterAccessor_impl\<close> makes an accessor of the type the
  catalogue tells. \<open>std::stod\<close> is a parameter.
\<close>

section \<open>Parameters of a device\<close>

datatype log_level = LL_TRACE | LL_DEBUG | LL_INFO | LL_WARNING | LL_ERROR | LL_FATAL

text \<open>The levels have the order of their numbers in open62541.\<close>

fun level_number :: "log_level \<Rightarrow> nat" where
  "level_number LL_TRACE = 100"
| "level_number LL_DEBUG = 200"
| "level_number LL_INFO = 300"
| "level_number LL_WARNING = 400"
| "level_number LL_ERROR = 500"
| "level_number LL_FATAL = 600"

instantiation log_level :: linorder
begin

definition less_eq_log_level :: "log_level \<Rightarrow> log_level \<Rightarrow> bool" where
  "less_eq_log_level a b \<longleftrightarrow> level_number a \<le> level_number b"

definition less_log_level :: "log_level \<Rightarrow> log_level \<Rightarrow> bool" where
  "less_log_level a b \<longleftrightarrow> level_number a < level_number b"

instance
proof
  fix a b c :: log_level
  show "a \<le> b \<Longrightarrow> b \<le> a \<Longrightarrow> a = b"
    by (cases a; cases b) (simp_all add: less_eq_log_level_def)
qed (auto simp: less_eq_log_level_def less_log_level_def)

end

record instance_args =
  ia_address :: string
  ia_username :: string
  ia_password :: string
  ia_mapfile :: string
  ia_publishingInterval :: "rat option"    \<comment> \<open>\<open>None\<close>: infinite or not a number\<close>
  ia_rootNode :: string
  ia_rootNS :: "u64 option"                \<comment> \<open>\<open>None\<close>: uninitialised\<close>
  ia_connectionTimeout :: u32
  ia_logLevel :: log_level
  ia_certificate :: string
  ia_privateKey :: string
  ia_trustAny :: bool
  ia_trustListFolder :: string
  ia_revocationListFolder :: string
  ia_cacheFile :: string

definition parse_trust_any :: "string \<Rightarrow> bool" where
  "parse_trust_any s = (s \<noteq> [] \<and> map to_upper s \<in> {''1'', ''TRUE'', ''YES''})"

definition parse_log_level :: "string \<Rightarrow> log_level" where
  "parse_log_level s =
     (let u = map to_upper s
      in if u = ''DEBUG'' then LL_DEBUG
         else if u = ''INFO'' then LL_INFO
         else if u = ''WARNING'' then LL_WARNING
         else if u = ''TRACE'' then LL_TRACE
         else if u = ''FATAL'' then LL_FATAL
         else if u = ''ERROR'' then LL_ERROR
         else LL_INFO)"

text \<open>The root node: \<open>ns:name\<close> for browsing, a prefix of the node names with a map file.\<close>

definition parse_root_node :: "string \<Rightarrow> string \<Rightarrow> exn + (u64 option \<times> string)" where
  "parse_root_node map_param root_param =
     (if map_param = []
      then if root_param = [] then Inr (None, [])
           else (case find_index (\<lambda>c. c = CHR '':'') root_param of
                   None \<Rightarrow> Inl (Runtime_error
                     ''root node does not contain delimiter ':' formatted correct. Expected ns:nodeid or ns:nodename!'')
                 | Some pos \<Rightarrow>
                     (case stoul (take pos root_param) of
                        Inl _ \<Rightarrow> Inl (Runtime_error ''failed to determine ns from root node'')
                      | Inr ns \<Rightarrow> Inr (Some ns, drop (Suc pos) root_param)))
      else Inr (None, root_param))"

text \<open>\<open>parameters\<close> maps a missing key to the empty string, as \<open>operator[]\<close> does.\<close>

definition createInstance ::
    "(string \<Rightarrow> exn + rat option) \<Rightarrow> string \<Rightarrow> (string \<Rightarrow> string) \<Rightarrow> exn + instance_args" where
  "createInstance stod adr parameters =
     (if parameters ''port'' = [] then Inl (Logic_error ''Missing OPC-UA port.'')
      else
     (case (if parameters ''publishingInterval'' = [] then Inr (Some 500)
            else stod (parameters ''publishingInterval'')) of
        Inl e \<Rightarrow> Inl e
      | Inr interval \<Rightarrow>
     (case parse_root_node (parameters ''map'') (parameters ''rootNode'') of
        Inl e \<Rightarrow> Inl e
      | Inr (ns, rootName) \<Rightarrow>
     (case (if parameters ''connectionTimeout'' = [] then Inr 5000
            else stoul (parameters ''connectionTimeout'')) of
        Inl e \<Rightarrow> Inl e
      | Inr tmo \<Rightarrow> Inr
          \<lparr>ia_address = ''opc.tcp://'' @ adr @ '':'' @ parameters ''port'',
           ia_username = parameters ''username'', ia_password = parameters ''password'',
           ia_mapfile = parameters ''map'', ia_publishingInterval = interval,
           ia_rootNode = rootName, ia_rootNS = ns, ia_connectionTimeout = ucast tmo,
           ia_logLevel =
             (if parameters ''logLevel'' = [] then LL_INFO else parse_log_level (parameters ''logLevel'')),
           ia_certificate = parameters ''certificate'', ia_privateKey = parameters ''privateKey'',
           ia_trustAny = parse_trust_any (parameters ''trustAny''),
           ia_trustListFolder = parameters ''trustListFolder'',
           ia_revocationListFolder = parameters ''revocationListFolder'',
           ia_cacheFile = parameters ''cacheFile''\<rparr>))))"

text \<open>The parameter names the registration hands to the factory.\<close>

definition registered_parameters :: "string list" where
  "registered_parameters = [''port'', ''username'', ''password'', ''map'', ''publishingInterval'', ''rootNode'',
     ''connectionTimeout'', ''certificate'', ''privateKey'', ''cacheFile'']"

section \<open>The constructor\<close>

definition device_config_of :: "instance_args \<Rightarrow> device_config" where
  "device_config_of a = \<lparr>mapfile = ia_mapfile a, rootNode = ia_rootNode a,
     rootNS = (case ia_rootNS a of None \<Rightarrow> 0 | Some n \<Rightarrow> n), address = ia_address a\<rparr>"

definition initial_accessor :: "variant accessor" where
  "initial_accessor = \<lparr>indexRange = [], acc_data = init_value, notifications = []\<rparr>"

definition initial_backend :: "connection \<Rightarrow> variant backend" where
  "initial_backend c =
     \<lparr>conn = c, accessors = (\<lambda>a. initial_accessor), ua_calls = [], run = False,
      subscriptionActive = False, subscriptionNeedsToBeRemoved = False, asyncReadActive = False,
      subscriptionID = 0, items = [], subscriptionMap = [], opcuaThread = False, thread_live = False,
      next_addr = 0, opened = False, has_manager = False, registered = True\<rparr>"

text \<open>Connecting and browsing, which both ways through the constructor end with. \<open>op_reset\<close>,
  \<open>op_connect\<close>, \<open>op_deleted\<close>, \<open>op_create\<close> and \<open>op_monitor\<close> of the answer are those of \<open>connect\<close>.\<close>

definition connect_and_fill ::
    "'f environment \<Rightarrow> server \<Rightarrow> nat \<Rightarrow> variant open_answer \<Rightarrow> device_config \<Rightarrow> string \<Rightarrow>
     variant backend \<times> catalogue_state \<Rightarrow> (variant backend \<times> catalogue_state) result" where
  "connect_and_fill env srv depth answer cfg cacheFile = (\<lambda>(s, cs).
     seq (map_result (\<lambda>s. (s, cs))
            (connect (op_reset answer) (op_connect answer) (op_deleted answer) (op_create answer)
               (op_monitor answer) s)) (\<lambda>(s, cs).
     map_result (\<lambda>cs. (s, cs)) (fillCatalogue env srv depth cfg cacheFile cs)))"

definition read_cache :: "'f environment \<Rightarrow> string \<Rightarrow> catalogue outcome" where
  "read_cache env cacheFile =
     readCatalogue (what env) (deserialize env) (join env) (add_register env) (load env) cacheFile"

fun is_logic_error :: "exn \<Rightarrow> bool" where
  "is_logic_error (Logic_error _) = True"
| "is_logic_error _ = False"

definition empty_catalogue_state :: catalogue_state where
  "empty_catalogue_state = \<lparr>catalogue = [], catalogue_filled = False, saved_cache = None\<rparr>"

definition construct_backend ::
    "'f environment \<Rightarrow> server \<Rightarrow> nat \<Rightarrow> variant open_answer \<Rightarrow>
     (string \<Rightarrow> (nat \<times> bytes) option) \<Rightarrow> (string \<Rightarrow> string list option) \<Rightarrow> instance_args \<Rightarrow>
     (variant backend \<times> catalogue_state) result" where
  "construct_backend env srv depth answer files dirs a =
     (case Option.bind (ia_publishingInterval a) double_to_ulong of
        None \<Rightarrow> Undefined
      | Some interval \<Rightarrow>
     (case OPCUAConnection files dirs (ia_address a) (ia_username a) (ia_password a) interval
             (ucast (ia_connectionTimeout a)) (ia_certificate a) (ia_privateKey a) (ia_trustAny a)
             (ia_trustListFolder a) (ia_revocationListFolder a) of
        None \<Rightarrow> Undefined
      | Some c \<Rightarrow>
          let s = (initial_backend c, empty_catalogue_state)
          in if ia_cacheFile a = []
             then connect_and_fill env srv depth answer (device_config_of a) [] s
             else (case read_cache env (ia_cacheFile a) of
                     None \<Rightarrow> Undefined
                   | Some (Inr cat) \<Rightarrow>
                       Done (fst s, (snd s)\<lparr>catalogue := cat, catalogue_filled := True\<rparr>)
                   | Some (Inl e) \<Rightarrow>
                       if is_logic_error e
                       then connect_and_fill env srv depth answer (device_config_of a) (ia_cacheFile a) s
                       else Throws e s)))"

text \<open>\<open>readDeviceInfo\<close> and \<open>getRegisterCatalogue\<close>, which returns a copy.\<close>

definition readDeviceInfo :: "'v backend \<Rightarrow> string" where
  "readDeviceInfo s = ''OPC-UA Server: '' @ serverAddress (conn s)"

definition getRegisterCatalogue :: "catalogue_state \<Rightarrow> catalogue" where
  "getRegisterCatalogue cs = catalogue cs"

section \<open>Accessors for registers\<close>

definition float_type :: num_type where
  "float_type = Floating ((2 - 1 / 2 ^ 23) * 2 ^ 127) (1 / 2 ^ 126)"

definition double_type :: num_type where
  "double_type = Floating ((2 - 1 / 2 ^ 52) * 2 ^ 1023) (1 / 2 ^ 1022)"

text \<open>The switch over the data type.\<close>

definition ua_type_of :: "u32 \<Rightarrow> ua_type option" where
  "ua_type_of t =
     (if t = 1 then Some UA_Boolean
      else if t = 2 then Some (UA_Number (Integer True 8))
      else if t = 3 then Some (UA_Number (Integer False 8))
      else if t = 4 then Some (UA_Number (Integer True 16))
      else if t = 5 then Some (UA_Number (Integer False 16))
      else if t = 6 then Some (UA_Number (Integer True 32))
      else if t = 7 then Some (UA_Number (Integer False 32))
      else if t = 8 then Some (UA_Number (Integer True 64))
      else if t = 9 then Some (UA_Number (Integer False 64))
      else if t = 10 then Some (UA_Number float_type)
      else if t = 11 then Some (UA_Number double_type)
      else if t = 12 then Some UA_String
      else None)"

definition range_error :: "u64 \<Rightarrow> u64 \<Rightarrow> register_info \<Rightarrow> exn" where
  "range_error n off i =
     Logic_error (''Requested number of words/elements ( '' @ to_string n @ '') with offset '' @
       to_string off @ '' exceeds the number of available words/elements: '' @ to_string (arrayLength i))"

text \<open>Names are compared as \<open>RegisterPath\<close>s; \<open>name\<close> is the text of one.\<close>

definition getRegisterAccessor_impl ::
    "(string \<Rightarrow> string) \<Rightarrow> variant attach_answer \<Rightarrow> bool \<Rightarrow> bool \<Rightarrow> acc_id \<Rightarrow> ctk_type \<Rightarrow> catalogue \<Rightarrow>
     string \<Rightarrow> u64 \<Rightarrow> u64 \<Rightarrow> variant backend \<Rightarrow> (variant backend \<times> 'n accessor_object option) result" where
  "getRegisterAccessor_impl nf answer raw wait a ctk c name n off s =
     (if c = [] then Throws (Logic_error ''No registers found in the catalog.'') (s, None)
      else
     (case find (\<lambda>r. nf (nodeBrowseName r) = name) c of
        None \<Rightarrow> Throws (Logic_error (''Requested register ('' @ name @ '') was not found in the catalog.'')) (s, None)
      | Some i \<Rightarrow>
          if arrayLength i < n + off \<or> (n = 0 \<and> 0 < off) then Throws (range_error n off i) (s, None)
          else let words = (if n = 0 then arrayLength i else n)
               in (case ua_type_of (dataType i) of
                     None \<Rightarrow> Throws (Runtime_error (''Type '' @ to_string (dataType i) @ '' not implemented.'')) (s, None)
                   | Some ua \<Rightarrow>
                       seq (map_result (\<lambda>t. (t, None)) (construct_accessor answer raw wait a i s)) (\<lambda>(t, _).
                       Done (t, Some (new_accessor a i name words off wait ua ctk))))))"

end
