(* ===== verification/Notification_Queue.thy ===== *)
theory Notification_Queue
  imports Subscription_State "HOL-Library.Sublist"
begin

text \<open>
  The notification queue of an accessor is a \<open>cppext::future_queue\<close> of a fixed capacity, which is not part
  of the repository. What it holds after a history of pushes and reads is the parameter \<open>contents\<close>;
  the locale states what the code relies on, and its lemmas say what a reader gets of what was pushed.
\<close>

section \<open>The documented behaviour of the queue\<close>

text \<open>
  A new queue is empty; a read takes the entry at the front; a pushed entry becomes the last one, and as long
  as the queue is not full no other entry goes. A full queue gives up entries for it, and at least
  one of them.
\<close>

locale future_queue =
  fixes contents :: "'v notification list \<Rightarrow> 'v notification list"
    and capacity :: nat
  assumes contents_new: "contents [] = []"
    and contents_taken: "contents (h @ [Taken]) = tl (contents h)"
    and contents_pushed: "e \<noteq> Taken \<Longrightarrow> \<exists>q. subseq q (contents h) \<and> contents (h @ [e]) = q @ [e] \<and>
      length q < capacity \<and> (length (contents h) < capacity \<longrightarrow> q = contents h)"

text \<open>What \<open>front\<close> shows of the queue: a value, or the exception it throws, or nothing when it is empty.\<close>

fun shown :: "'v notification \<Rightarrow> (string + 'v data_value) option" where
  "shown (Pushed d) = Some (Inr d)"
| "shown (Pushed_exception m) = Some (Inl m)"
| "shown Taken = None"

definition front_of ::
    "('v notification list \<Rightarrow> 'v notification list) \<Rightarrow> 'v notification list \<Rightarrow> (string + 'v data_value) option" where
  "front_of contents h = (case contents h of [] \<Rightarrow> None | n # q \<Rightarrow> shown n)"

lemma front_of_value: "front_of contents h = Some (Inr d) \<longleftrightarrow> (\<exists>q. contents h = Pushed d # q)"
  by (auto simp: front_of_def split: list.split elim: shown.elims)

text \<open>The entries that a continuation \<open>es\<close> of the history \<open>h\<close> pushes and takes.\<close>

definition pushed_entries :: "'v notification list \<Rightarrow> 'v notification list" where
  "pushed_entries es = filter (\<lambda>e. e \<noteq> Taken) es"

lemma pushed_entries_simps [simp]:
  "pushed_entries [] = []"
  "pushed_entries (es @ fs) = pushed_entries es @ pushed_entries fs"
  "pushed_entries [Taken] = []" "e \<noteq> Taken \<Longrightarrow> pushed_entries [e] = [e]"
  by (simp_all add: pushed_entries_def)

fun taken_entries ::
    "('v notification list \<Rightarrow> 'v notification list) \<Rightarrow> 'v notification list \<Rightarrow> 'v notification list \<Rightarrow>
     'v notification list" where
  "taken_entries contents h [] = []"
| "taken_entries contents h (e # es) =
     (if e = Taken then take 1 (contents h) else []) @ taken_entries contents (h @ [e]) es"

lemma taken_entries_append [simp]:
  "taken_entries contents h (es @ fs) = taken_entries contents h es @ taken_entries contents (h @ es) fs"
  by (induction es arbitrary: h) simp_all

lemma taken_entries_pushes: "n \<noteq> Taken \<Longrightarrow> taken_entries contents h (replicate k n) = []"
  by (induction k arbitrary: h) simp_all

lemma subseq_member: "subseq q p \<Longrightarrow> x \<in> set q \<Longrightarrow> x \<in> set p"
  by (erule (1) list_emb_set) simp

context future_queue
begin

lemma pushedE:
  assumes "e \<noteq> Taken"
  obtains q where "subseq q (contents h)" "contents (h @ [e]) = q @ [e]" "length q < capacity"
    "length (contents h) < capacity \<Longrightarrow> q = contents h"
  using contents_pushed [OF assms, of h] by blast

lemma bounded: "length (contents h) \<le> capacity"
proof (induction h rule: rev_induct)
  case (snoc e h)
  then show ?case
    by (cases "e = Taken") (auto simp: contents_taken elim: pushedE [of e h])
qed (simp add: contents_new)

lemma no_marker: "Taken \<notin> set (contents h)"
proof (induction h rule: rev_induct)
  case (snoc e h)
  show ?case
  proof (cases "e = Taken")
    case True
    with snoc show ?thesis by (cases "contents h") (simp_all add: contents_taken)
  next
    case False
    from False obtain q where "subseq q (contents h)" "contents (h @ [e]) = q @ [e]" by (rule pushedE)
    with False snoc show ?thesis by (auto dest: subseq_member)
  qed
qed (simp add: contents_new)

text \<open>A read moves the entry at the front from the queue to its reader.\<close>

lemma taken_moves:
  "taken_entries contents h (es @ [Taken]) @ contents (h @ es @ [Taken]) =
   taken_entries contents h es @ contents (h @ es)"
  using contents_taken [of "h @ es"] by (cases "contents (h @ es)") simp_all

lemma in_order:
  "subseq (taken_entries contents h es @ contents (h @ es)) (contents h @ pushed_entries es)"
proof (induction es rule: rev_induct)
  case (snoc e es)
  show ?case
  proof (cases "e = Taken")
    case True
    with snoc show ?thesis by (simp add: taken_moves del: taken_entries_append)
  next
    case False
    from False obtain q where q: "subseq q (contents (h @ es))" "contents ((h @ es) @ [e]) = q @ [e]"
      by (rule pushedE)
    from q(1) have "subseq (taken_entries contents h es @ q) (taken_entries contents h es @ contents (h @ es))"
      by (intro list_emb_append_mono) simp_all
    from subseq_order.trans [OF this snoc] have "subseq ((taken_entries contents h es @ q) @ [e])
        ((contents h @ pushed_entries es) @ [e])"
      by (rule list_emb_append_mono) simp
    with False q(2) show ?thesis by simp
  qed
qed simp

lemma nothing_lost:
  assumes "length (contents h @ pushed_entries es) \<le> capacity"
  shows "taken_entries contents h es @ contents (h @ es) = contents h @ pushed_entries es"
  using assms
proof (induction es rule: rev_induct)
  case (snoc e es)
  show ?case
  proof (cases "e = Taken")
    case True
    with snoc show ?thesis by (simp add: taken_moves del: taken_entries_append)
  next
    case False
    with snoc have eq: "taken_entries contents h es @ contents (h @ es) = contents h @ pushed_entries es"
      and "length (contents h @ pushed_entries es) < capacity" by simp_all
    from arg_cong [OF eq, of length] this(2) have "length (contents (h @ es)) < capacity" by simp
    with False eq show ?thesis by (auto elim!: pushedE [of e "h @ es"])
  qed
qed simp

text \<open>The newest entry is never given up: it waits at the end of the queue, or it was the last one taken.\<close>

lemma newest_kept:
  "pushed_entries es \<noteq> [] \<Longrightarrow> taken_entries contents h es @ contents (h @ es) \<noteq> [] \<and>
   last (taken_entries contents h es @ contents (h @ es)) = last (pushed_entries es)"
proof (induction es rule: rev_induct)
  case (snoc e es)
  show ?case
  proof (cases "e = Taken")
    case True
    with snoc show ?thesis by (simp add: taken_moves del: taken_entries_append)
  next
    case False
    then show ?thesis by (auto elim: pushedE [of e "h @ es"])
  qed
qed simp

end

section \<open>A queue with this behaviour\<close>

text \<open>The last entry is overwritten when the queue is full.\<close>

fun queue_step :: "nat \<Rightarrow> 'v notification \<Rightarrow> 'v notification list \<Rightarrow> 'v notification list" where
  "queue_step n Taken q = tl q"
| "queue_step n e q = (if length q < n then q else butlast q) @ [e]"

definition last_overwritten :: "nat \<Rightarrow> 'v notification list \<Rightarrow> 'v notification list" where
  "last_overwritten n h = fold (queue_step n) h []"

lemma queue_step_bounded: "0 < n \<Longrightarrow> length q \<le> n \<Longrightarrow> length (queue_step n e q) \<le> n"
  by (cases e) auto

lemma last_overwritten_bounded: "0 < n \<Longrightarrow> length (last_overwritten n h) \<le> n"
  unfolding last_overwritten_def
  by (induction h rule: rev_induct) (simp_all add: queue_step_bounded)

lemma last_overwritten_queue: "0 < n \<Longrightarrow> future_queue (last_overwritten n) n"
proof
  fix e :: "'a notification" and h :: "'a notification list"
  assume n: "0 < n" and e: "e \<noteq> Taken"
  let ?q = "last_overwritten n h"
  have "last_overwritten n (h @ [e]) = (if length ?q < n then ?q else butlast ?q) @ [e]"
    using e by (cases e) (simp_all add: last_overwritten_def)
  moreover have "subseq (butlast ?q) ?q" using list_emb_append_mono [of "(=)" "butlast ?q" "butlast ?q" "[]"] by (cases ?q rule: rev_cases) auto
  ultimately show "\<exists>q. subseq q ?q \<and> last_overwritten n (h @ [e]) = q @ [e] \<and> length q < n \<and>
      (length ?q < n \<longrightarrow> q = ?q)"
    using n last_overwritten_bounded [OF n, of h]
    by (intro exI [of _ "if length ?q < n then ?q else butlast ?q"]) auto
qed (simp_all add: last_overwritten_def)

interpretation queue_3: future_queue "last_overwritten 3" 3
  by (rule last_overwritten_queue) simp

end
