(* ===== verification/Subscription_Properties.thy ===== *)
theory Subscription_Properties
  imports Subscription_Spec Notification_Queue
begin

text \<open>
  The behaviour of the subscription manager and of the device around it: which accessor gets which
  value or exception, what is asked of the server, what a lost connection, a closed device and a
  stopped thread leave behind, and the cases in which the code misses its contract.
\<close>

section \<open>Helper lemmas\<close>

lemma removeSubscription_flags [simp]:
  "subscriptionActive (removeSubscription d s) \<longleftrightarrow> subscriptionActive s \<and> \<not> d"
  by (simp add: removeSubscription_def resetMonitoredItems_def setInactive_def Let_def)

lemma map_of_map_key: "map_of (map (\<lambda>(p, x). (p, f p x)) d) p = map_option (f p) (map_of d p)"
  by (induction d) auto

section \<open>Exceptions and values\<close>

lemma pending_items_marked:
  "pending_items (map (\<lambda>(p, item). (p, mark_exception item)) d) = []"
  by (induction d) (auto simp: pending_items_def mark_exception_def)

text \<open>
  C11: An exception reaches every accessor of every active item that has not reported one yet,
  once for each time it is attached there, and no other accessor. Afterwards all active items are
  marked, so that a second exception is not delivered again.
\<close>

theorem handleException_once:
  assumes "wf_manager s"
  shows "(\<forall>a. accessors (handleException m s) a = (accessors s a)
        \<lparr>notifications := notifications (accessors s a)
           @ replicate (pending_count (items s) a) (Pushed_exception m)\<rparr>) \<and>
    (\<forall>(p, item) \<in> set (items (handleException m s)). item_active item \<longrightarrow> hasException item) \<and>
    handleException m' (handleException m s) = handleException m s"
proof -
  have d: "distinct (map fst (items s))"
    using assms by (simp add: wf_manager_def wf_items_def)
  let ?t = "handleException m s"
  note t = handleException_eq [OF d, of m]
  have items: "items ?t = map (\<lambda>(p, item). (p, mark_exception item)) (items s)" by (simp add: t)
  have "distinct (map fst (items ?t))" using d by (simp only: items map_fst_map_snd)
  note t2 = handleException_eq [OF this, of m']
  have "pending_count (items ?t) a = 0" for a
    by (simp add: pending_count_def items pending_items_marked)
  moreover have "map (\<lambda>(p, item). (p, mark_exception item)) (items ?t) = items ?t"
    by (auto simp: items mark_exception_def)
  ultimately have "handleException m' ?t = ?t" unfolding t2 by simp
  moreover have "\<forall>(p, item) \<in> set (items ?t). item_active item \<longrightarrow> hasException item"
    by (auto simp: items mark_exception_def split: if_splits)
  ultimately show ?thesis by (simp add: t)
qed

definition sample_item :: "string \<Rightarrow> acc_id list \<Rightarrow> u32 \<Rightarrow> monitor_item" where
  "sample_item name as i = \<lparr>item_node = UA_NODEID_NULL, item_accessors = as, item_id = i,
     item_active = True, isMonitored = True, hasException = False, browseName = name\<rparr>"

text \<open>A running device with three monitored items.\<close>

definition running_backend :: "variant backend" where
  "running_backend = blank_backend\<lparr>
     conn := blank_connection\<lparr>channelState := Channel_open, sessionState := Session_activated\<rparr>,
     run := True, subscriptionActive := True, asyncReadActive := True, subscriptionID := 9,
     items := [(0, sample_item ''a'' [1, 2] 11), (1, sample_item ''b'' [3] 12),
               (2, sample_item ''c'' [1] 13)],
     subscriptionMap := [(11, 0), (12, 1), (13, 2)], opcuaThread := True, thread_live := True,
     next_addr := 3, opened := True, has_manager := True\<rparr>"

lemma wf_running: "wf_manager running_backend"
  by (simp add: wf_manager_def wf_items_def wf_map_def running_backend_def sample_item_def)

theorem handleException_once_witness:
  "map (\<lambda>a. notifications (accessors (handleException ''lost'' running_backend) a)) [1, 2, 3, 4] =
     [[Pushed_exception ''lost'', Pushed_exception ''lost''], [Pushed_exception ''lost''],
      [Pushed_exception ''lost''], []]"
  using handleException_once [OF wf_running, of "''lost''"]
  by (simp add: running_backend_def pending_count_def pending_items_def sample_item_def
      blank_backend_def numeral_2_eq_2)

lemma responseHandler_delivers_result:
  assumes "wf_manager s"
  shows "case map_of (subscriptionMap s) i of
      None \<Rightarrow> responseHandler i v s = Done s
    | Some p \<Rightarrow> \<exists>item t. map_of (items s) p = Some item \<and> item_id item = i \<and>
        responseHandler i v s = Done t \<and>
        (\<forall>a. accessors t a = (accessors s a)\<lparr>notifications := notifications (accessors s a) @
           (if item_active item then replicate (count_list (item_accessors item) a) (Pushed v)
            else [])\<rparr>) \<and>
        (\<forall>q. map_of (items t) q = (if q = p \<and> item_active item
           then Some (item\<lparr>hasException := False\<rparr>) else map_of (items s) q))"
proof (cases "map_of (subscriptionMap s) i")
  case None
  then show ?thesis by (simp add: responseHandler_def)
next
  case (Some p)
  from assms Some obtain item where item: "map_of (items s) p = Some item" "item_id item = i"
    by (rule wf_map_pointer)
  let ?t = "if item_active item
      then push_all (Pushed v) (item_accessors item) (modify_item p (\<lambda>x. x\<lparr>hasException := False\<rparr>) s)
      else s"
  have "responseHandler i v s = Done ?t" by (simp add: responseHandler_def Some item)
  moreover have "accessors ?t a = (accessors s a)\<lparr>notifications := notifications (accessors s a) @
      (if item_active item then replicate (count_list (item_accessors item) a) (Pushed v) else [])\<rparr>"
    for a by (simp add: push_all_eq)
  moreover have "map_of (items ?t) q = (if q = p \<and> item_active item
      then Some (item\<lparr>hasException := False\<rparr>) else map_of (items s) q)" for q
    by (simp add: modify_item_def map_of_deque_modify item)
  ultimately show ?thesis using item Some by auto
qed

text \<open>
  C12: A value that arrives under the id of a monitored item is handed to each accessor of that item,
  and to no other, if the item is active, and clears its exception mark. Otherwise nothing
  changes, and a value under an id that is not in the map is dropped.
\<close>

theorem responseHandler_delivers:
  assumes "wf_manager s"
  shows "case map_of (subscriptionMap s) i of
      None \<Rightarrow> responseHandler i v s = Done s
    | Some p \<Rightarrow> \<exists>item t. map_of (items s) p = Some item \<and> item_id item = i \<and>
        responseHandler i v s = Done t \<and>
        (\<forall>a. accessors t a = (accessors s a)\<lparr>notifications := notifications (accessors s a) @
           (if item_active item then replicate (count_list (item_accessors item) a) (Pushed v)
            else [])\<rparr>) \<and>
        (\<forall>q. map_of (items t) q = (if q = p \<and> item_active item
           then Some (item\<lparr>hasException := False\<rparr>) else map_of (items s) q))"
  using assms by (rule responseHandler_delivers_result)

theorem responseHandler_delivers_witness:
  "\<exists>t. responseHandler 11 init_value running_backend = Done t \<and>
     notifications (accessors t 2) = [Pushed init_value] \<and> notifications (accessors t 3) = []"
  using responseHandler_delivers [OF wf_running, of 11 init_value]
  by (auto simp: running_backend_def sample_item_def blank_backend_def)

lemma deactivate_silences_facts:
  assumes wf: "wf_manager s" and ret: "deactivate locked deleted s = Done t"
  shows "\<not> run t \<and> \<not> subscriptionActive t \<and> \<not> asyncReadActive t \<and> accessors t = accessors s \<and>
    responseHandler i v t = Done t"
proof -
  let ?u = "s\<lparr>items := map (\<lambda>(p, item).
      (p, if p \<in> set (map snd (subscriptionMap s)) then item\<lparr>item_active := False\<rparr> else item))
      (items s)\<rparr>"
  from ret have t: "run t = False" "subscriptionActive t = False" "asyncReadActive t = False"
      "accessors t = accessors s" "subscriptionMap t \<noteq> [] \<longrightarrow> items t = items ?u"
      "subscriptionMap t \<noteq> [] \<longrightarrow> subscriptionMap t = subscriptionMap s"
    unfolding deactivate_def deactivate_items_wf [OF wf] seq.simps Let_def
    by (auto split: if_splits)
  have "responseHandler i v t = Done t"
  proof (cases "map_of (subscriptionMap t) i")
    case (Some p)
    then have "subscriptionMap t \<noteq> []" by auto
    with t have eq: "items t = items ?u" "subscriptionMap t = subscriptionMap s" by simp_all
    from wf Some eq obtain item where item: "map_of (items s) p = Some item"
      by (metis wf_map_pointer)
    have "p \<in> set (map snd (subscriptionMap s))"
      using map_of_SomeD [OF Some] eq(2) by force
    then have "map_of (items t) p = Some (item\<lparr>item_active := False\<rparr>)"
      unfolding eq(1)
      using item map_of_map_key [of "\<lambda>p item. if p \<in> set (map snd (subscriptionMap s))
          then item\<lparr>item_active := False\<rparr> else item" "items s" p]
      by simp
    with Some show ?thesis by (simp add: responseHandler_def)
  qed (simp add: responseHandler_def)
  with t show ?thesis by simp
qed

text \<open>
  Once \<open>deactivate\<close> has returned, the loop flag, the subscription flag and the flag of
  asynchronous reading are off, no accessor has been touched, and no value is delivered any more
  whatever id it arrives under.
\<close>

theorem deactivate_silences:
  assumes "wf_manager s" and "deactivate locked deleted s = Done t"
  shows "\<not> run t \<and> \<not> subscriptionActive t \<and> \<not> asyncReadActive t \<and> accessors t = accessors s \<and>
    responseHandler i v t = Done t"
  by (rule deactivate_silences_facts [OF assms])

theorem deactivate_silences_witness:
  "\<exists>t. deactivate True False running_backend = Done t \<and> \<not> subscriptionActive t \<and>
     responseHandler 11 init_value t = Done t"
proof -
  obtain t where t: "deactivate True False running_backend = Done t"
    by (simp add: deactivate_def deactivate_items_wf [OF wf_running] Let_def)
      (simp add: running_backend_def)
  from deactivate_silences [OF wf_running t] t show ?thesis by blast
qed

section \<open>Monitoring on the server\<close>

definition monitored_as :: "(addr \<Rightarrow> 'e monitor_answer) \<Rightarrow> bool \<Rightarrow> addr \<Rightarrow> monitor_item \<Rightarrow> monitor_item" where
  "monitored_as answer async p item =
     (let x = (if async then item\<lparr>item_active := True\<rparr> else item)
      in if isMonitored item then x else x\<lparr>item_id := monitoredItemId (answer p), isMonitored := True\<rparr>)"

definition monitor_requests ::
    "('v, 'z) manager_scheme \<Rightarrow> monitor_item deque \<Rightarrow> 'v ua_call list" where
  "monitor_requests s d = map (\<lambda>(p, item). Create_monitored_item (subscriptionID s) (item_node item)
       (indexRange (accessors s (hd (item_accessors item)))))
     (filter (\<lambda>(p, item). \<not> isMonitored item) d)"

text \<open>The state after a prefix \<open>d1\<close> of the items has been processed without failures.\<close>

definition after_monitoring ::
    "(addr \<Rightarrow> 'e monitor_answer) \<Rightarrow> monitor_item deque \<Rightarrow> monitor_item deque \<Rightarrow>
     ('v, 'z) manager_scheme \<Rightarrow> ('v, 'z) manager_scheme" where
  "after_monitoring answer d1 d2 s = s\<lparr>
     items := map (\<lambda>(p, item). (p, monitored_as answer (asyncReadActive s) p item)) d1 @ d2,
     ua_calls := ua_calls s @ monitor_requests s d1,
     subscriptionMap := fold (\<lambda>(p, item). AList.update (monitoredItemId (answer p)) p)
       (filter (\<lambda>(p, item). \<not> isMonitored item) d1) (subscriptionMap s)\<rparr>"

lemma deque_modify_split:
  assumes "distinct (map fst (d1 @ (p, item) # d2))"
  shows "deque_modify p f (d1 @ (p, item) # d2) = d1 @ (p, f item) # d2"
proof -
  have "deque_modify p f d = d" if "p \<notin> fst ` set d" for d
    using that by (induction d) (auto simp: deque_modify_def)
  with assms show ?thesis by (auto simp: deque_modify_def)
qed

lemma addMonitoredItem_step:
  assumes d: "distinct (map fst (d1 @ (p, item) # d2))"
    and accs: "item_accessors item \<noteq> []"
    and good: "mon_status (answer p) = UA_STATUSCODE_GOOD" "mon_callbacks (answer p) = []"
  shows "addMonitoredItem cb answer p (after_monitoring answer d1 ((p, item) # d2) s) =
    Done (after_monitoring answer (d1 @ [(p, item)]) d2 s)"
proof -
  let ?n = "\<lambda>b d. map (\<lambda>(p, item). (p, monitored_as answer b p item)) d"
  let ?m = "?n (asyncReadActive s)"
  let ?s = "after_monitoring answer d1 ((p, item) # d2) s"
  have fst: "map fst (?n b d1) = map fst d1" for b
    by (simp add: case_prod_unfold comp_def)
  have dist: "distinct (map fst (?n b d1 @ (p, x) # d2))" for b x
    using d by (simp only: map_append fst) simp
  have "items ?s = ?m d1 @ (p, item) # d2" by (simp add: after_monitoring_def)
  then have look: "map_of (items ?s) p = Some item"
    by (simp only:) (rule map_of_is_SomeI [OF dist], simp)
  note mod = deque_modify_split [OF dist]
  obtain a as where a: "item_accessors item = a # as" using accs by (cases "item_accessors item") auto
  show ?thesis
    unfolding addMonitoredItem_def look option.case Let_def
    by (simp add: a good after_monitoring_def modify_item_def mod
        monitored_as_def [of answer _ p item] monitor_requests_def add_call_def)
qed

lemma addMonitoredItems_closed:
  assumes wf: "wf_manager s"
    and good: "\<forall>p \<in> set (map fst (items s)). mon_status (answer p) = UA_STATUSCODE_GOOD \<and>
      mon_callbacks (answer p) = []"
  shows "addMonitoredItems cb answer s = Done (after_monitoring answer (items s) [] s)"
proof -
  have "run_all (addMonitoredItem cb answer) (map fst d2) (after_monitoring answer d1 d2 s) =
      Done (after_monitoring answer (d1 @ d2) [] s)" if "items s = d1 @ d2" for d1 d2
    using that
  proof (induction d2 arbitrary: d1)
    case (Cons x d2)
    obtain p item where x: "x = (p, item)" by fastforce
    with Cons.prems wf have "item_accessors item \<noteq> []" "distinct (map fst (d1 @ (p, item) # d2))"
      by (auto simp: wf_manager_def wf_items_def)
    moreover have "mon_status (answer p) = UA_STATUSCODE_GOOD" "mon_callbacks (answer p) = []"
      using good Cons.prems x by auto
    ultimately have "addMonitoredItem cb answer p (after_monitoring answer d1 ((p, item) # d2) s) =
        Done (after_monitoring answer (d1 @ [(p, item)]) d2 s)"
      by (intro addMonitoredItem_step)
    with Cons.IH [of "d1 @ [(p, item)]"] Cons.prems x show ?case by simp
  qed simp
  from this [of "[]" "items s"] have "run_all (addMonitoredItem cb answer) (map fst (items s))
      (after_monitoring answer [] (items s) s) = Done (after_monitoring answer (items s) [] s)" by simp
  moreover have "after_monitoring answer [] (items s) s = s"
    by (simp add: after_monitoring_def monitor_requests_def)
  ultimately show ?thesis by (simp add: addMonitoredItems_def)
qed

lemma map_of_fold_update:
  assumes "distinct (map fst d)" and "inj_on f (set (map fst d))" and "p \<in> set (map fst d)"
  shows "map_of (fold (\<lambda>(p, x). AList.update (f p) p) d m) (f p) = Some p"
  using assms
proof (induction d arbitrary: m)
  case (Cons y d)
  obtain q x where y: "y = (q, x)" by fastforce
  show ?case
  proof (cases "p \<in> set (map fst d)")
    case True
    with Cons y show ?thesis by simp
  next
    case False
    with Cons.prems y have p: "p = q" by simp
    have keep: "map_of (fold (\<lambda>(p, x). AList.update (f p) p) d' m') k = map_of m' k"
      if "k \<notin> f ` set (map fst d')" for d' :: "('a \<times> 'b) list" and m' k
      using that by (induction d' arbitrary: m') (auto simp: AList.update_conv')
    have "f q \<notin> f ` set (map fst d)"
      using Cons.prems(1,2) y by (auto simp: inj_on_def)
    with keep p y show ?thesis by (simp add: AList.update_conv')
  qed
qed simp

text \<open>
  C14: Setting up the subscription again after a reconnection asks the server to create one
  subscription with the connection's publishing interval, and then one monitored item for every
  registered node, in the order of registration, with the node, the index range of its first
  accessor and the id of the new subscription. Each of them is found in the map under the id
  the server gave it.
\<close>

theorem prepare_monitors_all:
  assumes wf: "wf_manager s" and reset: "subscriptionMap s = []"
      "\<forall>(p, item) \<in> set (items s). \<not> isMonitored item"
    and created: "sub_result r = UA_STATUSCODE_GOOD" "sub_callbacks r = []"
      "revisedPublishingInterval r = of_nat (unat (publishingInterval (conn s)))"
    and answers: "\<forall>p \<in> set (map fst (items s)). mon_status (answer p) = UA_STATUSCODE_GOOD \<and>
      mon_callbacks (answer p) = []"
    and ids: "inj_on (\<lambda>p. monitoredItemId (answer p)) (set (map fst (items s)))"
  shows "\<exists>t. prepare cb deleted r answer s = Done t \<and> subscriptionActive t \<and>
    subscriptionID t = sub_id r \<and>
    ua_calls t = ua_calls s @
      (if subscriptionID s = 0 then [] else [Delete_subscription (subscriptionID s)]) @
      [Create_subscription (publishingInterval (conn s))] @
      map (\<lambda>(p, item). Create_monitored_item (sub_id r) (item_node item)
        (indexRange (accessors s (hd (item_accessors item))))) (items s) \<and>
    (\<forall>p \<in> set (map fst (items s)).
       map_of (subscriptionMap t) (monitoredItemId (answer p)) = Some p)"
proof -
  let ?s1 = "if subscriptionID s \<noteq> 0 then removeSubscription deleted s else s"
  let ?s2 = "(add_call (Create_subscription (publishingInterval (conn s))) ?s1)
      \<lparr>subscriptionID := sub_id r, subscriptionActive := True\<rparr>"
  have unmon: "map (\<lambda>(p, item). (p, item\<lparr>isMonitored := False\<rparr>)) (items s) = items s"
    using reset(2) by (auto intro!: map_idI)
  have items1: "items ?s1 = items s"
    by (simp add: removeSubscription_def resetMonitoredItems_def setInactive_def Let_def unmon)
  have conn1: "conn ?s1 = conn s" by simp
  have created': "createSubscription cb deleted r s = Done ?s2"
    using created by (simp add: createSubscription_def Let_def add_call_def conn1)
  have items2: "items ?s2 = items s" using items1 by (simp add: add_call_def)
  have acc2: "accessors ?s2 = accessors s" by (simp add: add_call_def)
  have map2: "subscriptionMap ?s2 = []" using reset(1) by (simp add: add_call_def)
  have calls2: "ua_calls ?s2 = ua_calls s @
      (if subscriptionID s = 0 then [] else [Delete_subscription (subscriptionID s)]) @
      [Create_subscription (publishingInterval (conn s))]"
    by (simp add: add_call_def removeSubscription_def resetMonitoredItems_def setInactive_def Let_def)
  have wf2: "wf_manager ?s2"
    using wf by (simp add: add_call_def removeSubscription_wf)
  have all: "filter (\<lambda>(p, item). \<not> isMonitored item) (items s) = items s"
    using reset(2) by (auto simp: filter_id_conv)
  let ?t = "after_monitoring answer (items s) [] ?s2"
  have t: "prepare cb deleted r answer s = Done ?t"
    using addMonitoredItems_closed [OF wf2, of answer cb] answers items2
    by (simp add: prepare_def created')
  have "map_of (subscriptionMap ?t) (monitoredItemId (answer p)) = Some p"
    if "p \<in> set (map fst (items s))" for p
  proof -
    have "distinct (map fst (items s))" using wf by (simp add: wf_manager_def wf_items_def)
    from map_of_fold_update [OF this ids that] show ?thesis
      by (simp add: after_monitoring_def all map2)
  qed
  moreover have "ua_calls ?t = ua_calls s @
      (if subscriptionID s = 0 then [] else [Delete_subscription (subscriptionID s)]) @
      [Create_subscription (publishingInterval (conn s))] @
      map (\<lambda>(p, item). Create_monitored_item (sub_id r) (item_node item)
        (indexRange (accessors s (hd (item_accessors item))))) (items s)"
    unfolding after_monitoring_def monitor_requests_def all using calls2 acc2 by simp
  moreover have "subscriptionActive ?t" "subscriptionID ?t = sub_id r"
    by (simp_all add: after_monitoring_def)
  ultimately show ?thesis using t by blast
qed

definition good_create :: "variant callback create_answer" where
  "good_create = \<lparr>sub_result = 0, sub_id = 5, revisedPublishingInterval = 500, sub_callbacks = []\<rparr>"

definition good_monitor :: "addr \<Rightarrow> variant callback monitor_answer" where
  "good_monitor p = \<lparr>mon_status = 0, mon_status_name = [], monitoredItemId = word_of_nat p + 1,
     mon_callbacks = []\<rparr>"

theorem prepare_monitors_all_witness:
  "\<exists>t. prepare client_callback False good_create good_monitor (resetMonitoredItems running_backend) =
     Done t \<and> subscriptionActive t \<and>
     ua_calls t = [Delete_subscription 9, Create_subscription 500,
       Create_monitored_item 5 UA_NODEID_NULL [], Create_monitored_item 5 UA_NODEID_NULL [],
       Create_monitored_item 5 UA_NODEID_NULL []] \<and>
     map_of (subscriptionMap t) 2 = Some 1"
proof -
  let ?s = "resetMonitoredItems running_backend"
  have fsts: "map fst (items ?s) = [0, 1, 2]" "subscriptionID ?s = 9" "ua_calls ?s = []"
    "publishingInterval (conn ?s) = 500"
    "map (\<lambda>(p, item). Create_monitored_item 5 (item_node item)
        (indexRange (accessors ?s (hd (item_accessors item))))) (items ?s) =
      [Create_monitored_item 5 UA_NODEID_NULL [], Create_monitored_item 5 UA_NODEID_NULL [],
       Create_monitored_item 5 UA_NODEID_NULL []]"
    by (simp_all add: resetMonitoredItems_def running_backend_def sample_item_def blank_backend_def
        blank_connection_def)
  have wf: "wf_manager ?s" by (rule resetMonitoredItems_wf [OF wf_running])
  have none: "\<forall>(p, item) \<in> set (items ?s). \<not> isMonitored item"
    by (auto simp: resetMonitoredItems_def)
  have inj: "inj_on (\<lambda>p. monitoredItemId (good_monitor p)) (set (map fst (items ?s)))"
    unfolding fsts by (simp add: good_monitor_def)
  have sel: "sub_result good_create = 0" "sub_callbacks good_create = []" "sub_id good_create = 5"
    "revisedPublishingInterval good_create = 500" "mon_status (good_monitor p) = 0"
    "mon_callbacks (good_monitor p) = []" "monitoredItemId (good_monitor 1) = 2" for p
    by (simp_all add: good_create_def good_monitor_def)
  from prepare_monitors_all [OF wf resetMonitoredItems_map none _ _ _ _ inj,
      of good_create client_callback False]
  obtain t where t: "prepare client_callback False good_create good_monitor ?s = Done t"
    "subscriptionActive t" and calls: "ua_calls t = ua_calls ?s @
      (if subscriptionID ?s = 0 then [] else [Delete_subscription (subscriptionID ?s)]) @
      [Create_subscription (publishingInterval (conn ?s))] @
      map (\<lambda>(p, item). Create_monitored_item 5 (item_node item)
        (indexRange (accessors ?s (hd (item_accessors item))))) (items ?s)"
    and map: "\<forall>p \<in> set (map fst (items ?s)).
       map_of (subscriptionMap t) (monitoredItemId (good_monitor p)) = Some p"
    by (simp add: sel fsts(4)) blast
  from map have "map_of (subscriptionMap t) (monitoredItemId (good_monitor 1)) = Some 1"
    unfolding fsts(1) by simp
  moreover have "ua_calls t = [Delete_subscription 9, Create_subscription 500,
       Create_monitored_item 5 UA_NODEID_NULL [], Create_monitored_item 5 UA_NODEID_NULL [],
       Create_monitored_item 5 UA_NODEID_NULL []]"
    unfolding calls fsts by simp
  ultimately show ?thesis using t unfolding sel by blast
qed

section \<open>Losing, opening and closing the connection\<close>

lemma connection_loss_result:
  assumes "reachable s" and "opened s" and "run s"
    and "\<not> (channel = Channel_open \<and> session = Session_activated)"
  shows "\<exists>t. stateCallback channel session s = Done t \<and>
    channelState (conn t) = channel \<and> sessionState (conn t) = session \<and>
    \<not> run t \<and> \<not> asyncReadActive t \<and> (subscriptionActive s \<longrightarrow> subscriptionNeedsToBeRemoved t) \<and>
    (\<forall>a. notifications (accessors t a) = notifications (accessors s a) @ replicate
       (pending_count (items s) a) (Pushed_exception ''Client session is not open any more.'')) \<and>
    responseHandler i v t = Done t"
proof -
  from assms(1) have inv: "backend_inv s" by (rule reachable_inv)
  with assms(3) have thread: "opcuaThread s" and m: "has_manager s" and reg: "registered s"
    by (auto simp: backend_inv_def thread_ok_def)
  let ?m = "''Client session is not open any more.''"
  let ?s1 = "s\<lparr>conn := (conn s)\<lparr>channelState := channel, sessionState := session\<rparr>\<rparr>"
  let ?s2 = "handleException ?m ?s1"
  have wf1: "wf_manager ?s1" using inv by (simp add: backend_inv_def)
  have wf2: "wf_manager ?s2" using wf_manager_skel [OF skel_handleException wf1] .
  have cb: "stateCallback channel session s = deactivate True False ?s2"
    using assms(2,3,4) reg m
    by (auto simp: stateCallback_def isConnected_def Let_def deactivateAllAndPushException_def)
  have "\<exists>t. deactivate True False ?s2 = Done t"
    using thread by (simp add: deactivate_def deactivate_items_wf [OF wf2] Let_def)
  then obtain t where t: "deactivate True False ?s2 = Done t" ..
  have "conn t = conn ?s1" "subscriptionActive s \<longrightarrow> subscriptionNeedsToBeRemoved t"
    using t thread unfolding deactivate_def deactivate_items_wf [OF wf2] seq.simps Let_def
    by (auto split: if_splits)
  moreover have "accessors ?s2 a = (accessors s a)\<lparr>notifications := notifications (accessors s a) @
      replicate (pending_count (items s) a) (Pushed_exception ?m)\<rparr>" for a
    using handleException_eq [of ?s1 ?m] wf1 by (simp add: wf_manager_def wf_items_def)
  moreover note deactivate_silences_facts [OF wf2 t, of i v]
  ultimately show ?thesis using cb t by (intro exI [of _ t]) simp
qed

text \<open>
  C15: When the state callback reports that an open device is no longer connected while the client
  thread runs, the thread is told to stop, every accessor of an active item that has not reported
  an exception yet gets one, no value is delivered any more, and a subscription that was active is
  left for the thread to remove.
\<close>

theorem connection_loss:
  assumes "reachable s" and "opened s" and "run s"
    and "\<not> (channel = Channel_open \<and> session = Session_activated)"
  shows "\<exists>t. stateCallback channel session s = Done t \<and>
    channelState (conn t) = channel \<and> sessionState (conn t) = session \<and>
    \<not> run t \<and> \<not> asyncReadActive t \<and> (subscriptionActive s \<longrightarrow> subscriptionNeedsToBeRemoved t) \<and>
    (\<forall>a. notifications (accessors t a) = notifications (accessors s a) @ replicate
       (pending_count (items s) a) (Pushed_exception ''Client session is not open any more.'')) \<and>
    responseHandler i v t = Done t"
  by (rule connection_loss_result [OF assms])

text \<open>A device that was opened and activated.\<close>

definition quiet_reset_answer :: "variant reset_answer" where
  "quiet_reset_answer = \<lparr>rs_deleted = False, rs_iterations = [], rs_thread_deleted = False,
     rs_disconnect = []\<rparr>"

definition good_open :: "variant open_answer" where
  "good_open = \<lparr>op_iterations = [], op_thread_deleted = False, op_reset = quiet_reset_answer,
     op_connect = \<lparr>connect_result = 0, connect_result_name = [],
       connect_callbacks = [State_changed Channel_open Session_activated]\<rparr>,
     op_deleted = False, op_create = good_create, op_monitor = good_monitor,
     op_waiting = (\<lambda>i. [])\<rparr>"

definition opened_backend :: "variant backend" where
  "opened_backend = blank_backend\<lparr>conn := blank_connection\<lparr>channelState := Channel_open,
       sessionState := Session_activated\<rparr>,
     ua_calls := [Client_disconnect, Client_connect ''opc.tcp://host:4840''], opened := True\<rparr>"

definition active_backend :: "variant backend" where
  "active_backend = opened_backend\<lparr>ua_calls := ua_calls opened_backend @ [Create_subscription 500],
     has_manager := True, subscriptionID := 5, subscriptionActive := True, asyncReadActive := True,
     run := True, opcuaThread := True, thread_live := True\<rparr>"

lemma valid_good_create: "valid_response good_create"
  by (simp add: valid_response_def good_create_def double_to_ulong_def truncate_rat_def)

lemma open_blank: "perform (Open good_open) blank_backend = Done opened_backend"
  by (simp add: open_device_def good_open_def blank_backend_def opened_backend_def isConnected_def
      blank_connection_def connect_def resetClient_def close_connection_def quiet_reset_answer_def add_call_def
      connect_call_def stateCallback_def Let_def wait_connected.simps)

lemma activate_opened:
  "perform (Activate_async True False good_create good_monitor) opened_backend = Done active_backend"
  by (simp add: activateAsyncRead_def activate_def activateSubscriptionSupport_def new_manager_def
      opened_backend_def active_backend_def createSubscription_def good_create_def add_call_def
      blank_backend_def blank_connection_def start_def activate_items_def Let_def)

lemma reachable_active: "reachable active_backend"
proof -
  have "enabled (Open good_open) blank_backend"
    by (simp add: quiet_open_def quiet_reset_def quiet_def good_open_def quiet_reset_answer_def
        valid_good_create)
  then have "backend_step blank_backend (Open good_open) opened_backend"
    using open_blank by (rule backend_step.returns)
  moreover have "backend_step opened_backend (Activate_async True False good_create good_monitor)
      active_backend"
    by (rule backend_step.returns [OF _ activate_opened]) (simp add: valid_good_create)
  ultimately show ?thesis
    by (blast intro: reachable.intros initial_blank)
qed

theorem connection_loss_witness:
  "\<exists>t. stateCallback Channel_closed Session_closed active_backend = Done t \<and> \<not> run t \<and>
     subscriptionNeedsToBeRemoved t"
proof -
  have "opened active_backend" "run active_backend" "subscriptionActive active_backend"
    "\<not> (Channel_closed = Channel_open \<and> Session_closed = Session_activated)"
    by (simp_all add: active_backend_def opened_backend_def)
  from connection_loss [OF reachable_active this(1,2,4)] this(3) show ?thesis by blast
qed

lemma wait_connected_result:
  "wait_connected during i s = Done t \<Longrightarrow> isConnected (conn t)"
proof (induction during i s arbitrary: t rule: wait_connected.induct)
  case (1 during i s)
  show ?case
  proof (cases "isConnected (conn s)")
    case True
    with 1(2) show ?thesis by (subst (asm) wait_connected.simps) simp
  next
    case False
    with 1(2) obtain u where u: "(if Suc i > 4
        then Throws (Runtime_error ''Connection could not be established.'') u
        else wait_connected during (Suc i) u) = Done t"
      by (subst (asm) wait_connected.simps) (auto simp: seq_eq_Done)
    then have "\<not> Suc i > 4" by (cases "Suc i > 4") auto
    with 1(1) [OF False this] u show ?thesis by simp
  qed
qed

text \<open>
  Opening returns normally only with a connected session and marks the device as open; a device
  that is connected already is opened without any call to the server. The wait for the connection
  gives up with an exception after five sleeps in which the state did not change.
\<close>

theorem open_device_connects:
  "(\<forall>t. open_device a s = Done t \<longrightarrow> isConnected (conn t) \<and> opened t) \<and>
   (isConnected (conn s) \<longrightarrow> open_device a s = Done (s\<lparr>opened := True\<rparr>)) \<and>
   (\<not> isConnected (conn s) \<and> (\<forall>i < 5. during i = []) \<longrightarrow>
     wait_connected during 0 s = Throws (Runtime_error ''Connection could not be established.'') s)"
proof (intro conjI allI impI)
  fix t assume "open_device a s = Done t"
  then obtain u w where "wait_connected (op_waiting a) 0 u = Done w" and t: "t = w\<lparr>opened := True\<rparr>"
    unfolding open_device_def seq_eq_Done by blast
  from wait_connected_result [OF this(1)] show "isConnected (conn t)" "opened t"
    by (simp_all add: t)
next
  assume "isConnected (conn s)"
  then show "open_device a s = Done (s\<lparr>opened := True\<rparr>)"
    by (simp add: open_device_def wait_connected.simps)
next
  assume none: "\<not> isConnected (conn s) \<and> (\<forall>i < 5. during i = [])"
  then have step: "wait_connected during i s = (if Suc i > 4
      then Throws (Runtime_error ''Connection could not be established.'') s
      else wait_connected during (Suc i) s)" if "i < 5" for i
    using that by (subst wait_connected.simps) simp
  show "wait_connected during 0 s = Throws (Runtime_error ''Connection could not be established.'') s"
    by (simp add: step)
qed

theorem open_device_connects_witness:
  "open_device good_open opened_backend = Done opened_backend \<and>
   wait_connected (\<lambda>i. []) 0 blank_backend =
     Throws (Runtime_error ''Connection could not be established.'') blank_backend"
proof -
  have "isConnected (conn opened_backend)" "\<not> isConnected (conn blank_backend)"
    "opened_backend\<lparr>opened := True\<rparr> = opened_backend"
    by (simp_all add: opened_backend_def blank_backend_def blank_connection_def isConnected_def)
  with open_device_connects [of good_open opened_backend "\<lambda>i. []"]
    open_device_connects [of good_open blank_backend "\<lambda>i. []"] show ?thesis by simp
qed

text \<open>A closed device without anything monitored.\<close>

definition detached :: "'v backend \<Rightarrow> bool" where
  "detached s \<longleftrightarrow> \<not> opened s \<and> subscriptionMap s = [] \<and>
     (\<forall>(p, item) \<in> set (items s). \<not> isMonitored item)"

lemma detached_skel:
  assumes sk: "skel t = skel s" and d: "detached s"
  shows "detached t"
proof -
  from sk have items: "map (\<lambda>(p, item). (p, item_skel item)) (items t) =
      map (\<lambda>(p, item). (p, item_skel item)) (items s)"
    and map: "subscriptionMap t = subscriptionMap s"
    by (simp_all add: skel_def)
  have "\<not> isMonitored item" if "(p, item) \<in> set (items t)" for p item
  proof -
    from that have "(p, item_skel item) \<in> set (map (\<lambda>(p, item). (p, item_skel item)) (items t))"
      by force
    then obtain x where "(p, x) \<in> set (items s)" and "item_skel item = item_skel x"
      unfolding items by auto
    with d have "\<not> isMonitored x" by (auto simp: detached_def)
    with item_skel_eq(1) [OF \<open>item_skel item = item_skel x\<close>] show ?thesis by simp
  qed
  moreover have "\<not> opened t" using d skel_more_eq(3) [OF sk] by (simp only: detached_def) simp
  moreover have "subscriptionMap t = []" using d map by (simp only: detached_def)
  ultimately show ?thesis unfolding detached_def by blast
qed

lemma detached_update [simp]:
  "detached (s\<lparr>run := b\<rparr>) = detached s"
  "detached (s\<lparr>thread_live := b\<rparr>) = detached s"
  "detached (s\<lparr>opcuaThread := b\<rparr>) = detached s"
  "detached (s\<lparr>subscriptionNeedsToBeRemoved := b\<rparr>) = detached s"
  "detached (add_call c s) = detached s"
  by (simp_all add: detached_def add_call_def)

lemma opened_remove [simp]:
  "opened (removeSubscription d s) = opened s" "opened (resetMonitoredItems s) = opened s"
  by (simp_all add: removeSubscription_def resetMonitoredItems_def setInactive_def Let_def)

lemma detached_reset: "\<not> opened s \<Longrightarrow> detached (resetMonitoredItems s)"
  by (auto simp: detached_def resetMonitoredItems_def)

lemma detached_remove: "\<not> opened s \<Longrightarrow> detached (removeSubscription d s)"
  by (simp add: removeSubscription_def Let_def detached_reset setInactive_def)

lemma callbacks_detached: "detached s \<Longrightarrow> post detached (run_all client_callback es s)"
  by (rule post_mono [OF client.cbs_skel]) (rule detached_skel)

lemma stopClientThread_detached:
  assumes "detached s"
  shows "post detached (stopClientThread client_callback its del s)"
proof -
  have loop: "post detached (client_loop client_callback its u)" if "detached u" for u :: "'a backend"
    using that
  proof (induction its arbitrary: u)
    case (Cons it its)
    have "post detached (seq (run_all client_callback (iterate_callbacks it) u) (\<lambda>s.
             if subscriptionNeedsToBeRemoved s \<or> iterate_status it \<noteq> UA_STATUSCODE_GOOD
             then Done s else client_loop client_callback its s))"
      by (rule post_seq [OF callbacks_detached [OF Cons.prems]]) (simp add: Cons.IH)
    with Cons.prems show ?case by simp
  qed simp
  have "post detached (runClient client_callback its del u)" if "detached u" for u :: "'a backend"
    unfolding runClient_def
  proof (rule post_seq [OF loop [OF that]])
    fix t :: "'a backend" assume "detached t"
    then show "post detached (Done ((if subscriptionNeedsToBeRemoved t
        then (removeSubscription del t)\<lparr>subscriptionNeedsToBeRemoved := False\<rparr> else t)
        \<lparr>run := False, thread_live := False\<rparr>))"
      using detached_remove [of t del] by (simp add: detached_def [of t])
  qed
  with assms show ?thesis unfolding stopClientThread_def by (auto intro!: post_seq)
qed

lemma deactivate_opened: "post (\<lambda>t. opened t = opened s) (deactivate locked d s)"
  by (simp add: deactivate_def deactivate_items_def Let_def)

lemma stopped_thread:
  "stopClientThread cb its del s = Done t \<Longrightarrow> \<not> opcuaThread t"
  by (auto simp: stopClientThread_def seq_eq_Done split: if_splits)

text \<open>A manager whose thread does not run and whose subscription is switched off: callbacks leave it so, make
  no calls and keep a removal request.\<close>

definition switched_off :: "'v ua_call list \<Rightarrow> bool \<Rightarrow> u32 \<Rightarrow> ('v, 'z) manager_scheme \<Rightarrow> bool" where
  "switched_off c n i s \<longleftrightarrow> \<not> run s \<and> \<not> subscriptionActive s \<and> \<not> asyncReadActive s \<and> ua_calls s = c \<and>
     subscriptionNeedsToBeRemoved s = n \<and> (subscriptionID s = i \<or> subscriptionID s = 0)"

lemma callback_switched_off: "switched_off c n i s \<Longrightarrow> post (switched_off c n i) (client_callback e s)"
  by (cases e) (auto simp: switched_off_def stateCallback_def inactivityCallback_def deleteSubscriptionCallback_def
      responseHandler_def setInactive_def modify_item_def push_all_eq Let_def split: option.split)

lemma callbacks_switched_off: "switched_off c n i s \<Longrightarrow> post (switched_off c n i) (run_all client_callback es s)"
  by (rule run_all_post [OF callback_switched_off])

text \<open>Stopping the thread of a manager that has been deactivated: the loop is not entered again, and a removal request
  is executed if the thread is still there to do it.\<close>

lemma stop_switched_off:
  assumes "switched_off c n i s" and "stopClientThread cb its del s = Done t" and "thread_live s \<Longrightarrow> opcuaThread s"
  shows "if n \<and> thread_live s then switched_off (c @ [Delete_subscription (subscriptionID s)]) False 0 t
    else switched_off c n i t"
proof -
  from assms(1) have "\<not> run s" by (simp add: switched_off_def)
  then have "client_loop cb its s = Done s" by (cases its) simp_all
  with assms show ?thesis
    by (auto simp: stopClientThread_def runClient_def switched_off_def removeSubscription_def resetMonitoredItems_def
        setInactive_def Let_def split: if_splits)
qed

lemma deactivate_switched_off:
  assumes "deactivate False del s = Done t"
  shows "thread_live t = thread_live s \<and> opcuaThread t = opcuaThread s \<and>
    (if subscriptionActive s \<and> \<not> opcuaThread s
     then switched_off (ua_calls s @ [Delete_subscription (subscriptionID s)]) (subscriptionNeedsToBeRemoved s) 0 t
     else subscriptionID t = subscriptionID s \<and>
       switched_off (ua_calls s) (subscriptionNeedsToBeRemoved s \<or> subscriptionActive s) (subscriptionID s) t)"
  using assms
  by (auto simp: deactivate_def deactivate_items_def switched_off_def removeSubscription_def resetMonitoredItems_def
      setInactive_def Let_def split: if_splits)

text \<open>What switching off the subscription leaves of it, and what the server is asked.\<close>

lemma close_switches_off:
  assumes "thread_ok s" and u: "deactivate False d (s\<lparr>opened := False\<rparr>) = Done u"
    and v: "stopClientThread client_callback is del (resetMonitoredItems u) = Done v"
    and t: "run_all client_callback es (add_call Client_disconnect v) = Done t"
  shows "\<not> subscriptionActive t \<and> \<not> asyncReadActive t \<and> ua_calls t = ua_calls s @
      (if thread_live s \<and> (subscriptionActive s \<or> subscriptionNeedsToBeRemoved s) \<or>
          \<not> opcuaThread s \<and> subscriptionActive s
       then [Delete_subscription (subscriptionID s)] else []) @ [Client_disconnect] \<and>
    (subscriptionActive s \<and> (thread_live s \<or> \<not> opcuaThread s) \<longrightarrow> subscriptionID t = 0) \<and>
    (subscriptionNeedsToBeRemoved t \<longleftrightarrow> \<not> thread_live s \<and>
       (subscriptionNeedsToBeRemoved s \<or> subscriptionActive s \<and> opcuaThread s))"
proof -
  have live: "thread_live s \<Longrightarrow> opcuaThread s" using assms(1) by (simp add: thread_ok_def)
  have reset: "switched_off c n i (resetMonitoredItems u) = switched_off c n i u" for c n i
    by (simp add: switched_off_def resetMonitoredItems_def)
  have frame: "thread_live (resetMonitoredItems u) = thread_live u" "opcuaThread (resetMonitoredItems u) = opcuaThread u"
    "subscriptionID (resetMonitoredItems u) = subscriptionID u" by (simp_all add: resetMonitoredItems_def)
  have end_off: "switched_off (c @ [Client_disconnect]) n i t" if "switched_off c n i v" for c n i
    using callbacks_switched_off [of "c @ [Client_disconnect]" n i "add_call Client_disconnect v" es] that t
    by (simp add: switched_off_def add_call_def)
  note stop = stop_switched_off [OF _ v, unfolded reset frame]
  show ?thesis
  proof (cases "subscriptionActive s \<and> \<not> opcuaThread s")
    case True
    with deactivate_switched_off [OF u] have "switched_off (ua_calls s @ [Delete_subscription (subscriptionID s)])
        (subscriptionNeedsToBeRemoved s) 0 u" and "\<not> thread_live u" and "\<not> thread_live s" using live by auto
    from stop [OF this(1)] \<open>\<not> thread_live u\<close> have "switched_off (ua_calls s @ [Delete_subscription (subscriptionID s)])
        (subscriptionNeedsToBeRemoved s) 0 v" by simp
    from end_off [OF this] \<open>\<not> thread_live s\<close> True show ?thesis by (auto simp: switched_off_def)
  next
    case False
    let ?n = "subscriptionNeedsToBeRemoved s \<or> subscriptionActive s"
    from False deactivate_switched_off [OF u] have i: "switched_off (ua_calls s) ?n (subscriptionID s) u"
      and eq: "thread_live u = thread_live s" "opcuaThread u = opcuaThread s" "subscriptionID u = subscriptionID s"
      by (simp_all split: if_splits)
    have "switched_off (if ?n \<and> thread_live s then ua_calls s @ [Delete_subscription (subscriptionID s)] else ua_calls s)
        (?n \<and> \<not> thread_live s) (if ?n \<and> thread_live s then 0 else subscriptionID s) v"
      using stop [OF i] live unfolding eq by (auto split: if_splits)
    from end_off [OF this] False live show ?thesis by (cases "thread_live s"; cases ?n) (auto simp: switched_off_def)
  qed
qed

text \<open>
  C18: After a device has been closed, the client thread is gone and joined, the subscription and asynchronous reading
  are switched off, nothing is monitored, the subscription map is empty and the device is not open,
  whatever happened meanwhile. The accessors stay registered. A subscription that was active is deleted at the
  server, once and before the disconnect, if its thread is alive or there is none; if the thread has
  ended by itself, it is not deleted and the request to remove it stays set.
\<close>

theorem close_device_quiesces:
  assumes "reachable s" and "has_manager s" and "close_device a s = Done t"
  shows "\<not> opened t \<and> \<not> run t \<and> \<not> thread_live t \<and> \<not> opcuaThread t \<and> subscriptionMap t = [] \<and>
    (\<forall>(p, item) \<in> set (items t). \<not> isMonitored item) \<and> registry t = registry s \<and>
    \<not> subscriptionActive t \<and> \<not> asyncReadActive t \<and>
    ua_calls t = ua_calls s @
      (if thread_live s \<and> (subscriptionActive s \<or> subscriptionNeedsToBeRemoved s) \<or>
          \<not> opcuaThread s \<and> subscriptionActive s
       then [Delete_subscription (subscriptionID s)] else []) @ [Client_disconnect] \<and>
    (subscriptionActive s \<and> (thread_live s \<or> \<not> opcuaThread s) \<longrightarrow> subscriptionID t = 0) \<and>
    (subscriptionNeedsToBeRemoved t \<longleftrightarrow> \<not> thread_live s \<and>
       (subscriptionNeedsToBeRemoved s \<or> subscriptionActive s \<and> opcuaThread s))"
proof -
  let ?s0 = "s\<lparr>opened := False\<rparr>"
  note inv = reachable_inv [OF assms(1)]
  from assms(2,3) obtain u v where u: "deactivate False (rs_deleted a) ?s0 = Done u"
    and v: "stopClientThread client_callback (rs_iterations a) (rs_thread_deleted a)
        (resetMonitoredItems u) = Done v"
    and t: "run_all client_callback (rs_disconnect a) (add_call Client_disconnect v) = Done t"
    by (auto simp: close_device_def resetClient_def close_connection_def seq_eq_Done)
  have "\<not> opened u" using deactivate_opened [of ?s0 False "rs_deleted a"] by (simp add: u)
  from stopClientThread_detached [OF detached_reset [OF this], of "rs_iterations a" "rs_thread_deleted a"]
  have "detached v" by (simp add: v)
  then have "detached (add_call Client_disconnect v)" by simp
  from callbacks_detached [OF this, of "rs_disconnect a"] t have "detached t" by simp
  moreover have "\<not> opcuaThread t"
  proof -
    have "post (thread_kept (add_call Client_disconnect v))
        (run_all client_callback (rs_disconnect a) (add_call Client_disconnect v))"
      by (rule client.cbs_thread)
    with t stopped_thread [OF v] show ?thesis by (simp add: thread_kept_def add_call_def)
  qed
  moreover have "thread_ok t"
  proof -
    have "sound (has_manager ?s0) (resetClient a ?s0)"
      by (rule resetClient_sound) (use inv assms(2) in simp_all)
    with assms(3) show ?thesis by (simp add: close_device_def inv_thread)
  qed
  moreover have "registry t = registry s"
    using perform_registry [OF inv, of "Close a"] assms(3) by simp
  moreover note close_switches_off [OF inv_thread [OF inv] u v t]
  ultimately show ?thesis by (auto simp: detached_def thread_ok_def)
qed

theorem close_device_quiesces_witness:
  "\<exists>t. close_device quiet_reset_answer active_backend = Done t \<and> \<not> opened t \<and> \<not> opcuaThread t \<and>
     \<not> thread_live t"
proof -
  have "\<exists>t. close_device quiet_reset_answer active_backend = Done t"
    by (simp add: close_device_def resetClient_def close_connection_def quiet_reset_answer_def active_backend_def
        opened_backend_def blank_backend_def deactivate_def deactivate_items_def Let_def
        stopClientThread_def runClient_def resetMonitoredItems_def)
  then obtain t where t: "close_device quiet_reset_answer active_backend = Done t" ..
  have "has_manager active_backend" by (simp add: active_backend_def)
  from close_device_quiesces [OF reachable_active this t] t show ?thesis by blast
qed

section \<open>A second accessor on a node\<close>

text \<open>
  C31: An accessor that is attached to an active node is entered behind the other accessors of its item and handed
  the value that the next read of the last of them would see: if entries wait in that accessor's queue, the one at
  the front, and otherwise the data it has taken last, in both cases with the status replaced by good. Nothing is
  handed over if there is no value. If an exception waits at the front, the call fails with it, after
  the accessor has been entered and without a value for it. No other queue and no data are touched.
\<close>

theorem subscribe_initial_value:
  assumes "find_index (\<lambda>(p, item). browseName item = name) (items s) = Some k"
    and "items s ! k = (p, item)" and "item_active item" and "item_accessors item \<noteq> []"
    and "future_queue contents n"
  shows "let source = accessors s (last (item_accessors item));
      result = subscribe cb deleted r answer (front_of contents) name node a s;
      entered = modify_item p (\<lambda>x. x\<lparr>item_accessors := item_accessors x @ [a]\<rparr>) s;
      given = (\<lambda>d. if hasValue d then Done (push_all (Pushed (copied_value d)) [a] entered) else Done entered)
    in case contents (notifications source) of
         [] \<Rightarrow> result = given (acc_data source)
       | n # q \<Rightarrow> (\<exists>d. n = Pushed d \<and> result = given d) \<or>
           (\<exists>m. n = Pushed_exception m \<and> result = Throws (Runtime_error m) entered)"
proof -
  let ?source = "accessors s (last (item_accessors item))"
  let ?entered = "modify_item p (\<lambda>x. x\<lparr>item_accessors := item_accessors x @ [a]\<rparr>) s"
  have *: "accessors ?entered = accessors s" by (simp add: modify_item_def)
  note eval = subscribe_def assms(1,2,4) if_P [OF assms(3)] * Let_def front_of_def
  show ?thesis
  proof (cases "contents (notifications ?source)")
    case Nil
    then show ?thesis by (simp add: eval)
  next
    case (Cons n q)
    then have "n \<noteq> Taken" using future_queue.no_marker [OF assms(5), of "notifications ?source"] by auto
    with Cons show ?thesis by (cases n) (simp_all add: eval)
  qed
qed

theorem subscribe_initial_value_witness:
  "subscribe client_callback False good_create good_monitor (front_of (last_overwritten 3))
     ''b'' UA_NODEID_NULL 8 (push_all (Pushed (init_value\<lparr>hasValue := True\<rparr>)) [3] running_backend) =
   Done (push_all (Pushed (init_value\<lparr>hasValue := True\<rparr>)) [8]
     (modify_item 1 (\<lambda>x. x\<lparr>item_accessors := item_accessors x @ [8]\<rparr>)
       (push_all (Pushed (init_value\<lparr>hasValue := True\<rparr>)) [3] running_backend)))"
proof -
  let ?s = "push_all (Pushed (init_value\<lparr>hasValue := True\<rparr>)) [3] running_backend"
  have item: "find_index (\<lambda>(p, item). browseName item = ''b'') (items ?s) = Some 1"
    "items ?s ! 1 = (1, sample_item ''b'' [3] 12)"
    "item_active (sample_item ''b'' [3] 12)" "item_accessors (sample_item ''b'' [3] 12) \<noteq> []"
    by (simp_all add: running_backend_def sample_item_def push_all_def push_notification_def)
  have "last_overwritten 3 (notifications (accessors ?s 3)) = [Pushed (init_value\<lparr>hasValue := True\<rparr>)]"
    by (simp add: last_overwritten_def push_all_def push_notification_def running_backend_def blank_backend_def)
  with subscribe_initial_value [OF item queue_3.future_queue_axioms, where a = 8 and cb = client_callback
      and deleted = False and r = good_create and answer = good_monitor and node = UA_NODEID_NULL]
  show ?thesis by (simp add: copied_value_def init_value_def sample_item_def)
qed

section \<open>Where the code misses its contract\<close>

text \<open>A device with three accessors that was opened and activated.\<close>

definition attach_event :: "string \<Rightarrow> acc_id \<Rightarrow> event" where
  "attach_event name a = Attach \<lparr>at_deleted = False, at_create = good_create, at_monitor = good_monitor,
     at_front = (\<lambda>_. None)\<rparr> name UA_NODEID_NULL a"

definition busy_item :: "string \<Rightarrow> acc_id \<Rightarrow> u32 \<Rightarrow> monitor_item" where
  "busy_item name a i = \<lparr>item_node = UA_NODEID_NULL, item_accessors = [a], item_id = i,
     item_active = True, isMonitored = True, hasException = False, browseName = name\<rparr>"

definition busy_backend :: "variant backend" where
  "busy_backend = active_backend\<lparr>
     ua_calls := [Client_disconnect, Client_connect ''opc.tcp://host:4840'', Create_subscription 500,
       Create_monitored_item 5 UA_NODEID_NULL [], Create_monitored_item 5 UA_NODEID_NULL [],
       Create_monitored_item 5 UA_NODEID_NULL []],
     items := [(0, busy_item ''a'' 1 1), (1, busy_item ''b'' 2 2), (2, busy_item ''c'' 3 3)],
     subscriptionMap := [(1, 0), (2, 1), (3, 2)], next_addr := 3\<rparr>"

text \<open>The state after a sequence of events, if each of them can happen and ends.\<close>

primrec trace :: "event list \<Rightarrow> variant backend \<Rightarrow> variant backend option" where
  "trace [] s = Some s"
| "trace (e # es) s =
     (if enabled e s
      then (case perform e s of Done t \<Rightarrow> trace es t | Throws x t \<Rightarrow> trace es t | _ \<Rightarrow> None)
      else None)"

lemma reachable_trace: "reachable s \<Longrightarrow> trace es s = Some t \<Longrightarrow> reachable t"
proof (induction es arbitrary: s)
  case (Cons e es)
  then show ?case
    by (auto split: if_splits result.splits intro: reachable.step backend_step.intros)
qed simp

definition busy_events :: "event list" where
  "busy_events = [attach_event ''a'' 1, attach_event ''b'' 2, attach_event ''c'' 3, Open good_open,
     Activate_async True False good_create good_monitor]"

lemmas backend_eval =
  attach_def subscribe_def activateSubscriptionSupport_def new_manager_def MonitorItem_def
  open_device_def connect_def resetClient_def close_connection_def deactivate_def deactivate_items_def
  resetMonitoredItems_def stopClientThread_def runClient_def stateCallback_def isConnected_def
  connect_call_def wait_connected.simps prepare_def createSubscription_def addMonitoredItems_def
  addMonitoredItem_def modify_item_def deque_modify_def add_call_def activateAsyncRead_def
  activate_def activate_items_def start_def removeSubscription_def setInactive_def Let_def

lemma quiet_good_open: "quiet_open good_open \<and> valid_response (op_create good_open)"
  using valid_good_create
  by (simp add: quiet_open_def quiet_reset_def quiet_def good_open_def quiet_reset_answer_def)

lemma busy_run: "trace busy_events blank_backend = Some busy_backend"
  using quiet_good_open valid_good_create
  by (simp add: busy_events_def attach_event_def backend_eval good_open_def good_create_def
      good_monitor_def quiet_reset_answer_def blank_backend_def blank_connection_def
      busy_backend_def active_backend_def opened_backend_def busy_item_def)

lemma reachable_busy: "reachable busy_backend"
  by (rule reachable_trace [OF reachable.start [OF initial_blank] busy_run])

definition quiet_detach :: "variant detach_answer" where
  "quiet_detach = \<lparr>dt_callbacks = [], dt_deleted = False, dt_iterations = [],
     dt_thread_deleted = False\<rparr>"

text \<open>
  C37: Detaching the only accessor of a node that is neither the first nor the last of the deque
  leaves the subscription map with pointers to moved items: in a reachable state the next value for
  another node is then handled through a dangling pointer.
\<close>

theorem unsubscribe_middle_dangles:
  "\<exists>s t. reachable s \<and> detach quiet_detach ''b'' 2 s = Done t \<and> thread_live t \<and>
     (\<forall>v. client_callback (Data_changed 3 v) t = Undefined)"
proof -
  have "\<exists>t. detach quiet_detach ''b'' 2 busy_backend = Done t \<and> thread_live t \<and>
      (\<forall>v. client_callback (Data_changed 3 v) t = Undefined)"
    by (simp add: detach_def quiet_detach_def unsubscribe_def busy_backend_def active_backend_def
        opened_backend_def blank_backend_def busy_item_def isConnected_def add_call_def
        deque_erase_def relocate_def responseHandler_def Let_def)
  with reachable_busy show ?thesis by blast
qed

text \<open>
  When a new node is subscribed while asynchronous reading is on without an active subscription
  and the server refuses to create one, \<open>subscribe\<close> throws, so that the constructor of the accessor
  fails; but the accessor stays in the registry, as a pointer to an object that is destroyed.
\<close>

theorem subscribe_failure_keeps_accessor:
  assumes "registry s name = None" and "asyncReadActive s" and "\<not> subscriptionActive s"
    and "sub_result r \<noteq> UA_STATUSCODE_GOOD" and "sub_callbacks r = []"
  shows "\<exists>t. subscribe cb deleted r answer front name node a s =
      Throws (Runtime_error ''Failed to set up subscription.'') t \<and> registry t name = Some [a]"
proof -
  let ?s1 = "s\<lparr>items := items s @ [(next_addr s, MonitorItem name node a)],
               next_addr := Suc (next_addr s)\<rparr>"
  let ?t = "add_call (Create_subscription (publishingInterval (conn s)))
      (if subscriptionID s \<noteq> 0 then removeSubscription deleted ?s1 else ?s1)"
  from assms(1) have none: "find_index (\<lambda>(p, item). browseName item = name) (items s) = None"
    by (simp add: registry_none)
  have "subscribe cb deleted r answer front name node a s =
      Throws (Runtime_error ''Failed to set up subscription.'') ?t"
    using assms(2-5) by (simp add: subscribe_def none createSubscription_def Let_def)
  moreover have "registry ?t = registry ?s1"
    by (rule registry_cong) (simp add: reg_view_def add_call_def removeSubscription_def
        resetMonitoredItems_def setInactive_def Let_def case_prod_unfold comp_def)
  moreover have "registry ?s1 name = Some [a]"
    using assms(1) by (simp add: registry_def MonitorItem_def map_add_def)
  ultimately show ?thesis by metis
qed

definition refused_create :: "variant callback create_answer" where
  "refused_create = \<lparr>sub_result = 0x80770000, sub_id = 0, revisedPublishingInterval = 0,
     sub_callbacks = []\<rparr>"

theorem subscribe_failure_keeps_accessor_witness:
  "\<exists>t. subscribe client_callback False refused_create good_monitor (\<lambda>_. None) ''new'' UA_NODEID_NULL 4
      (busy_backend\<lparr>subscriptionActive := False\<rparr>) =
      Throws (Runtime_error ''Failed to set up subscription.'') t \<and> registry t ''new'' = Some [4]"
proof -
  have "registry (busy_backend\<lparr>subscriptionActive := False\<rparr>) ''new'' = None"
    "asyncReadActive (busy_backend\<lparr>subscriptionActive := False\<rparr>)"
    "\<not> subscriptionActive (busy_backend\<lparr>subscriptionActive := False\<rparr>)"
    "sub_result refused_create \<noteq> 0" "sub_callbacks refused_create = []"
    by (simp_all add: registry_def busy_backend_def busy_item_def active_backend_def refused_create_def)
  then show ?thesis by (rule subscribe_failure_keeps_accessor)
qed

text \<open>
  \<open>activateAsyncRead\<close> is declared \<open>noexcept\<close>, but creating the subscription can throw: if the
  server refuses the subscription, the process is terminated.
\<close>

theorem activateAsyncRead_terminates:
  assumes "has_manager s \<longrightarrow> \<not> subscriptionActive s"
    and "sub_result r \<noteq> UA_STATUSCODE_GOOD" and "sub_callbacks r = []"
  shows "activateAsyncRead True deleted r answer s = Terminated"
proof -
  have "\<not> subscriptionActive (activateSubscriptionSupport s)"
    using assms(1) by (simp add: activateSubscriptionSupport_def new_manager_def)
  then show ?thesis
    using assms(2,3)
    by (simp add: activateAsyncRead_def activate_def createSubscription_def Let_def)
qed

theorem activateAsyncRead_terminates_witness:
  "activateAsyncRead True False refused_create good_monitor opened_backend = Terminated"
  by (rule activateAsyncRead_terminates)
    (simp_all add: opened_backend_def blank_backend_def refused_create_def)

definition bad_iteration :: "variant callback iterate_answer" where
  "bad_iteration = \<lparr>iterate_status = 0x80AE0000, iterate_callbacks = []\<rparr>"

definition good_iteration :: "variant callback iterate_answer" where
  "good_iteration = \<lparr>iterate_status = 0, iterate_callbacks = []\<rparr>"

definition stale_events :: "event list" where
  "stale_events = [Thread_end [bad_iteration] False, Set_exception False,
     Transfer_error [State_changed Channel_closed Session_closed] ''x'' ''x'' 0x80AE0000 [],
     Open good_open, Activate_async True False good_create good_monitor]"

lemma stale_run:
  "\<exists>s. trace stale_events busy_backend = Some s \<and> subscriptionNeedsToBeRemoved s \<and> run s \<and>
     thread_live s \<and> subscriptionActive s \<and> asyncReadActive s \<and>
     items s \<noteq> [] \<and> list_all (\<lambda>(p, item). isMonitored item \<and> item_active item) (items s)"
  using quiet_good_open valid_good_create
  by (simp add: stale_events_def backend_eval good_open_def good_create_def
      good_monitor_def quiet_reset_answer_def blank_backend_def blank_connection_def
      busy_backend_def active_backend_def opened_backend_def busy_item_def bad_iteration_def
      setExceptionImpl_def deactivateAllAndPushException_def handleException_def handle_item_def
      push_all_def push_notification_def handleError_def close_connection_def mark_external_def setExternalError_def)

lemma runClient_removes:
  assumes "subscriptionNeedsToBeRemoved s" and "run s" and "iterate_callbacks it = []"
  shows "runClient cb (it # its) deleted s =
    Done ((removeSubscription deleted s)\<lparr>subscriptionNeedsToBeRemoved := False, run := False,
      thread_live := False\<rparr>)"
  using assms by (simp add: runClient_def)

text \<open>
  C38: A removal request can outlive its subscription. If the client thread ends by itself and an
  accessor then reports an exception, the request stays set while the device is opened and
  activated again; the new client thread executes it in its first iteration, and asynchronous
  reading stays switched on without a subscription, and no accessor is told.
\<close>

theorem stale_removal_request:
  "\<exists>s t. reachable s \<and> run s \<and> thread_live s \<and> subscriptionActive s \<and> asyncReadActive s \<and>
     items s \<noteq> [] \<and> list_all (\<lambda>(p, item). isMonitored item \<and> item_active item) (items s) \<and>
     perform (Thread_end [good_iteration] False) s = Done t \<and>
     asyncReadActive t \<and> \<not> thread_live t \<and> subscriptionMap t = [] \<and> accessors t = accessors s \<and>
     ua_calls t = ua_calls s @ [Delete_subscription (subscriptionID s)]"
proof -
  from stale_run obtain s where tr: "trace stale_events busy_backend = Some s"
    and s: "subscriptionNeedsToBeRemoved s" "run s" "thread_live s" "subscriptionActive s"
      "asyncReadActive s" "items s \<noteq> []"
      "list_all (\<lambda>(p, item). isMonitored item \<and> item_active item) (items s)"
    by blast
  let ?t = "(removeSubscription False s)\<lparr>subscriptionNeedsToBeRemoved := False, run := False,
      thread_live := False\<rparr>"
  have "reachable s" by (rule reachable_trace [OF reachable_busy tr])
  moreover have "perform (Thread_end [good_iteration] False) s = Done ?t"
    using runClient_removes [OF s(1,2), of good_iteration client_callback "[]" False]
    by (simp add: good_iteration_def)
  moreover have "ua_calls (removeSubscription False s) =
      ua_calls s @ [Delete_subscription (subscriptionID s)]"
    by (simp add: removeSubscription_def resetMonitoredItems_def Let_def)
  ultimately show ?thesis using s by (intro exI [of _ s] exI [of _ ?t] conjI) simp_all
qed

end
