(* ===== verification/Accessor_Properties.thy ===== *)
theory Accessor_Properties
  imports Subscription_Properties Data_Frame
begin

text \<open>
  What the transfers of an accessor do: which words of the received array reach the user buffer,
  what a write sends, how an error is reported, and the inputs on which a transfer leaves the
  array it works on.
\<close>

section \<open>Callbacks return\<close>

lemma deactivate_ends:
  "deactivate locked d s \<noteq> Throws x t" "deactivate locked d s \<noteq> Terminated"
  by (simp_all add: deactivate_def deactivate_items_def Let_def)

lemma callback_ends:
  "client_callback e s \<noteq> Throws x t" "client_callback e s \<noteq> Terminated"
proof -
  have "seq (deactivateAllAndPushException locked d m u) (\<lambda>s. Done (f s)) \<noteq> Throws x t"
    "seq (deactivateAllAndPushException locked d m u) (\<lambda>s. Done (f s)) \<noteq> Terminated"
    "deactivateAllAndPushException locked d m u \<noteq> Throws x t"
    "deactivateAllAndPushException locked d m u \<noteq> Terminated"
    for locked d m f and u :: "'a backend"
    using deactivate_ends [of locked d "handleException m u"]
    by (cases "deactivate locked d (handleException m u)"; simp add: deactivateAllAndPushException_def)+
  then show "client_callback e s \<noteq> Throws x t" "client_callback e s \<noteq> Terminated"
    by (cases e; simp add: stateCallback_def inactivityCallback_def deleteSubscriptionCallback_def
        responseHandler_def Let_def split: option.split)+
qed

lemma callbacks_ends:
  "run_all client_callback es s \<noteq> Throws x t \<and> run_all client_callback es s \<noteq> Terminated"
proof (induction es arbitrary: s)
  case (Cons e es)
  then show ?case
    using callback_ends [of e s] by (cases "client_callback e s") auto
qed simp

lemma callbacks_return:
  assumes inv: "backend_inv s" and q: "has_manager s \<or> quiet es"
  obtains t where "run_all client_callback es s = Done t"
proof -
  have "run_all client_callback es s \<noteq> Undefined"
    using callbacks_safe [OF inv q] by (simp add: no_ub_iff)
  moreover have "no_deadlock (run_all client_callback es s)"
    by (rule client.thr.run_all_no_deadlock [rotated, OF inv_thread [OF inv]]) (rule client.cb_live)
  ultimately show thesis
    using callbacks_ends [of es s] that
    by (cases "run_all client_callback es s") (auto simp: no_deadlock_iff)
qed

text \<open>The callbacks that run in a call of the client library make no calls themselves and leave the data of the
  accessors alone.\<close>

lemma callback_calls: "post (\<lambda>t. ua_calls t = ua_calls s) (client_callback e s)"
proof -
  have "post (\<lambda>t. ua_calls t = ua_calls s) (deactivateAllAndPushException True d m (s\<lparr>conn := c\<rparr>))" for d m c
    by (simp add: deactivateAllAndPushException_def deactivate_def deactivate_items_def Let_def)
  from this [where c = "conn s"] this show ?thesis
    by (cases e) (auto simp: stateCallback_def inactivityCallback_def deleteSubscriptionCallback_def
        responseHandler_def setInactive_def modify_item_def push_all_eq Let_def intro!: post_seq split: option.split)
qed

lemma callbacks_calls: "post (\<lambda>t. ua_calls t = ua_calls s) (run_all client_callback es s)"
  by (rule run_all_post [where inv = "\<lambda>t. ua_calls t = ua_calls s"]) (auto intro: post_mono [OF callback_calls])

lemma callbacks_pass:
  fixes s :: "variant backend"
  assumes inv: "backend_inv s" and q: "has_manager s \<or> quiet es"
  obtains t where "run_all client_callback es s = Done t" and "backend_inv t" and "has_manager t = has_manager s"
    and "ua_calls t = ua_calls s" and "\<And>a. acc_data (accessors t a) = acc_data (accessors s a)"
proof -
  obtain t where t: "run_all client_callback es s = Done t" using callbacks_return [OF inv q] .
  with callbacks_inv [OF inv, of es] callbacks_has_manager [OF t] callbacks_calls [of s es]
    callbacks_data [OF has_data_same, of s es]
  show thesis by (intro that [OF t]) (simp_all add: has_data_def fun_eq_iff)
qed

text \<open>
  A failed transfer always ends with a runtime error whose text names the node and the status
  code in hexadecimal, after the item of the register has been marked and the connection has been
  closed; whichever callbacks run while the connection closes, the registry of accessors stays as
  it is.
\<close>

theorem handleError_reports:
  assumes "reachable s" and "has_manager s \<or> quiet es"
  shows "\<exists>t. handleError es name node retval status_name s =
      Throws (Runtime_error (error_text node status_name retval)) t \<and>
    registry t = registry s \<and> wf_manager t"
proof -
  note inv = reachable_inv [OF assms(1)]
  let ?s = "add_call Client_disconnect (mark_external name s)"
  have inv': "backend_inv ?s" using mark_external_inv [OF inv] by simp
  have "has_manager ?s \<or> quiet es" using assms(2) by (simp add: add_call_def)
  from callbacks_return [OF inv' this] obtain t
    where t: "run_all client_callback es ?s = Done t" .
  then have h: "handleError es name node retval status_name s =
      Throws (Runtime_error (error_text node status_name retval)) t"
    by (simp add: handleError_def close_connection_def)
  have "backend_inv t" using callbacks_inv [OF inv', of es] t by simp
  moreover have "registry t = registry s"
    using perform_registry [OF inv, of "Transfer_error es name node retval status_name"] h by simp
  ultimately show ?thesis using h by (simp add: backend_inv_def)
qed

theorem handleError_reports_witness:
  "\<exists>t. handleError [State_changed Channel_closed Session_closed] ''b'' ''b'' 0x80AE0000 ''Bad''
      busy_backend = Throws (Runtime_error (''OPC-UA-Backend::Failed to access variable: b with reason: '' @
        ''Bad --> 80ae0000'')) t"
proof -
  have "error_text ''b'' ''Bad'' 0x80AE0000 =
      ''OPC-UA-Backend::Failed to access variable: b with reason: '' @ ''Bad --> 80ae0000''"
    by (simp add: error_text_def show_hex.simps hex_digit_def)
  moreover have "has_manager busy_backend \<or> quiet [State_changed Channel_closed Session_closed]"
    by (simp add: busy_backend_def active_backend_def)
  ultimately show ?thesis
    using handleError_reports [OF reachable_busy, of "[State_changed Channel_closed Session_closed]"]
    by metis
qed

section \<open>Reading\<close>

lemma word_index_small:
  assumes "unat (offsetWords obj) + i < 2 ^ 64"
  shows "word_index obj i = unat (offsetWords obj) + i"
proof -
  from assms have "unat (word_of_nat i :: u64) = i" by (simp add: unat_of_nat take_bit_nat_eq_self)
  with assms show ?thesis
    unfolding word_index_def by (simp add: unat_add_lem [where 'a = 64, THEN iffD1])
qed

lemma read_words:
  assumes "unat (offsetWords obj) + m \<le> length v" and "length v < 2 ^ 64"
    and "m \<le> length (buffer obj)"
    and "\<forall>i < m. toCTK nconv (ctkType obj) (uaType obj) (v ! (unat (offsetWords obj) + i)) =
      Some (Inr (x i))"
  shows "run_all (read_word nconv v) [0 ..< m] obj =
    Done (obj\<lparr>buffer := map x [0 ..< m] @ drop m (buffer obj)\<rparr>)"
  using assms
proof (induction m)
  case (Suc m)
  let ?o = "obj\<lparr>buffer := map x [0 ..< m] @ drop m (buffer obj)\<rparr>"
  have "word_index ?o m = unat (offsetWords obj) + m"
    using word_index_small [of ?o m] Suc.prems(1,2) by simp
  then have "read_word nconv v m ?o = Done (obj\<lparr>buffer := map x [0 ..< Suc m] @ drop (Suc m) (buffer obj)\<rparr>)"
    using Suc.prems
    by (simp add: read_word_def list_update_append Cons_nth_drop_Suc [symmetric])
  with Suc show ?case by (simp add: run_all_append)
qed simp

lemma doPostRead_transfers_result:
  assumes "hasValue d" and "unat (offsetWords obj) + unat (numberOfWords obj) \<le> length (dv_value d)"
    and "length (dv_value d) < 2 ^ 64" and "length (buffer obj) = unat (numberOfWords obj)"
    and "\<forall>i < unat (numberOfWords obj). toCTK nconv (ctkType obj) (uaType obj)
           (dv_value d ! (unat (offsetWords obj) + i)) = Some (Inr (x i))"
    and "getVersion new_version (sourceTimestamp d) vm = Some (v, vm')"
  shows "doPostRead nconv new_version True d (obj, vm) =
    Done (obj\<lparr>buffer := map x [0 ..< unat (numberOfWords obj)], faulty := False,
      currentVersion := Some v\<rparr>, vm')"
proof -
  have "run_all (read_word nconv (dv_value d)) [0 ..< unat (numberOfWords obj)] obj =
      Done (obj\<lparr>buffer := map x [0 ..< unat (numberOfWords obj)]\<rparr>)"
    using read_words [OF assms(2,3) _ assms(5)] assms(4) by simp
  then show ?thesis by (simp add: doPostRead_def assms(1,6))
qed

text \<open>
  C28: When the received array reaches as far as the accessor's words and every one of them converts,
  a read fills the user buffer with the converted words from the accessor's offset on, in order,
  reports valid data and takes the version number that belongs to the source time stamp.
\<close>

theorem doPostRead_transfers:
  assumes "hasValue d" and "unat (offsetWords obj) + unat (numberOfWords obj) \<le> length (dv_value d)"
    and "length (dv_value d) < 2 ^ 64" and "length (buffer obj) = unat (numberOfWords obj)"
    and "\<forall>i < unat (numberOfWords obj). toCTK nconv (ctkType obj) (uaType obj)
           (dv_value d ! (unat (offsetWords obj) + i)) = Some (Inr (x i))"
    and "getVersion new_version (sourceTimestamp d) vm = Some (v, vm')"
  shows "doPostRead nconv new_version True d (obj, vm) =
    Done (obj\<lparr>buffer := map x [0 ..< unat (numberOfWords obj)], faulty := False,
      currentVersion := Some v\<rparr>, vm')"
  using assms by (rule doPostRead_transfers_result)

text \<open>An accessor of two of the four words of a register, from word 1 on.\<close>

definition int_type :: num_type where
  "int_type = Integer True 32"

definition sample_info :: register_info where
  "sample_info = (info_with_id (@) ''s'' ''n'' UA_NODEID_NULL)\<lparr>dataType := 6, arrayLength := 4\<rparr>"

definition sample_accessor :: "nat accessor_object" where
  "sample_accessor = new_accessor 1 sample_info ''n'' 2 1 False (UA_Number int_type) (CTK_Number int_type)"

definition sample_value :: "variant data_value" where
  "sample_value = \<lparr>hasValue = True, dv_value = [UA_number 5, UA_number 6, UA_number 7, UA_number 8],
     dv_status = 0, sourceTimestamp = UA_DATETIME_UNIX_EPOCH\<rparr>"

lemma convert_int_type [simp]:
  "convert_number reference_converter int_type int_type 6 = 6"
  "convert_number reference_converter int_type int_type 7 = 7"
  "convert_number reference_converter int_type int_type 9 = 9"
  by (simp_all add: int_type_def convert_number_def reference_converter_def Let_def)

theorem doPostRead_transfers_witness:
  "\<exists>vm. doPostRead reference_converter (\<lambda>tp n. n) True sample_value (sample_accessor, empty_mapper) =
     Done (sample_accessor\<lparr>buffer := [CTK_number 6, CTK_number 7], faulty := False,
       currentVersion := Some 0\<rparr>, vm)"
proof -
  obtain vm where vm: "getVersion (\<lambda>tp n. n) (sourceTimestamp sample_value) empty_mapper = Some (0, vm)"
    by (simp add: getVersion_def empty_mapper_def sample_value_def convertToTimePoint_def int64_def
        Let_def)
  have two: "i = 0 \<or> i = 1" if "i < 2" for i :: nat using that by auto
  have n: "unat (numberOfWords sample_accessor) = 2" "unat (offsetWords sample_accessor) = 1"
    by (simp_all add: sample_accessor_def new_accessor_def)
  have conv: "\<forall>i < unat (numberOfWords sample_accessor). toCTK reference_converter
      (ctkType sample_accessor) (uaType sample_accessor)
      (dv_value sample_value ! (unat (offsetWords sample_accessor) + i)) =
      Some (Inr (if i = 0 then CTK_number 6 else CTK_number 7))"
    unfolding n by (auto simp: sample_accessor_def new_accessor_def sample_value_def dest!: two)
  have "doPostRead reference_converter (\<lambda>tp n. n) True sample_value (sample_accessor, empty_mapper) =
     Done (sample_accessor\<lparr>buffer := map (\<lambda>i. if i = 0 then CTK_number 6 else CTK_number 7)
       [0 ..< unat (numberOfWords sample_accessor)], faulty := False, currentVersion := Some 0\<rparr>, vm)"
    by (rule doPostRead_transfers [OF _ _ _ _ conv vm])
      (simp_all add: sample_accessor_def new_accessor_def sample_value_def)
  moreover have "map (\<lambda>i. if i = 0 then CTK_number 6 else CTK_number 7)
       [0 ..< unat (numberOfWords sample_accessor)] = [CTK_number 6, CTK_number 7]"
    unfolding n by (simp add: upt_rec)
  ultimately show ?thesis by metis
qed

text \<open>
  The number of words is fixed when the accessor is made. If the server later sends an array
  that ends before the accessor's words, reading runs past its end.
\<close>

theorem doPostRead_short_array:
  assumes "hasValue d" and "0 < unat (numberOfWords obj)"
    and "length (dv_value d) \<le> unat (offsetWords obj)"
  shows "doPostRead nconv new_version True d (obj, vm) = Undefined"
proof -
  have "unat (offsetWords obj) < 2 ^ 64" using unsigned_less [of "offsetWords obj"] by simp
  then have "word_index obj 0 = unat (offsetWords obj)" using word_index_small [of obj 0] by simp
  with assms(3) have "read_word nconv (dv_value d) 0 obj = Undefined" by (simp add: read_word_def)
  moreover have "[0 ..< unat (numberOfWords obj)] = 0 # [1 ..< unat (numberOfWords obj)]"
    using assms(2) by (simp add: upt_rec)
  ultimately show ?thesis by (simp add: doPostRead_def assms(1))
qed

theorem doPostRead_short_array_witness:
  "doPostRead reference_converter (\<lambda>tp n. n) True (sample_value\<lparr>dv_value := [UA_number 5]\<rparr>)
     (sample_accessor, empty_mapper) = Undefined"
  by (rule doPostRead_short_array) (simp_all add: sample_value_def sample_accessor_def new_accessor_def)

section \<open>Writing\<close>

lemma set_data_simps [simp]:
  "acc_data (accessors (set_data a d s) a) = d"
  "set_data a d (set_data a d' s) = set_data a d s"
  "set_data a (acc_data (accessors s a)) s = s"
  by (simp_all add: set_data_def)

lemma write_words:
  fixes s :: "variant backend"
  assumes d: "acc_data (accessors s (acc_id obj)) = d"
    and "unat (offsetWords obj) + m \<le> length (dv_value d)" and "length (dv_value d) < 2 ^ 64"
    and "m \<le> length (buffer obj)"
    and "\<forall>i < m. toOpcUA nconv (uaType obj) (ctkType obj) (buffer obj ! i) = Inr (y i)"
  shows "run_all (write_word nconv obj) [0 ..< m] s =
    Done (set_data (acc_id obj) (d\<lparr>dv_value := take (unat (offsetWords obj)) (dv_value d) @
      map y [0 ..< m] @ drop (unat (offsetWords obj) + m) (dv_value d)\<rparr>) s)"
  using assms(2-5)
proof (induction m)
  case 0
  then show ?case by (simp add: d [symmetric])
next
  case (Suc m)
  let ?o = "unat (offsetWords obj)" and ?v = "dv_value d"
  let ?u = "take ?o ?v @ map y [0 ..< m] @ drop (?o + m) ?v"
  let ?s = "set_data (acc_id obj) (d\<lparr>dv_value := ?u\<rparr>) s"
  have k: "word_index obj m = ?o + m" using word_index_small [of obj m] Suc.prems(1,2) by simp
  have "length ?u = length ?v" using Suc.prems(1) by simp
  moreover have "?u[?o + m := y m] = take ?o ?v @ map y [0 ..< Suc m] @ drop (?o + Suc m) ?v"
    using Suc.prems(1) by (simp add: list_update_append Cons_nth_drop_Suc [symmetric])
  ultimately have "write_word nconv obj m ?s = Done (set_data (acc_id obj)
      (d\<lparr>dv_value := take ?o ?v @ map y [0 ..< Suc m] @ drop (?o + Suc m) ?v\<rparr>) s)"
    using Suc.prems by (simp add: write_word_def k Let_def)
  moreover have "run_all (write_word nconv obj) [0 ..< m] s = Done ?s"
    using Suc by simp
  ultimately show ?case by (simp add: run_all_append)
qed

text \<open>What a transfer starts from and leaves behind: the invariant, the manager and the calls made.\<close>

definition passed :: "variant ua_call list \<Rightarrow> variant backend \<Rightarrow> variant backend \<Rightarrow> bool" where
  "passed calls s t \<longleftrightarrow> backend_inv t \<and> has_manager t = has_manager s \<and> ua_calls t = ua_calls s @ calls"

lemma passed_set_data [simp]: "passed calls s (set_data a d t) = passed calls s t"
  by (simp add: passed_def set_data_def)

lemma passed_call [simp]: "passed (calls @ [k]) s (add_call k t) = passed calls s t"
  "passed [k] s (add_call k s) = passed [] s s"
  by (auto simp: passed_def add_call_def)

lemma call_passes:
  assumes "passed calls s t" and "has_manager s \<or> quiet es"
  obtains u where "run_all client_callback es (add_call k t) = Done u" and "passed (calls @ [k]) s u"
    and "\<And>a. acc_data (accessors u a) = acc_data (accessors t a)"
proof -
  have "backend_inv (add_call k t)" "has_manager (add_call k t) \<or> quiet es"
    using assms by (simp_all add: passed_def add_call_def)
  from callbacks_pass [OF this] obtain u where u: "run_all client_callback es (add_call k t) = Done u"
    "backend_inv u" "has_manager u = has_manager (add_call k t)" "ua_calls u = ua_calls (add_call k t)"
    "\<And>a. acc_data (accessors u a) = acc_data (accessors (add_call k t) a)" by blast
  with assms(1) show thesis by (intro that [OF u(1)]) (simp_all add: passed_def add_call_def)
qed

lemma read_passes:
  assumes "passed calls s t" and "has_manager s \<or> quiet (tr_callbacks answer)"
    and "tr_status answer = UA_STATUSCODE_GOOD"
  obtains u where "doReadTransferSynchronously copy_range now None answer obj t = Done u"
    and "passed (calls @ [Read_value (reg_id (info obj))]) s u"
    and "acc_data (accessors u (acc_id obj)) = copyVariant copy_range now (tr_value answer)
      (reg_indexRange (info obj)) (acc_data (accessors t (acc_id obj)))"
proof -
  from call_passes [OF assms(1,2)] obtain u
    where u: "run_all client_callback (tr_callbacks answer) (add_call (Read_value (reg_id (info obj))) t) = Done u"
      "passed (calls @ [Read_value (reg_id (info obj))]) s u"
      "\<And>a. acc_data (accessors u a) = acc_data (accessors t a)" by metis
  let ?c = "copyVariant copy_range now (tr_value answer) (reg_indexRange (info obj))
      (acc_data (accessors t (acc_id obj)))"
  show thesis
    by (rule that [of "set_data (acc_id obj) ?c u"])
      (use u in \<open>simp_all add: doReadTransferSynchronously_def check_exception_def assms(3)\<close>)
qed

text \<open>The data a write changes its words in: what it reads first, or what the accessor has.\<close>

definition write_base ::
    "(variant \<Rightarrow> string \<Rightarrow> u32 + variant) \<Rightarrow> int \<Rightarrow> variant \<Rightarrow> 'n accessor_object \<Rightarrow> variant data_value \<Rightarrow>
     variant data_value" where
  "write_base copy_range now v obj d =
     (if isPartial obj \<or> \<not> hasValue d then copyVariant copy_range now v (reg_indexRange (info obj)) d else d)"

definition with_words :: "'n accessor_object \<Rightarrow> (nat \<Rightarrow> ua_value) \<Rightarrow> variant \<Rightarrow> variant" where
  "with_words obj y v = take (unat (offsetWords obj)) v @ map y [0 ..< unat (numberOfWords obj)] @
     drop (unat (offsetWords obj) + unat (numberOfWords obj)) v"

lemma write_data:
  fixes s :: "variant backend"
  assumes inv: "backend_inv s" and q: "has_manager s \<or> quiet (tr_callbacks reading @ tr_callbacks writing)"
    and good: "tr_status reading = UA_STATUSCODE_GOOD" "tr_status writing = UA_STATUSCODE_GOOD"
    and c: "c = write_base copy_range now (tr_value reading) obj (acc_data (accessors s (acc_id obj)))"
    and fits: "unat (offsetWords obj) + unat (numberOfWords obj) \<le> length (dv_value c)" "length (dv_value c) < 2 ^ 64"
    and n: "length (buffer obj) = unat (numberOfWords obj)"
    and y: "\<forall>i < unat (numberOfWords obj).
      toOpcUA nconv (uaType obj) (ctkType obj) (buffer obj ! i) = Inr (y i)"
  obtains t where "doWriteTransfer nconv copy_range now None reading writing version (s, obj) =
      Done (t, obj\<lparr>currentVersion := Some version\<rparr>)"
    and "acc_data (accessors t (acc_id obj)) = c\<lparr>dv_value := with_words obj y (dv_value c)\<rparr>"
    and "passed ((if isPartial obj \<or> \<not> hasValue (acc_data (accessors s (acc_id obj)))
        then [Read_value (reg_id (info obj))] else []) @
      [Write_value (reg_id (info obj)) (with_words obj y (dv_value c))]) s t"
proof -
  let ?d = "acc_data (accessors s (acc_id obj))"
  let ?first = "isPartial obj \<or> \<not> hasValue ?d"
  let ?calls = "if ?first then [Read_value (reg_id (info obj))] else []"
  let ?c = "c\<lparr>dv_value := with_words obj y (dv_value c)\<rparr>"
  have q1: "has_manager s \<or> quiet (tr_callbacks reading)" and q2: "has_manager s \<or> quiet (tr_callbacks writing)"
    using q by (auto simp: quiet_def)
  have start: "passed [] s s" using inv by (simp add: passed_def)
  have "\<exists>r. (if ?first then doReadTransferSynchronously copy_range now None reading obj s else Done s) = Done r \<and>
      passed ?calls s r \<and> acc_data (accessors r (acc_id obj)) = c"
  proof (cases ?first)
    case True
    with read_passes [OF start q1 good(1), of copy_range now obj] c show ?thesis
      by (simp add: write_base_def) metis
  qed (use start c in \<open>auto simp: write_base_def\<close>)
  then obtain r where r: "(if ?first then doReadTransferSynchronously copy_range now None reading obj s else Done s) = Done r"
    "passed ?calls s r" "acc_data (accessors r (acc_id obj)) = c" by blast
  let ?w = "set_data (acc_id obj) ?c r"
  have words: "run_all (write_word nconv obj) [0 ..< unat (numberOfWords obj)] r = Done ?w"
    using write_words [of r obj c "unat (numberOfWords obj)" nconv y] fits n y r(3) by (simp add: with_words_def)
  have "passed ?calls s ?w" using r(2) by simp
  from call_passes [OF this q2] obtain t
    where t: "run_all client_callback (tr_callbacks writing)
        (add_call (Write_value (reg_id (info obj)) (dv_value ?c)) ?w) = Done t"
      "passed (?calls @ [Write_value (reg_id (info obj)) (dv_value ?c)]) s t"
      "\<And>a. acc_data (accessors t a) = acc_data (accessors ?w a)" by metis
  have "acc_data (accessors ?w (acc_id obj)) = ?c" by simp
  then have "write_value writing obj ?w = Done t"
    using t(1) by (simp add: write_value_def good(2))
  with r(1) words have "doWriteTransfer nconv copy_range now None reading writing version (s, obj) =
      Done (t, obj\<lparr>currentVersion := Some version\<rparr>)"
    by (simp add: doWriteTransfer_def check_exception_def)
  from that [OF this] t(2,3) show thesis by simp
qed

lemma copied_variant:
  assumes "if r = [] then v = src \<and> prepare_value d = init_value else copy_range src r = Inr v"
  shows "dv_value (copyVariant copy_range now src r d) = v"
  using assms by (auto simp: copyVariant_def Let_def init_value_def split: if_splits)

text \<open>
  C27: A write through an accessor that covers only part of its register first reads, replaces its own
  words of what it has read by the converted user buffer and sends the result to the node: what the
  server is sent is, outside the accessor's words, what it has just sent itself, whatever callbacks run in the two
  calls. This is the register's
  whole array if the register has no index range. If it has one, only the part in the range is read, and that part
  alone is sent, as the value of the whole node.
\<close>

theorem partial_write_preserves:
  fixes s :: "variant backend"
  assumes "backend_inv s" and "has_manager s \<or> quiet (tr_callbacks reading @ tr_callbacks writing)"
    and "isPartial obj" and "tr_status reading = UA_STATUSCODE_GOOD" and "tr_status writing = UA_STATUSCODE_GOOD"
    and "(if reg_indexRange (info obj) = [] then v = tr_value reading \<and>
            prepare_value (acc_data (accessors s (acc_id obj))) = init_value
          else copy_range (tr_value reading) (reg_indexRange (info obj)) = Inr v)"
    and "unat (offsetWords obj) + unat (numberOfWords obj) \<le> length v" and "length v < 2 ^ 64"
    and "length (buffer obj) = unat (numberOfWords obj)"
    and "\<forall>i < unat (numberOfWords obj).
           toOpcUA nconv (uaType obj) (ctkType obj) (buffer obj ! i) = Inr (y i)"
  shows "\<exists>t. doWriteTransfer nconv copy_range now None reading writing version (s, obj) =
      Done (t, obj\<lparr>currentVersion := Some version\<rparr>) \<and>
    ua_calls t = ua_calls s @ [Read_value (reg_id (info obj)), Write_value (reg_id (info obj))
      (take (unat (offsetWords obj)) v @ map y [0 ..< unat (numberOfWords obj)] @
       drop (unat (offsetWords obj) + unat (numberOfWords obj)) v)]"
proof -
  let ?c = "write_base copy_range now (tr_value reading) obj (acc_data (accessors s (acc_id obj)))"
  from assms(3,6) have c: "dv_value ?c = v" by (simp only: write_base_def simp_thms if_True, intro copied_variant) simp
  then obtain t where "doWriteTransfer nconv copy_range now None reading writing version (s, obj) =
      Done (t, obj\<lparr>currentVersion := Some version\<rparr>)"
    and "passed ([Read_value (reg_id (info obj))] @ [Write_value (reg_id (info obj)) (with_words obj y v)]) s t"
    using write_data [where s = s and copy_range = copy_range and now = now and version = version,
        OF assms(1,2,4,5) refl _ _ assms(9,10)] assms(3,7,8) by (auto simp: c)
  then show ?thesis by (auto simp: passed_def with_words_def)
qed

definition good_transfer :: "variant \<Rightarrow> variant transfer_answer" where
  "good_transfer v = \<lparr>tr_status = 0, tr_status_name = [], tr_value = v, tr_callbacks = [], tr_close = []\<rparr>"

theorem partial_write_preserves_witness:
  "\<exists>t. doWriteTransfer reference_converter (\<lambda>v r. Inl 1) 0 None
      (good_transfer (dv_value sample_value)) (good_transfer []) 3
      (blank_backend, sample_accessor\<lparr>buffer := [CTK_number 7, CTK_number 9]\<rparr>) =
      Done (t, sample_accessor\<lparr>buffer := [CTK_number 7, CTK_number 9], currentVersion := Some 3\<rparr>) \<and>
    ua_calls t = ua_calls blank_backend @ [Read_value (reg_id sample_info), Write_value (reg_id sample_info)
      [UA_number 5, UA_number 7, UA_number 9, UA_number 8]]"
proof -
  let ?o = "sample_accessor\<lparr>buffer := [CTK_number 7, CTK_number 9]\<rparr>"
  have n: "unat (numberOfWords ?o) = 2" "unat (offsetWords ?o) = 1" "acc_id ?o = 1"
    by (simp_all add: sample_accessor_def new_accessor_def)
  have two: "i = 0 \<or> i = 1" if "i < 2" for i :: nat using that by auto
  have conv: "\<forall>i < unat (numberOfWords ?o). toOpcUA reference_converter (uaType ?o) (ctkType ?o)
      (buffer ?o ! i) = Inr (if i = 0 then UA_number 7 else UA_number 9)"
    unfolding n by (auto simp: sample_accessor_def new_accessor_def dest!: two)
  have "\<exists>t. doWriteTransfer reference_converter (\<lambda>v r. Inl 1) 0 None
      (good_transfer (dv_value sample_value)) (good_transfer []) 3 (blank_backend, ?o) =
      Done (t, ?o\<lparr>currentVersion := Some 3\<rparr>) \<and>
    ua_calls t = ua_calls blank_backend @ [Read_value (reg_id (info ?o)), Write_value (reg_id (info ?o))
      (take (unat (offsetWords ?o)) (dv_value sample_value) @
       map (\<lambda>i. if i = 0 then UA_number 7 else UA_number 9) [0 ..< unat (numberOfWords ?o)] @
       drop (unat (offsetWords ?o) + unat (numberOfWords ?o)) (dv_value sample_value))]"
    by (rule partial_write_preserves [OF reachable_inv [OF reachable.start [OF initial_blank]] _ _ _ _ _ _ _ _ conv])
      (simp_all add: quiet_def sample_accessor_def new_accessor_def sample_info_def info_with_id_def
        info_without_id_def default_info_def good_transfer_def sample_value_def blank_backend_def
        prepare_value_def init_value_def)
  then show ?thesis
    unfolding n by (auto simp: sample_value_def upt_rec sample_accessor_def new_accessor_def)
qed

text \<open>
  If the register has an index range that the server's array does not cover, the read that
  precedes a write leaves the accessor without data, and the write goes through a null pointer.
\<close>

theorem write_after_failed_range:
  fixes s :: "variant backend"
  assumes "acc_data (accessors s (acc_id obj)) = init_value" and "0 < unat (numberOfWords obj)"
    and "tr_status reading = UA_STATUSCODE_GOOD" and "tr_callbacks reading = []"
    and "reg_indexRange (info obj) \<noteq> []"
    and "copy_range (tr_value reading) (reg_indexRange (info obj)) = Inl status"
  shows "doWriteTransfer nconv copy_range now None reading writing version (s, obj) = Undefined"
proof -
  let ?s1 = "add_call (Read_value (reg_id (info obj))) s"
  let ?c = "copyVariant copy_range now (tr_value reading) (reg_indexRange (info obj)) init_value"
  let ?s2 = "set_data (acc_id obj) ?c ?s1"
  have acc1: "acc_data (accessors ?s1 (acc_id obj)) = init_value" using assms(1) by (simp add: add_call_def)
  have read: "doReadTransferSynchronously copy_range now None reading obj s = Done ?s2"
    by (simp add: doReadTransferSynchronously_def check_exception_def assms(3,4) acc1)
  have "dv_value ?c = []"
    using assms(5,6) by (simp add: copyVariant_def prepare_value_def init_value_def Let_def)
  then have "write_word nconv obj 0 ?s2 = Undefined" by (simp add: write_word_def)
  moreover have "[0 ..< unat (numberOfWords obj)] = 0 # [1 ..< unat (numberOfWords obj)]"
    using assms(2) by (simp add: upt_rec)
  ultimately show ?thesis
    by (simp add: doWriteTransfer_def check_exception_def assms(1) read) (simp add: init_value_def)
qed

theorem write_after_failed_range_witness:
  "doWriteTransfer reference_converter (\<lambda>v r. Inl 0x80360000) 0 None (good_transfer [])
     (good_transfer []) (3 :: nat) (blank_backend,
       sample_accessor\<lparr>info := sample_info\<lparr>reg_indexRange := ''8:9''\<rparr>\<rparr>) = Undefined"
  by (rule write_after_failed_range)
    (simp_all add: sample_accessor_def new_accessor_def blank_backend_def good_transfer_def)

end
