(* ===== verification/Accessor_Types.thy ===== *)
theory Accessor_Types
  imports Device_Creation Accessor_Properties
begin

text \<open>
  Types of values. \<open>RangeCheckingDataConverter\<close> turns values of an OPC UA type into values of a user
  type and back; the collection \<open>typing\<close> holds the facts that each step of an accessor leaves its
  user buffer and its received data in their types.
\<close>

section \<open>Values of a type\<close>

fun in_num_type :: "num_type \<Rightarrow> rat \<Rightarrow> bool" where
  "in_num_type (Integer sign bits) x \<longleftrightarrow> x = of_int \<lfloor>x\<rfloor> \<and>
     min_of (Integer sign bits) \<le> x \<and> x \<le> max_of (Integer sign bits)"
| "in_num_type (Floating hi lo) x \<longleftrightarrow> - hi \<le> x \<and> x \<le> hi"

text \<open>A numeric type holds 0 and 1, and a floating type its own limits.\<close>

fun num_type_ok :: "num_type \<Rightarrow> bool" where
  "num_type_ok (Integer sign bits) \<longleftrightarrow> 2 \<le> bits"
| "num_type_ok (Floating hi lo) \<longleftrightarrow> 0 < lo \<and> lo \<le> 1 \<and> 1 \<le> hi"

fun ua_type_ok :: "ua_type \<Rightarrow> bool" where
  "ua_type_ok (UA_Number t) \<longleftrightarrow> num_type_ok t"
| "ua_type_ok _ \<longleftrightarrow> True"

fun ctk_type_ok :: "ctk_type \<Rightarrow> bool" where
  "ctk_type_ok (CTK_Number t) \<longleftrightarrow> num_type_ok t"
| "ctk_type_ok _ \<longleftrightarrow> True"

fun in_ua :: "ua_type \<Rightarrow> ua_value \<Rightarrow> bool" where
  "in_ua UA_Boolean (UA_truth b) \<longleftrightarrow> True"
| "in_ua (UA_Number t) (UA_number x) \<longleftrightarrow> in_num_type t x"
| "in_ua UA_String (UA_text s) \<longleftrightarrow> True"
| "in_ua _ _ \<longleftrightarrow> False"

fun in_ctk :: "ctk_type \<Rightarrow> ctk_value \<Rightarrow> bool" where
  "in_ctk CTK_Boolean (CTK_truth b) \<longleftrightarrow> True"
| "in_ctk (CTK_Number t) (CTK_number x) \<longleftrightarrow> in_num_type t x"
| "in_ctk CTK_String (CTK_text s) \<longleftrightarrow> True"
| "in_ctk CTK_Void CTK_nothing \<longleftrightarrow> True"
| "in_ctk _ _ \<longleftrightarrow> False"

fun_cases in_ua_NumberE: "in_ua (UA_Number t) v"
  and in_ua_BooleanE: "in_ua UA_Boolean v"
  and in_ua_StringE: "in_ua UA_String v"

text \<open>What is relied on in the Boost converter: a converted number is one of the destination type.\<close>

definition converts_within :: "(num_type \<Rightarrow> num_type \<Rightarrow> rat \<Rightarrow> conversion) \<Rightarrow> bool" where
  "converts_within nconv \<longleftrightarrow>
     (\<forall>dest src x y. num_type_ok dest \<longrightarrow> nconv dest src x = Converted y \<longrightarrow> in_num_type dest y)"

lemma reference_converter_within: "converts_within reference_converter"
proof -
  have "in_num_type dest y" if "reference_converter dest src x = Converted y" for dest src x y
    using that by (cases dest) (auto simp: reference_converter_def Let_def split: if_splits)
  then show ?thesis by (simp add: converts_within_def)
qed

section \<open>Conversions\<close>

lemma max_in_type [typing]: "num_type_ok t \<Longrightarrow> in_num_type t (max_of t)"
proof (cases t)
  case (Integer sign bits)
  have "max_of t = of_int (if sign then 2 ^ (bits - 1) - 1 else 2 ^ bits - 1)" by (simp add: Integer)
  moreover have "min_of t \<le> max_of t" unfolding Integer by (rule min_le_max)
  ultimately show ?thesis unfolding Integer by (simp only: in_num_type.simps floor_of_int) simp
qed auto

lemma min_in_type [typing]: "num_type_ok t \<Longrightarrow> in_num_type t (min_of t)"
proof (cases t)
  case (Integer sign bits)
  have "min_of t = of_int (if sign then - (2 ^ (bits - 1)) else 0)" by (simp add: Integer)
  moreover have "min_of t \<le> max_of t" unfolding Integer by (rule min_le_max)
  ultimately show ?thesis unfolding Integer by (simp only: in_num_type.simps floor_of_int) simp
qed auto

lemma truth_in_type [typing]: "num_type_ok t \<Longrightarrow> in_num_type t (truth_number b)"
proof (cases t)
  case (Integer sign bits)
  moreover assume "num_type_ok t"
  ultimately obtain k where k: "bits = Suc (Suc k)" using le_Suc_ex [of 2 bits] by auto
  have "(1 :: rat) \<le> 2 ^ k" by simp
  then have "(1 :: rat) \<le> 2 * 2 ^ k" "(1 :: rat) \<le> 4 * 2 ^ k" "(- 1 :: rat) \<le> 2 * 2 ^ k"
    by linarith+
  then show ?thesis unfolding Integer k truth_number_def by simp
qed (auto simp: truth_number_def)

lemma zero_one_in_type [typing]: "num_type_ok t \<Longrightarrow> in_num_type t 0" "num_type_ok t \<Longrightarrow> in_num_type t 1"
  using truth_in_type [of t False] truth_in_type [of t True] by (simp_all add: truth_number_def)

lemma convert_in_type [typing]:
  "converts_within nconv \<Longrightarrow> num_type_ok dest \<Longrightarrow> in_num_type dest (convert_number nconv dest src x)"
  unfolding convert_number_def
  by (cases "nconv dest src x") (auto intro: typing simp: converts_within_def)

lemma toCTK_in_type [typing]:
  "converts_within nconv \<Longrightarrow> ctk_type_ok dest \<Longrightarrow> toCTK nconv dest src v = Some (Inr w) \<Longrightarrow> in_ctk dest w"
  by (cases "(nconv, dest, src, v)" rule: toCTK.cases) (auto intro: typing)

lemma toOpcUA_in_type [typing]:
  "converts_within nconv \<Longrightarrow> ua_type_ok dest \<Longrightarrow> toOpcUA nconv dest src v = Inr w \<Longrightarrow> in_ua dest w"
  by (cases "(nconv, dest, src, v)" rule: toOpcUA.cases; cases dest) (auto intro: typing)

lemma cleared_in_type [typing]: "ua_type_ok t \<Longrightarrow> in_ua t (cleared t)"
  by (cases t) (auto intro: typing)

lemma ctk_default_in_type [typing]: "ctk_type_ok t \<Longrightarrow> in_ctk t (ctk_default t)"
  by (cases t) (auto intro: typing)

text \<open>A value of the node's type converts whenever the type combination is one the code converts.\<close>

lemma toCTK_progress:
  assumes "in_ua src v" and "v \<noteq> UA_text Dangling"
    and "src = UA_String \<Longrightarrow> dest = CTK_String \<or> dest = CTK_Void"
  shows "\<exists>w. toCTK nconv dest src v = Some (Inr w)"
proof (cases src)
  case UA_Boolean
  with assms(1) show ?thesis by (cases dest) (auto elim: in_ua_BooleanE)
next
  case (UA_Number t)
  with assms(1) show ?thesis by (cases dest) (auto elim: in_ua_NumberE)
next
  case UA_String
  with assms show ?thesis by (auto elim!: in_ua_StringE) (metis toCTK.simps(2) ua_string.exhaust)
qed

end
