(* ===== verification/Creation_Properties.thy ===== *)
theory Creation_Properties
  imports Device_Creation Subscription_Spec Subscription_Properties
begin

text \<open>
  Properties of the parts that create a device and its accessors: names and sizes, the parameters of
  a device, and the way from a first start that browses the server to a later one that reads the
  cache.
\<close>

section \<open>Names\<close>

lemma occurrences_iff: "i \<in> set (occurrences s pat) \<longleftrightarrow> i \<le> length s \<and> take (length pat) (drop i s) = pat"
  by (auto simp: occurrences_def less_Suc_eq_le simp del: upt_Suc)

lemma sorted_occurrences: "sorted (occurrences s pat)"
  by (simp add: occurrences_def sorted_wrt_filter del: upt_Suc)

lemma sorted_le_last: "sorted xs \<Longrightarrow> x \<in> set xs \<Longrightarrow> x \<le> last xs"
  by (induction xs) (auto split: if_splits)

lemma rfind_found:
  assumes "occurrences s pat \<noteq> []"
  shows "\<exists>p. rfind s pat = word_of_nat p \<and> p \<in> set (occurrences s pat) \<and>
    (\<forall>j \<in> set (occurrences s pat). j \<le> p)"
  using assms sorted_le_last [OF sorted_occurrences, of _ s pat]
  by (intro exI [of _ "last (occurrences s pat)"]) (auto simp: rfind_def split: list.split)

lemma suffix_occurrence:
  assumes "3 \<le> length s"
  shows "length s - 3 \<in> set (occurrences s ''Dir'') \<longleftrightarrow> drop (length s - 3) s = ''Dir''"
  using assms by (simp add: occurrences_iff)

lemma occurrence_bound: "i \<in> set (occurrences s ''Dir'') \<Longrightarrow> i + 3 \<le> length s"
proof -
  assume "i \<in> set (occurrences s ''Dir'')"
  then have "take 3 (drop i s) = ''Dir''" by (simp add: occurrences_iff numeral_3_eq_3)
  then have "length (take 3 (drop i s)) = 3" by simp
  then show ?thesis by simp
qed

lemma word_of_nat_small_eq:
  "m < 2 ^ 63 \<Longrightarrow> n < 2 ^ 63 \<Longrightarrow> (word_of_nat m :: u64) = word_of_nat n \<longleftrightarrow> m = n"
  by (simp add: word_unat_eq_iff unat_of_nat)

lemma root_name_without_Dir:
  assumes "length s < 2 ^ 63"
  shows "local_root_name s = (if suffix ''Dir'' s then take (length s - 3) s else s)"
proof -
  have suff: "suffix ''Dir'' s \<longleftrightarrow> 3 \<le> length s \<and> drop (length s - 3) s = ''Dir''"
    by (auto simp: suffix_def) (metis append_take_drop_id)
  show ?thesis
  proof (cases "occurrences s ''Dir''")
    case Nil
    then have "\<not> suffix ''Dir'' s" using suff suffix_occurrence [of s] by auto
    moreover have "substr0 s npos = s" using assms by (simp add: substr0_def npos_def unsigned_minus_1_eq_mask mask_eq_exp_minus_1)
    ultimately show ?thesis using Nil by (simp add: local_root_name_def rfind_def Let_def)
  next
    case (Cons i rest)
    then obtain p where rf: "rfind s ''Dir'' = word_of_nat p" and p: "p \<in> set (occurrences s ''Dir'')"
      and greatest: "\<And>j. j \<in> set (occurrences s ''Dir'') \<Longrightarrow> j \<le> p"
      using rfind_found [of s "''Dir''"] by auto
    have bound: "p + 3 \<le> length s" by (rule occurrence_bound [OF p])
    have eq: "(word_of_nat p :: u64) = word_of_nat (length s) - 3 \<longleftrightarrow> p = length s - 3"
    proof -
      have "(word_of_nat (length s) :: u64) - 3 = word_of_nat (length s - 3)"
        using bound by (simp add: of_nat_diff)
      moreover have "(word_of_nat p :: u64) = word_of_nat (length s - 3) \<longleftrightarrow> p = length s - 3"
        using bound assms by (intro word_of_nat_small_eq) linarith+
      ultimately show ?thesis by (simp only:)
    qed
    have "p = length s - 3 \<longleftrightarrow> suffix ''Dir'' s"
      using suff suffix_occurrence [of s] greatest [of "length s - 3"] p bound by fastforce
    moreover have "substr0 s (word_of_nat p) = take p s"
      using bound assms by (simp add: substr0_def unat_of_nat)
    ultimately show ?thesis using eq by (cases "p = length s - 3") (simp_all add: local_root_name_def rf Let_def)
  qed
qed

text \<open>
  C35: The name of the root node loses a trailing \<^verbatim>\<open>Dir\<close> and nothing else, although the test that decides
  it compares positions that wrap around for a short name and for a name without \<^verbatim>\<open>Dir\<close>.
\<close>

theorem local_root_name_strips_Dir:
  assumes "length s < 2 ^ 63"
  shows "local_root_name s = (if suffix ''Dir'' s then take (length s - 3) s else s)"
  using assms by (rule root_name_without_Dir)

theorem local_root_name_strips_Dir_witness:
  "local_root_name ''aDirDir'' = ''aDir'' \<and> local_root_name ''ab'' = ''ab'' \<and>
   local_root_name ''Dirs'' = ''Dirs''"
  using local_root_name_strips_Dir [of "''aDirDir''"] local_root_name_strips_Dir [of "''ab''"]
    local_root_name_strips_Dir [of "''Dirs''"]
  by (simp add: suffix_def)

text \<open>
  A browsed string node loses as many characters at its front as the root name has, whatever they
  are: the name below the root comes out right for a node under the root, but a node elsewhere on
  the server gets the same name as one under the root.
\<close>

theorem root_prefix_not_compared:
  assumes "length p = length (local_root_name rootName)" and "p \<noteq> []" and "hd p \<noteq> CHR ''/''"
    and "node_identifier node = Str (p @ t)"
  shows "local_node_name rootName node None = Inr t \<and>
    local_node_name rootName (node\<lparr>node_identifier := Str (CHR ''/'' # p @ t)\<rparr>) None = Inr t"
  using assms(2-4) unfolding local_node_name_def assms(1) [symmetric] by (cases p) simp_all

theorem root_prefix_not_compared_witness:
  "local_node_name ''devDir'' \<lparr>namespaceIndex = 1, node_identifier = Str ''dev/x''\<rparr> None = Inr ''/x'' \<and>
   local_node_name ''devDir'' \<lparr>namespaceIndex = 1, node_identifier = Str ''old/x''\<rparr> None = Inr ''/x''"
proof -
  have "local_root_name ''devDir'' = ''dev''"
    by (simp add: root_name_without_Dir suffix_def)
  then show ?thesis
    using root_prefix_not_compared [of "''dev''" "''devDir''" "\<lparr>namespaceIndex = 1, node_identifier = Str ''dev/x''\<rparr>" "''/x''"]
      root_prefix_not_compared [of "''old''" "''devDir''" "\<lparr>namespaceIndex = 1, node_identifier = Str ''old/x''\<rparr>" "''/x''"]
    by simp
qed

section \<open>The part of the register an accessor covers\<close>

lemma getRegisterAccessor_Done:
  assumes "getRegisterAccessor_impl nf answer raw wait a ctk c name n off s = Done (t, Some obj)"
  obtains i ua where "find (\<lambda>r. nf (nodeBrowseName r) = name) c = Some i"
    and "\<not> arrayLength i < n + off" and "\<not> (n = 0 \<and> 0 < off)" and "ua_type_of (dataType i) = Some ua"
    and "construct_accessor answer raw wait a i s = Done t"
    and "obj = new_accessor a i name (if n = 0 then arrayLength i else n) off wait ua ctk"
  using assms
  by (auto simp: getRegisterAccessor_impl_def seq_eq_Done Let_def
      map_result_eq_Done split: if_splits option.splits)

text \<open>
  C22: An accessor covers a window inside its register: unless the sum of the requested number of words
  and the offset wraps around, the words lie within the array the catalogue tells, no word index
  wraps around, and the user buffer has one entry per word.
\<close>

theorem accessor_window:
  assumes "getRegisterAccessor_impl nf answer raw wait a ctk c name n off s = Done (t, Some obj)"
    and "unat n + unat off < 2 ^ 64"
  shows "info obj \<in> set c \<and> nf (nodeBrowseName (info obj)) = name \<and>
    unat (offsetWords obj) + unat (numberOfWords obj) \<le> unat (arrayLength (info obj)) \<and>
    length (buffer obj) = unat (numberOfWords obj) \<and> ua_type_of (dataType (info obj)) = Some (uaType obj)"
proof -
  from assms(1) obtain i ua where i: "find (\<lambda>r. nf (nodeBrowseName r) = name) c = Some i"
    and len: "\<not> arrayLength i < n + off" and zero: "\<not> (n = 0 \<and> 0 < off)"
    and ua: "ua_type_of (dataType i) = Some ua"
    and obj: "obj = new_accessor a i name (if n = 0 then arrayLength i else n) off wait ua ctk"
    by (rule getRegisterAccessor_Done)
  have "unat (n + off) = unat n + unat off" using assms(2) by (simp add: unat_word_ariths)
  with len have "unat n + unat off \<le> unat (arrayLength i)" by (simp add: word_less_nat_alt)
  moreover have "n = 0 \<Longrightarrow> off = 0" using zero by (simp add: word_gt_0)
  moreover have "i \<in> set c \<and> nf (nodeBrowseName i) = name" using i by (auto simp: find_Some_iff)
  ultimately show ?thesis using obj ua by (auto simp: new_accessor_def)
qed

definition wide_register :: register_info where
  "wide_register = (info_with_id slash_join ''opc.tcp://h'' ''x''
      \<lparr>namespaceIndex = 1, node_identifier = Str ''x''\<rparr>)\<lparr>dataType := 6, arrayLength := 4\<rparr>"

abbreviation (input) window_of :: "u64 \<Rightarrow> u64 \<Rightarrow> (variant backend \<times> nat accessor_object option) result" where
  "window_of n off \<equiv> getRegisterAccessor_impl id blank_attach False False 0 CTK_Boolean [wide_register] ''x''
     n off blank_backend"

lemma wide_window:
  "\<exists>t. window_of 3 1 = Done (t, Some (new_accessor 0 wide_register ''x'' 3 1 False
      (UA_Number (Integer True 32)) CTK_Boolean))"
  by (simp add: getRegisterAccessor_impl_def wide_register_def info_with_id_def info_without_id_def
      default_info_def ua_type_of_def construct_accessor_def)

theorem accessor_window_witness:
  "\<exists>obj :: nat accessor_object. unat (offsetWords obj) + unat (numberOfWords obj) \<le> 4 \<and> length (buffer obj) = 3"
proof -
  let ?obj = "new_accessor 0 wide_register ''x'' 3 1 False (UA_Number (Integer True 32)) CTK_Boolean :: nat accessor_object"
  obtain t where "window_of 3 1 = Done (t, Some ?obj)" using wide_window by blast
  from accessor_window [OF this] show ?thesis
    by (intro exI [of _ ?obj]) (simp add: new_accessor_def wide_register_def)
qed

text \<open>
  The check of the requested range adds two \<open>size_t\<close> without looking for overflow: two words at the
  offset \<open>2 ^ 64 - 1\<close> are granted for every register with at least one element, and the first word of
  such an accessor is read outside every array the server can send.
\<close>

theorem accessor_window_wraps:
  assumes "find (\<lambda>r. nf (nodeBrowseName r) = name) c = Some i" and "1 \<le> arrayLength i"
    and "ua_type_of (dataType i) = Some ua"
  shows "\<exists>t (obj :: nat accessor_object). getRegisterAccessor_impl nf answer False False a ctk c name 2 (- 1) s = Done (t, Some obj) \<and>
    numberOfWords obj = 2 \<and> (length v < 2 ^ 64 - 1 \<longrightarrow> read_word nconv v 0 obj = Undefined)"
proof -
  let ?obj = "new_accessor a i name 2 (- 1) False ua ctk :: nat accessor_object"
  have "c \<noteq> []" using assms(1) by auto
  moreover have "\<not> arrayLength i < 2 + (- 1)" using assms(2) by (simp add: word_less_nat_alt word_le_nat_alt)
  ultimately obtain t where "getRegisterAccessor_impl nf answer False False a ctk c name 2 (- 1) s =
      Done (t, Some (?obj))"
    using assms(1,3) by (simp add: getRegisterAccessor_impl_def construct_accessor_def)
  moreover have "length v < 2 ^ 64 - 1 \<longrightarrow>
      read_word nconv v 0 (?obj) = Undefined"
    by (simp add: read_word_def word_index_def new_accessor_def unsigned_minus_1_eq_mask mask_eq_exp_minus_1)
  ultimately show ?thesis
    by (intro exI [of _ t] exI [of _ ?obj])
      (simp add: new_accessor_def)
qed

theorem accessor_window_wraps_witness:
  "\<exists>t obj. window_of 2 (- 1) = Done (t, Some obj) \<and> numberOfWords obj = 2 \<and>
     read_word reference_converter [UA_number 1] 0 obj = Undefined"
  using accessor_window_wraps [of id "''x''" "[wide_register]" wide_register "UA_Number (Integer True 32)"
      blank_attach 0 CTK_Boolean blank_backend "[UA_number 1]" reference_converter]
  by (simp add: wide_register_def info_with_id_def info_without_id_def default_info_def ua_type_of_def)

section \<open>Parameters\<close>

lemma find_colon:
  "CHR '':'' \<notin> set a \<Longrightarrow> find_index (\<lambda>c. c = CHR '':'') (a @ CHR '':'' # b) = Some (length a)"
  by (induction a) auto

lemma no_colon_in_number: "CHR '':'' \<notin> set (to_string (w :: 'n::len word))"
  using show_nat_digits [of "unat w"] by (auto simp: to_string_def is_digit_def)

lemma parse_root_node_browsing:
  "parse_root_node [] (to_string (ns :: u64) @ CHR '':'' # nm) = Inr (Some ns, nm)"
proof -
  have "unat ns < 2 ^ 64" using unsigned_less [of ns] by simp
  then have "stoul (to_string ns) = Inr ns" by (simp add: to_string_def stoul_show_nat)
  then show ?thesis by (simp add: parse_root_node_def find_colon [OF no_colon_in_number])
qed

lemma parse_root_node_split:
  assumes "CHR '':'' \<notin> set t"
  shows "parse_root_node [] (t @ CHR '':'' # nm) =
    (case stoul t of Inl _ \<Rightarrow> Inl (Runtime_error ''failed to determine ns from root node'')
     | Inr ns \<Rightarrow> Inr (Some ns, nm))"
  by (simp add: parse_root_node_def find_colon [OF assms] split: sum.split)

lemma parse_root_node_no_colon:
  assumes "CHR '':'' \<notin> set s" and "s \<noteq> []"
  shows "parse_root_node [] s = Inl (Runtime_error
    ''root node does not contain delimiter ':' formatted correct. Expected ns:nodeid or ns:nodename!'')"
proof (cases "find_index (\<lambda>c. c = CHR '':'') s")
  case (Some pos)
  then have "CHR '':'' \<in> set s" by (auto simp: find_index_Some in_set_conv_nth)
  with assms show ?thesis by simp
qed (use assms in \<open>simp add: parse_root_node_def\<close>)

text \<open>The arguments of the constructor that \<open>createInstance\<close> computes from the parameters, unless the connection
  timeout is no number.\<close>

definition accepts ::
    "string \<Rightarrow> (string \<Rightarrow> string) \<Rightarrow> rat option \<Rightarrow> u64 option \<Rightarrow> string \<Rightarrow> exn + instance_args \<Rightarrow> bool" where
  "accepts adr parameters interval ns name result \<longleftrightarrow>
     (case (if parameters ''connectionTimeout'' = [] then Inr 5000 else stoul (parameters ''connectionTimeout'')) of
        Inl e \<Rightarrow> result = Inl e
      | Inr ms \<Rightarrow> \<exists>a. result = Inr a \<and> ia_rootNS a = ns \<and> ia_rootNode a = name \<and>
          ia_address a = ''opc.tcp://'' @ adr @ '':'' @ parameters ''port'' \<and>
          ia_publishingInterval a = interval \<and> ia_connectionTimeout a = ucast ms)"

lemma createInstance_accepts:
  assumes "parameters ''port'' \<noteq> []"
    and "(if parameters ''publishingInterval'' = [] then Inr (Some 500) else stod (parameters ''publishingInterval'')) = Inr interval"
    and "parse_root_node (parameters ''map'') (parameters ''rootNode'') = Inr (ns, name)"
  shows "accepts adr parameters interval ns name (createInstance stod adr parameters)"
  using assms by (simp add: accepts_def createInstance_def split: sum.split)

lemma createInstance_rejects:
  assumes "parameters ''port'' \<noteq> []"
    and "(if parameters ''publishingInterval'' = [] then Inr (Some 500) else stod (parameters ''publishingInterval'')) = Inr interval"
    and "parse_root_node (parameters ''map'') (parameters ''rootNode'') = Inl e"
  shows "createInstance stod adr parameters = Inl e"
  using assms by (simp add: createInstance_def)

lemma createInstance_root:
  assumes port: "parameters ''port'' \<noteq> []"
    and interval: "(if parameters ''publishingInterval'' = [] then Inr (Some 500)
      else stod (parameters ''publishingInterval'')) = Inr interval"
  shows "let result = createInstance stod adr parameters; root = parameters ''rootNode'';
      failed = Inl (Runtime_error ''failed to determine ns from root node'')
    in
    if parameters ''map'' \<noteq> [] \<or> root = [] then accepts adr parameters interval None root result
    else
      (CHR '':'' \<notin> set root \<longrightarrow> result = Inl (Runtime_error
        ''root node does not contain delimiter ':' formatted correct. Expected ns:nodeid or ns:nodename!'')) \<and>
      (\<forall>t nm. root = t @ CHR '':'' # nm \<and> CHR '':'' \<notin> set t \<longrightarrow>
        (case parse_integer t of
           None \<Rightarrow> result = failed
         | Some (negative, n) \<Rightarrow>
             if 2 ^ 64 \<le> n then result = failed
             else accepts adr parameters interval
                    (Some (if negative then - word_of_nat n else word_of_nat n)) nm result)) \<and>
      (\<forall>ns nm. root = to_string (ns :: u64) @ CHR '':'' # nm \<longrightarrow>
        accepts adr parameters interval (Some ns) nm result)"
proof -
  let ?result = "createInstance stod adr parameters" and ?root = "parameters ''rootNode''"
  note * = createInstance_accepts [where stod = stod and parameters = parameters, OF port interval]
    and r = createInstance_rejects [where stod = stod and parameters = parameters, OF port interval]
  have split: "case parse_integer t of
        None \<Rightarrow> ?result = Inl (Runtime_error ''failed to determine ns from root node'')
      | Some (negative, n) \<Rightarrow>
          if 2 ^ 64 \<le> n then ?result = Inl (Runtime_error ''failed to determine ns from root node'')
          else accepts adr parameters interval (Some (if negative then - word_of_nat n else word_of_nat n)) nm ?result"
    if "parameters ''map'' = []" "?root = t @ CHR '':'' # nm" "CHR '':'' \<notin> set t" for t nm
    using parse_root_node_split [OF that(3), of nm] * r that(1,2) by (auto simp: stoul_def split: option.split)
  have given: "accepts adr parameters interval None ?root ?result" if "parameters ''map'' \<noteq> [] \<or> ?root = []"
    using that by (intro *) (auto simp: parse_root_node_def)
  have plain: "?result = Inl (Runtime_error
      ''root node does not contain delimiter ':' formatted correct. Expected ns:nodeid or ns:nodename!'')"
    if "parameters ''map'' = []" "?root \<noteq> []" "CHR '':'' \<notin> set ?root"
    using that parse_root_node_no_colon [of ?root] by (intro r) simp
  have again: "accepts adr parameters interval (Some ns) nm ?result"
    if "parameters ''map'' = []" "?root = to_string (ns :: u64) @ CHR '':'' # nm" for ns nm
    using that parse_root_node_browsing [of ns nm] by (intro *) simp
  show ?thesis
  proof (cases "parameters ''map'' \<noteq> [] \<or> ?root = []")
    case True
    with given show ?thesis unfolding Let_def if_P [OF True] by blast
  next
    case False
    then have "parameters ''map'' = []" "?root \<noteq> []" by simp_all
    with plain again split show ?thesis unfolding Let_def if_not_P [OF False] by blast
  qed
qed

text \<open>
  C33: The parameters of a device: a missing port is a logic error; a publishing interval that \<open>std::stod\<close> does not
  take is its exception. For automatic browsing, a root node without a colon, or with a text before its first colon that
  does not start with a number or starts with one of more than 64 bits, is the runtime error the code names. Any other
  is accepted, with the number as the namespace and the rest behind the colon as the name; in particular a root node
  written as a number, a colon and any name is read back as both. With a map file the parameter is taken as it is, and its
  namespace stays uninitialised. A connection timeout that \<open>std::stoul\<close> does not take is its exception.
\<close>

theorem createInstance_root_node:
  shows "let result = createInstance stod adr parameters; root = parameters ''rootNode'';
      failed = Inl (Runtime_error ''failed to determine ns from root node'')
    in if parameters ''port'' = [] then result = Inl (Logic_error ''Missing OPC-UA port.'')
       else (case (if parameters ''publishingInterval'' = [] then Inr (Some 500)
                   else stod (parameters ''publishingInterval'')) of
           Inl e \<Rightarrow> result = Inl e
         | Inr interval \<Rightarrow>
             if parameters ''map'' \<noteq> [] \<or> root = [] then accepts adr parameters interval None root result
             else
               (CHR '':'' \<notin> set root \<longrightarrow> result = Inl (Runtime_error
                 ''root node does not contain delimiter ':' formatted correct. Expected ns:nodeid or ns:nodename!'')) \<and>
               (\<forall>t nm. root = t @ CHR '':'' # nm \<and> CHR '':'' \<notin> set t \<longrightarrow>
                 (case parse_integer t of
                    None \<Rightarrow> result = failed
                  | Some (negative, n) \<Rightarrow>
                      if 2 ^ 64 \<le> n then result = failed
                      else accepts adr parameters interval
                             (Some (if negative then - word_of_nat n else word_of_nat n)) nm result)) \<and>
               (\<forall>ns nm. root = to_string (ns :: u64) @ CHR '':'' # nm \<longrightarrow>
                 accepts adr parameters interval (Some ns) nm result))"
proof (cases "parameters ''port'' = []")
  case True
  then show ?thesis by (simp add: createInstance_def)
next
  case port: False
  show ?thesis
  proof (cases "if parameters ''publishingInterval'' = [] then Inr (Some 500)
      else stod (parameters ''publishingInterval'')")
    case (Inl e)
    with port show ?thesis by (simp add: createInstance_def)
  next
    case (Inr interval)
    from createInstance_root [where stod = stod and parameters = parameters, OF port Inr, of adr] show ?thesis
      unfolding Let_def if_not_P [OF port] Inr sum.case .
  qed
qed

definition sample_parameters :: "string \<Rightarrow> string" where
  "sample_parameters k =
     (if k = ''port'' then ''4840''
      else if k = ''rootNode'' then to_string (2 :: u64) @ '':'' @ ''dev:1Dir'' else [])"

theorem createInstance_root_node_witness:
  "\<exists>a. createInstance (\<lambda>t. Inr None) ''host'' sample_parameters = Inr a \<and> ia_rootNS a = Some 2 \<and>
     ia_rootNode a = ''dev:1Dir'' \<and> ia_address a = ''opc.tcp://host:4840''"
proof -
  have p: "sample_parameters ''port'' = ''4840''" "sample_parameters ''publishingInterval'' = []"
    "sample_parameters ''map'' = []" "sample_parameters ''connectionTimeout'' = []"
    and root: "sample_parameters ''rootNode'' = to_string (2 :: u64) @ CHR '':'' # ''dev:1Dir''"
    by (simp_all add: sample_parameters_def)
  have "\<forall>ns nm. sample_parameters ''rootNode'' = to_string (ns :: u64) @ CHR '':'' # nm \<longrightarrow>
      accepts ''host'' sample_parameters (Some 500) (Some ns) nm (createInstance (\<lambda>t. Inr None) ''host'' sample_parameters)"
    using createInstance_root_node [of "\<lambda>t. Inr None" "''host''" sample_parameters] root
    by (simp add: p Let_def)
  with root have "accepts ''host'' sample_parameters (Some 500) (Some 2) ''dev:1Dir''
      (createInstance (\<lambda>t. Inr None) ''host'' sample_parameters)" by blast
  then show ?thesis by (auto simp: accepts_def p)
qed

text \<open>Four parameters that \<^verbatim>\<open>README.md\<close> documents and \<open>createInstance\<close> reads are not registered with
  the factory. Exactly the registered parameters and these four have an effect.\<close>

definition unregistered_parameters :: "string list" where
  "unregistered_parameters = [''logLevel'', ''trustAny'', ''trustListFolder'', ''revocationListFolder'']"

lemma parameter_names:
  "''port'' \<in> set (registered_parameters @ unregistered_parameters)"
  "''username'' \<in> set (registered_parameters @ unregistered_parameters)"
  "''password'' \<in> set (registered_parameters @ unregistered_parameters)"
  "''map'' \<in> set (registered_parameters @ unregistered_parameters)"
  "''publishingInterval'' \<in> set (registered_parameters @ unregistered_parameters)"
  "''rootNode'' \<in> set (registered_parameters @ unregistered_parameters)"
  "''connectionTimeout'' \<in> set (registered_parameters @ unregistered_parameters)"
  "''certificate'' \<in> set (registered_parameters @ unregistered_parameters)"
  "''privateKey'' \<in> set (registered_parameters @ unregistered_parameters)"
  "''cacheFile'' \<in> set (registered_parameters @ unregistered_parameters)"
  "''logLevel'' \<in> set (registered_parameters @ unregistered_parameters)"
  "''trustAny'' \<in> set (registered_parameters @ unregistered_parameters)"
  "''trustListFolder'' \<in> set (registered_parameters @ unregistered_parameters)"
  "''revocationListFolder'' \<in> set (registered_parameters @ unregistered_parameters)"
  by (simp_all add: registered_parameters_def unregistered_parameters_def)

theorem parameters_in_effect:
  "createInstance stod adr parameters = createInstance stod adr
     (\<lambda>k. if k \<in> set (registered_parameters @ unregistered_parameters) then parameters k else []) \<and>
   list_all (\<lambda>k. k \<notin> set registered_parameters \<and>
     (\<exists>v. createInstance stod adr (sample_parameters(k := v)) \<noteq> createInstance stod adr sample_parameters))
     unregistered_parameters"
proof (rule conjI)
  show "createInstance stod adr parameters = createInstance stod adr
     (\<lambda>k. if k \<in> set (registered_parameters @ unregistered_parameters) then parameters k else [])"
    by (simp only: createInstance_def parameter_names if_True)
next
  have root: "parse_root_node [] (to_string (2 :: u64) @ '':'' @ ''dev:1Dir'') = Inr (Some 2, ''dev:1Dir'')"
    using parse_root_node_browsing [of 2 "''dev:1Dir''"] by simp
  have "createInstance stod adr (sample_parameters(''logLevel'' := ''DEBUG'')) \<noteq> createInstance stod adr sample_parameters"
    "createInstance stod adr (sample_parameters(''trustAny'' := ''1'')) \<noteq> createInstance stod adr sample_parameters"
    "createInstance stod adr (sample_parameters(''trustListFolder'' := ''d'')) \<noteq> createInstance stod adr sample_parameters"
    "createInstance stod adr (sample_parameters(''revocationListFolder'' := ''d'')) \<noteq> createInstance stod adr sample_parameters"
    using root by (simp_all add: createInstance_def sample_parameters_def parse_log_level_def
        parse_trust_any_def to_upper_def Let_def)
  then show "list_all (\<lambda>k. k \<notin> set registered_parameters \<and>
     (\<exists>v. createInstance stod adr (sample_parameters(k := v)) \<noteq> createInstance stod adr sample_parameters))
     unregistered_parameters"
    unfolding registered_parameters_def unregistered_parameters_def by auto
qed

section \<open>From the first start to a later one\<close>

text \<open>Registers whose name and id the cache file can hold.\<close>

definition storable :: "(string \<Rightarrow> string) \<Rightarrow> register_info \<Rightarrow> bool" where
  "storable nf r \<longleftrightarrow> nf (nodeBrowseName r) \<noteq> [] \<and> arrayLength r < 2 ^ 32 \<and>
     (case node_identifier (reg_id r) of
        Numeric n \<Rightarrow> True | Str s \<Rightarrow> s \<noteq> [] \<and> CHR 0x00 \<notin> set s | Opaque n \<Rightarrow> False)"

lemma described_cacheable: "described env srv server r \<Longrightarrow> storable nf r \<Longrightarrow> cacheable server nf r"
  by (auto simp: described_def in_order_def storable_def cacheable_def)

lemma save_cache_Done:
  assumes "save_cache env cacheFile s = Done t" and "cacheFile \<noteq> []"
  shows "\<exists>doc. saveCatalogue (normal env) (serialize env) (save_answer env) (catalogue s) = value_of doc \<and>
    t = s\<lparr>saved_cache := Some doc\<rparr>"
proof (cases "saveCatalogue (normal env) (serialize env) (save_answer env) (catalogue s)")
  case (Some r)
  with assms show ?thesis by (cases r) (auto simp: save_cache_def)
qed (use assms in \<open>simp add: save_cache_def\<close>)

lemma fillCatalogue_saves:
  assumes "fillCatalogue env srv depth cfg cacheFile cs0 = Done cs" and "cacheFile \<noteq> []"
  obtains doc where "saved_cache cs = Some doc"
    and "saveCatalogue (normal env) (serialize env) (save_answer env) (catalogue cs) = value_of doc"
proof -
  from assms(1) obtain s t where "save_cache env cacheFile s = Done t"
    and cs: "cs = t\<lparr>catalogue_filled := True\<rparr>"
    by (auto simp: fillCatalogue_def seq_eq_Done)
  from save_cache_Done [OF this(1) assms(2)] cs show ?thesis using that by auto
qed

lemma connect_and_fill_Done:
  assumes "connect_and_fill env srv depth answer cfg cacheFile (s0, cs0) = Done (s, cs)"
  shows "fillCatalogue env srv depth cfg cacheFile cs0 = Done cs"
  using assms by (auto simp: connect_and_fill_def seq_eq_Done map_result_eq_Done)

text \<open>
  C7: A device that had to browse on its first start, because its cache file was missing or no catalogue,
  leaves a cache file from which every later start builds the same catalogue, without a call to the
  server, as long as there is a register, the registers' names and ids are ones a cache file can
  hold, and their paths differ.
\<close>

theorem restart_from_cache:
  assumes first: "construct_backend env srv depth answer files dirs a = Done (s, cs)"
    and unreadable: "read_cache env (ia_cacheFile a) = Some (Inl (Logic_error m))" and "ia_cacheFile a \<noteq> []"
    and container: "stores_only (add_register env)"
      "\<And>r c. path r \<notin> path ` set c \<Longrightarrow> add_register env r c = Inr (c @ [r])"
    and modes: "\<And>b. \<exists>f. deserialize env (serialize env b) = Inr f"
    and "ia_address a \<noteq> []" and "catalogue cs \<noteq> []" and st: "list_all (storable (normal env)) (catalogue cs)"
    and paths: "distinct (map (path \<circ> cached (join env) (normal env)) (catalogue cs))"
  shows "\<exists>doc. saved_cache cs = Some doc \<and>
    (\<forall>d. reread doc d \<longrightarrow>
      (\<exists>s'. construct_backend (env\<lparr>load := \<lambda>f. Inr d\<rparr>) srv' depth' answer' files dirs a =
         Done (s', \<lparr>catalogue = map (cached (join env) (normal env)) (catalogue cs),
                    catalogue_filled = True, saved_cache = None\<rparr>) \<and> ua_calls s' = []))"
proof -
  let ?cfg = "device_config_of a"
  obtain interval c where iv: "Option.bind (ia_publishingInterval a) double_to_ulong = Some interval"
    and con: "OPCUAConnection files dirs (ia_address a) (ia_username a) (ia_password a) interval
       (ucast (ia_connectionTimeout a)) (ia_certificate a) (ia_privateKey a) (ia_trustAny a)
       (ia_trustListFolder a) (ia_revocationListFolder a) = Some c"
    using first by (auto simp: construct_backend_def split: option.splits)
  with first unreadable \<open>ia_cacheFile a \<noteq> []\<close>
  have "connect_and_fill env srv depth answer ?cfg (ia_cacheFile a)
      (initial_backend c, empty_catalogue_state) = Done (s, cs)"
    by (simp add: construct_backend_def)
  then have fill: "fillCatalogue env srv depth ?cfg (ia_cacheFile a) empty_catalogue_state = Done cs"
    by (rule connect_and_fill_Done)
  then obtain doc where doc: "saved_cache cs = Some doc"
    "saveCatalogue (normal env) (serialize env) (save_answer env) (catalogue cs) = value_of doc"
    by (rule fillCatalogue_saves) (rule \<open>ia_cacheFile a \<noteq> []\<close>)
  have "all_described env srv (ia_address a) (catalogue cs)"
    using described_fill [OF container(1), of srv ?cfg empty_catalogue_state depth "ia_cacheFile a"]
    unfolding fill by (simp add: device_config_of_def empty_catalogue_state_def)
  with st have cs: "\<forall>r \<in> set (catalogue cs). cacheable (ia_address a) (normal env) r"
    by (auto simp: list_all_iff intro: described_cacheable)
  have "read_cache (env\<lparr>load := \<lambda>f. Inr d\<rparr>) (ia_cacheFile a) =
      value_of (map (cached (join env) (normal env)) (catalogue cs))" if "reread doc d" for d
    using cached_roundtrip [where load = "\<lambda>f. Inr d" and xmlfile = "ia_cacheFile a" and what = "what env" and
        join = "join env" and deserialize = "deserialize env" and serialize = "serialize env" and
        add_register = "add_register env", OF doc(2) that refl \<open>catalogue cs \<noteq> []\<close>
        \<open>ia_address a \<noteq> []\<close> cs paths modes container(2)]
    by (simp add: read_cache_def)
  then have "construct_backend (env\<lparr>load := \<lambda>f. Inr d\<rparr>) srv' depth' answer' files dirs a =
      Done (initial_backend c, \<lparr>catalogue = map (cached (join env) (normal env)) (catalogue cs),
        catalogue_filled = True, saved_cache = None\<rparr>)" if "reread doc d" for d
    using that iv con \<open>ia_cacheFile a \<noteq> []\<close> by (simp add: construct_backend_def empty_catalogue_state_def)
  moreover have "ua_calls (initial_backend c) = []" by (simp add: initial_backend_def)
  ultimately show ?thesis using doc(1) by blast
qed

text \<open>A concrete device without certificate that browses the server of theory \<open>Catalogue\<close>.\<close>

definition tiny_args :: instance_args where
  "tiny_args = \<lparr>ia_address = ''opc.tcp://h'', ia_username = [], ia_password = [], ia_mapfile = [],
     ia_publishingInterval = Some 500, ia_rootNode = [], ia_rootNS = None, ia_connectionTimeout = 5000,
     ia_logLevel = LL_INFO, ia_certificate = [], ia_privateKey = [], ia_trustAny = False,
     ia_trustListFolder = [], ia_revocationListFolder = [], ia_cacheFile = ''c.xml''\<rparr>"

definition tiny_connection :: connection where
  "tiny_connection = \<lparr>serverAddress = ''opc.tcp://h'', channelState = Channel_closed,
     sessionState = Session_closed, username = [], password = [], certificate = [], key = [],
     publishingInterval = 500, connectionTimeout = 5000,
     config = \<lparr>securityMode = Mode_default, security_setup = Set_default, userIdentityToken = None,
       timeout = 5000\<rparr>\<rparr>"

definition tiny_fields :: "(string \<times> string) list" where
  "tiny_fields = [(''nodeId'', ''/dev/x''), (''name'', ''dev/x''), (''description'', []),
     (''length'', to_string (4 :: u32)), (''access_mode'', ''x''), (''readOnly'', ''0''),
     (''typeId'', to_string (6 :: u32)), (''nameSpace'', to_string (1 :: u16)), (''isNumeric'', ''0''),
     (''indexRange'', [])]"

definition tiny_document :: "(string \<Rightarrow> string \<Rightarrow> xml) \<Rightarrow> document" where
  "tiny_document field = \<lparr>root_element = Element ''catalogue'' [(''version'', ''1.0'')] 0
     [Element ''general'' [] 0 [Element ''serverAddress'' [] 0 [Text ''opc.tcp://h'']],
      Element ''register'' [] 0 (map (\<lambda>(tag, t). field tag t) tiny_fields)],
     root_namespace = expected_namespace\<rparr>"

definition leaf_again :: "string \<Rightarrow> string \<Rightarrow> xml" where
  "leaf_again tag t = Element tag [] 0 (if t = [] then [] else [Text t])"

lemma reads_as_leaf_again: "reads_as (leaf tag t) (leaf_again tag t)"
  by (simp add: leaf_def leaf_again_def get_child_text_def)

lemma tiny_reread: "reread (tiny_document leaf) (tiny_document leaf_again)"
proof -
  have "list_all2 reads_as (map (\<lambda>(tag, t). leaf tag t) tiny_fields) (map (\<lambda>(tag, t). leaf_again tag t) tiny_fields)"
    by (simp add: list_all2_map1 list_all2_map2 list.rel_refl_strong case_prod_unfold reads_as_leaf_again
        del: reads_as.simps)
  moreover have "elements (map (\<lambda>(tag, t). leaf tag t) fs) = map (\<lambda>(tag, t). leaf tag t) fs"
    "elements (map (\<lambda>(tag, t). leaf_again tag t) fs) = map (\<lambda>(tag, t). leaf_again tag t) fs" for fs
    by (simp_all add: leaf_def leaf_again_def case_prod_unfold)
  moreover have "leaf_text (map (\<lambda>(tag, t). leaf tag t) tiny_fields) = None" by (simp add: tiny_fields_def)
  ultimately show ?thesis by (simp add: reread_def tiny_document_def get_child_text_def del: elements_mapped)
qed

abbreviation tiny_state :: "document option \<Rightarrow> catalogue_state" where
  "tiny_state saved \<equiv> \<lparr>catalogue = [tiny_register], catalogue_filled = True, saved_cache = saved\<rparr>"

lemma tiny_saved:
  "saveCatalogue id (\<lambda>b. ''x'') good_save [tiny_register] = value_of (tiny_document leaf)"
  by (simp add: saveCatalogue_def catalogue_document_def good_save_def addRegInfoXmlNode_def id_text_def
      tiny_register_def info_with_id_def info_without_id_def default_info_def is_numeric_def
      getNumberOfElements_def bool_to_string_def tiny_document_def tiny_fields_def)

lemma tiny_connection:
  "OPCUAConnection files dirs (ia_address tiny_args) (ia_username tiny_args) (ia_password tiny_args) 500
     (ucast (ia_connectionTimeout tiny_args)) (ia_certificate tiny_args) (ia_privateKey tiny_args)
     (ia_trustAny tiny_args) (ia_trustListFolder tiny_args) (ia_revocationListFolder tiny_args) =
   Some tiny_connection"
  by (simp add: OPCUAConnection_def tiny_args_def tiny_connection_def)

lemma tiny_interval: "Option.bind (ia_publishingInterval tiny_args) double_to_ulong = Some 500"
  using double_to_ulong_of_nat [of 500] by (simp add: tiny_args_def)

lemma tiny_connect:
  "\<exists>s. connect (op_reset good_open) (op_connect good_open) (op_deleted good_open) (op_create good_open)
     (op_monitor good_open) (initial_backend tiny_connection) = Done s"
  by (simp add: connect_def resetClient_def close_connection_def good_open_def quiet_reset_answer_def initial_backend_def
      add_call_def stateCallback_def isConnected_def Let_def)

lemma tiny_fill_saving:
  "fillCatalogue tiny_environment tiny_server (Suc (Suc 0)) (device_config_of tiny_args) ''c.xml''
     empty_catalogue_state = Done (tiny_state (Some (tiny_document leaf)))"
proof -
  have "device_config_of tiny_args = tiny_config"
    by (simp add: device_config_of_def tiny_args_def tiny_config_def)
  moreover have "find_nodes tiny_environment tiny_server (Suc (Suc 0)) tiny_config [] = Done [tiny_register]"
    using tiny_fill
    by (auto simp: fillCatalogue_def no_catalogue_def save_cache_def seq_eq_Done map_result_eq_Done)
  moreover have "normal tiny_environment = id" "serialize tiny_environment = (\<lambda>b. ''x'')"
    "save_answer tiny_environment = good_save" by (simp_all add: tiny_environment_def)
  ultimately show ?thesis
    by (simp add: fillCatalogue_def empty_catalogue_state_def save_cache_def tiny_saved)
qed

lemma tiny_unreadable:
  "read_cache tiny_environment ''c.xml'' = Some (Inl (Logic_error ''Error opening c.xml: no such file''))"
  by (simp add: read_cache_def readCatalogue_def createDomParser_def tiny_environment_def)

lemma tiny_first_start:
  "\<exists>s. construct_backend tiny_environment tiny_server (Suc (Suc 0)) good_open (\<lambda>f. None) (\<lambda>d. None)
     tiny_args = Done (s, tiny_state (Some (tiny_document leaf)))"
proof -
  from tiny_connect obtain s where s: "connect (op_reset good_open) (op_connect good_open) (op_deleted good_open)
      (op_create good_open) (op_monitor good_open) (initial_backend tiny_connection) = Done s" ..
  have "ia_cacheFile tiny_args = ''c.xml''" by (simp add: tiny_args_def)
  then have "construct_backend tiny_environment tiny_server (Suc (Suc 0)) good_open (\<lambda>f. None) (\<lambda>d. None)
      tiny_args = Done (s, tiny_state (Some (tiny_document leaf)))"
    by (simp add: construct_backend_def tiny_interval tiny_connection tiny_unreadable
        connect_and_fill_def s tiny_fill_saving)
  then show ?thesis ..
qed

theorem restart_from_cache_witness:
  "\<exists>s. construct_backend (tiny_environment\<lparr>load := \<lambda>f. Inr (tiny_document leaf_again)\<rparr>) tiny_server 0 good_open
     (\<lambda>f. None) (\<lambda>d. None) tiny_args = Done (s, tiny_state None) \<and> ua_calls s = []"
proof -
  obtain s where s: "construct_backend tiny_environment tiny_server (Suc (Suc 0)) good_open (\<lambda>f. None)
      (\<lambda>d. None) tiny_args = Done (s, tiny_state (Some (tiny_document leaf)))" using tiny_first_start ..
  have env: "join tiny_environment = slash_join" "normal tiny_environment = id"
    "add_register tiny_environment = append_new" "deserialize tiny_environment = Inr"
    by (simp_all add: tiny_environment_def)
  have same: "cached slash_join id tiny_register = tiny_register"
    by (simp add: cached_def tiny_register_def info_with_id_def info_without_id_def default_info_def)
  have "\<exists>doc. saved_cache (tiny_state (Some (tiny_document leaf))) = Some doc \<and>
    (\<forall>d. reread doc d \<longrightarrow>
      (\<exists>s'. construct_backend (tiny_environment\<lparr>load := \<lambda>f. Inr d\<rparr>) tiny_server 0 good_open (\<lambda>f. None)
         (\<lambda>d. None) tiny_args = Done (s', \<lparr>catalogue =
           map (cached (join tiny_environment) (normal tiny_environment)) (catalogue (tiny_state (Some (tiny_document leaf)))),
           catalogue_filled = True, saved_cache = None\<rparr>) \<and> ua_calls s' = []))"
    using tiny_unreadable stores_only_append_new
    by (intro restart_from_cache [OF s])
      (auto simp: env append_new_def tiny_args_def storable_def tiny_register_def info_with_id_def
        info_without_id_def default_info_def)
  with tiny_reread show ?thesis by (auto simp: env same)
qed

end
