(* ===== verification/Device_System.thy ===== *)
theory Device_System
  imports Data_Frame Accessor_Types Creation_Properties
begin

text \<open>
  The device together with its accessors and the version map. A state holds the backend, the live
  accessor objects and the version map; a step is an event of the device, the construction or
  destruction of an accessor, one of the transfers of an accessor, or an assignment of the
  application to a user buffer. The invariant of the system discharges one of the
  preconditions of the device alone: an accessor that is destroyed is found in the registry.
\<close>

section \<open>States and steps\<close>

record 'n system =
  device :: "variant backend"
  live :: "acc_id \<rightharpoonup> 'n accessor_object"
  versions :: "'n version_mapper"

text \<open>The state in which a call ends, by a return or by an exception.\<close>

fun ends :: "'s result \<Rightarrow> 's \<Rightarrow> bool" where
  "ends (Done s) t \<longleftrightarrow> t = s"
| "ends (Throws e s) t \<longleftrightarrow> t = s"
| "ends _ t \<longleftrightarrow> False"

lemma post_ends: "post P r \<Longrightarrow> ends r t \<Longrightarrow> P t"
  by (cases r) auto

fun of_device :: "event \<Rightarrow> bool" where
  "of_device (Attach _ _ _ _) \<longleftrightarrow> False"
| "of_device (Detach _ _ _) \<longleftrightarrow> False"
| "of_device _ \<longleftrightarrow> True"

text \<open>The part of \<open>unsubscribe_guard\<close> that is about the deque: the item of an only accessor is
  erased at one of the ends, or no other item is monitored.\<close>

definition erase_guard :: "string \<Rightarrow> ('v, 'z) manager_scheme \<Rightarrow> bool" where
  "erase_guard name s \<longleftrightarrow>
     (case find_index (\<lambda>(p, item). browseName item = name) (items s) of
        None \<Rightarrow> True
      | Some k \<Rightarrow> 1 < length (item_accessors (snd (items s ! k))) \<or> k = 0 \<or> Suc k = length (items s) \<or>
          AList.delete (item_id (snd (items s ! k))) (subscriptionMap s) = [])"

text \<open>Copying a range of a variant yields values of the same type.\<close>

definition copies_within :: "(variant \<Rightarrow> string \<Rightarrow> u32 + variant) \<Rightarrow> ua_type \<Rightarrow> bool" where
  "copies_within copy_range t \<longleftrightarrow>
     (\<forall>v rng w. list_all (in_ua t) v \<longrightarrow> copy_range v rng = Inr w \<longrightarrow> list_all (in_ua t) w)"

text \<open>The value at the front of a queue has the type of the node.\<close>

definition front_typed ::
    "(variant notification list \<Rightarrow> (string + variant data_value) option) \<Rightarrow> ua_type \<Rightarrow>
     variant notification list \<Rightarrow> bool" where
  "front_typed front t h \<longleftrightarrow> (\<forall>d. front h = Some (Inr d) \<longrightarrow> list_all (in_ua t) (dv_value d))"

text \<open>The accessors are made from the catalogue \<open>c\<close>, which does not change after the device is constructed.
  What the server sends has the type of the node (rules \<open>taken\<close>, \<open>fetched\<close> and \<open>written\<close>), and the
  application fills the user buffer with values of its type (rule \<open>filled\<close>).\<close>

inductive system_step ::
    "(num_type \<Rightarrow> num_type \<Rightarrow> rat \<Rightarrow> conversion) \<Rightarrow> (int \<Rightarrow> nat \<Rightarrow> 'n) \<Rightarrow> catalogue \<Rightarrow> 'n system \<Rightarrow> 'n system \<Rightarrow> bool"
  for nconv new_version c where
  event: "of_device e \<Longrightarrow> enabled e (device S) \<Longrightarrow> ends (perform e (device S)) t \<Longrightarrow>
    system_step nconv new_version c S (S\<lparr>device := t\<rparr>)"
| created: "live S a = None \<Longrightarrow> ctk_type_ok ctk \<Longrightarrow> valid_response (at_create answer) \<Longrightarrow>
    getRegisterAccessor_impl nf answer raw wait a ctk c name n off (device S) = Done (t, Some obj) \<Longrightarrow>
    system_step nconv new_version c S (S\<lparr>device := t, live := (live S)(a \<mapsto> obj)\<rparr>)"
| not_created: "live S a = None \<Longrightarrow> valid_response (at_create answer) \<Longrightarrow>
    getRegisterAccessor_impl nf answer raw wait a ctk c name n off (device S) =
      Throws e (t, (no_obj :: 'n accessor_object option)) \<Longrightarrow>
    system_step nconv new_version c S (S\<lparr>device := t\<rparr>)"
| destroyed: "live S a = Some obj \<Longrightarrow>
    (subscribed obj \<longrightarrow> erase_guard (nodeBrowseName (info obj)) (device S)) \<Longrightarrow>
    ends (destroy_accessor detaching obj (device S)) t \<Longrightarrow>
    system_step nconv new_version c S (S\<lparr>device := t, live := (live S)(a := None)\<rparr>)"
| taken: "live S a = Some obj \<Longrightarrow> front_typed front (uaType obj) (notifications (accessors (device S) a)) \<Longrightarrow>
    ends (read_queue front a (device S)) t \<Longrightarrow>
    system_step nconv new_version c S (S\<lparr>device := t\<rparr>)"
| fetched: "live S a = Some obj \<Longrightarrow> copies_within copy_range (uaType obj) \<Longrightarrow>
    list_all (in_ua (uaType obj)) (tr_value reading) \<Longrightarrow>
    ends (doReadTransferSynchronously copy_range now active reading obj (device S)) t \<Longrightarrow>
    system_step nconv new_version c S (S\<lparr>device := t\<rparr>)"
| post_read: "live S a = Some obj \<Longrightarrow>
    ends (doPostRead nconv new_version new_data (acc_data (accessors (device S) a)) (obj, versions S))
      (obj', vm) \<Longrightarrow>
    system_step nconv new_version c S (S\<lparr>live := (live S)(a \<mapsto> obj'), versions := vm\<rparr>)"
| filled: "live S a = Some obj \<Longrightarrow> length b = length (buffer obj) \<Longrightarrow>
    list_all (in_ctk (ctkType obj)) b \<Longrightarrow>
    system_step nconv new_version c S (S\<lparr>live := (live S)(a \<mapsto> obj\<lparr>buffer := b\<rparr>)\<rparr>)"
| written: "live S a = Some obj \<Longrightarrow> copies_within copy_range (uaType obj) \<Longrightarrow>
    list_all (in_ua (uaType obj)) (tr_value reading) \<Longrightarrow>
    ends (doWriteTransfer nconv copy_range now active reading writing version (device S, obj)) (t, obj') \<Longrightarrow>
    system_step nconv new_version c S (S\<lparr>device := t, live := (live S)(a \<mapsto> obj')\<rparr>)"

inductive system_reachable ::
    "(num_type \<Rightarrow> num_type \<Rightarrow> rat \<Rightarrow> conversion) \<Rightarrow> (int \<Rightarrow> nat \<Rightarrow> 'n) \<Rightarrow> catalogue \<Rightarrow> 'n system \<Rightarrow> bool"
  for nconv new_version c where
  start: "initial (device S) \<Longrightarrow> live S = Map.empty \<Longrightarrow> system_reachable nconv new_version c S"
| step: "system_reachable nconv new_version c S \<Longrightarrow> system_step nconv new_version c S T \<Longrightarrow>
    system_reachable nconv new_version c T"

section \<open>Invariant\<close>

definition object_ok :: "'n accessor_object \<Rightarrow> bool" where
  "object_ok obj \<longleftrightarrow> ua_type_ok (uaType obj) \<and> ctk_type_ok (ctkType obj) \<and>
     length (buffer obj) = unat (numberOfWords obj) \<and> list_all (in_ctk (ctkType obj)) (buffer obj)"

definition listens :: "string \<Rightarrow> acc_id \<Rightarrow> ('v, 'z) manager_scheme \<Rightarrow> bool" where
  "listens name a s \<longleftrightarrow> (\<exists>as. registry s name = Some as \<and> a \<in> set as)"

definition data_ok :: "ua_type \<Rightarrow> acc_id \<Rightarrow> variant backend \<Rightarrow> bool" where
  "data_ok t a s \<longleftrightarrow> list_all (in_ua t) (dv_value (acc_data (accessors s a)))"

definition accessor_ok :: "variant backend \<Rightarrow> acc_id \<Rightarrow> 'n accessor_object \<Rightarrow> bool" where
  "accessor_ok s a obj \<longleftrightarrow> acc_id obj = a \<and> object_ok obj \<and> data_ok (uaType obj) a s \<and>
     (subscribed obj \<longrightarrow> listens (nodeBrowseName (info obj)) a s)"

definition system_inv :: "'n system \<Rightarrow> bool" where
  "system_inv S \<longleftrightarrow> backend_inv (device S) \<and>
     (\<forall>a obj. live S a = Some obj \<longrightarrow> accessor_ok (device S) a obj)"

lemma accessor_ok_cong:
  assumes "accessor_ok s a obj" and "acc_data (accessors t a) = acc_data (accessors s a)"
    and "\<And>name. listens name a s \<Longrightarrow> listens name a t"
  shows "accessor_ok t a obj"
  using assms by (simp add: accessor_ok_def data_ok_def)

lemma post_has_data:
  "(\<And>D. has_data D s \<Longrightarrow> post (has_data D) r) \<Longrightarrow> ends r t \<Longrightarrow>
   acc_data (accessors t a) = acc_data (accessors s a)"
  by (drule meta_spec, drule meta_mp [OF _ has_data_same], drule (1) post_ends)
    (simp add: has_data_def fun_eq_iff)

text \<open>What a transfer of the accessor \<open>a\<close> may change from the state \<open>s\<close> on.\<close>

definition moved :: "ua_type \<Rightarrow> acc_id \<Rightarrow> variant backend \<Rightarrow> variant backend \<Rightarrow> bool" where
  "moved ty a s t \<longleftrightarrow> backend_inv t \<and> registry t = registry s \<and> data_ok ty a t \<and>
     (\<forall>b. b \<noteq> a \<longrightarrow> acc_data (accessors t b) = acc_data (accessors s b))"

lemma moved_callbacks [typing]:
  assumes "moved ty a s t"
  shows "post (moved ty a s) (run_all client_callback es t)"
proof -
  from assms have "post backend_inv (run_all client_callback es t)"
    by (intro callbacks_inv) (simp add: moved_def)
  moreover have "post (\<lambda>u. registry u = registry t) (run_all client_callback es t)"
    by (rule post_mono [OF client.cbs_skel]) (blast intro: registry_cong reg_view_skel)
  moreover have "post (has_data (\<lambda>a. acc_data (accessors t a))) (run_all client_callback es t)"
    by (rule callbacks_data) (rule has_data_same)
  ultimately have "post (\<lambda>u. backend_inv u \<and> registry u = registry t \<and>
      has_data (\<lambda>a. acc_data (accessors t a)) u) (run_all client_callback es t)"
    by (simp add: post_conj)
  then show ?thesis
    by (rule post_mono) (use assms in \<open>auto simp: moved_def data_ok_def has_data_def fun_eq_iff\<close>)
qed

lemma moved_refl: "backend_inv s \<Longrightarrow> data_ok ty a s \<Longrightarrow> moved ty a s s"
  by (simp add: moved_def)

lemma moved_call [simp]: "moved ty a s (add_call k t) = moved ty a s t"
  by (simp add: moved_def data_ok_def add_call_def registry_def)

lemma moved_set_data [typing]:
  "moved ty a s t \<Longrightarrow> list_all (in_ua ty) (dv_value d) \<Longrightarrow> moved ty a s (set_data a d t)"
  by (simp add: moved_def set_data_def data_ok_def registry_def)

lemma moved_push [simp]: "moved ty a s (push_notification n b t) = moved ty a s t"
proof -
  have "backend_inv (push_notification n b t) = backend_inv t"
    and "acc_data (accessors (push_notification n b t) d) = acc_data (accessors t d)"
    and "registry (push_notification n b t) = registry t" for d
    by (simp_all add: push_notification_def registry_def)
  then show ?thesis by (simp add: moved_def data_ok_def)
qed

lemma read_queue_moves:
  assumes "moved ty a s t" and "front_typed front ty (notifications (accessors t a))"
  shows "post (moved ty a s) (read_queue front a t)"
  using assms moved_set_data [of ty a s "push_notification Taken a t"]
  by (auto simp: read_queue_def take_notification_def front_typed_def split: option.split sum.split)

lemma moved_mark [typing]:
  assumes "moved ty a s t"
  shows "moved ty a s (mark_external name t)"
proof -
  have "acc_data (accessors (mark_external name t) b) = acc_data (accessors t b)" for b
    using mark_external_data [OF has_data_same, where name = name]
    by (simp add: has_data_def fun_eq_iff)
  moreover have "registry (mark_external name t) = registry t"
    by (rule registry_cong) simp
  ultimately show ?thesis
    using assms by (simp add: moved_def data_ok_def mark_external_inv)
qed

lemma moved_handleError [typing]:
  "moved ty a s t \<Longrightarrow> post (moved ty a s) (handleError es name node r n t)"
  unfolding handleError_def close_connection_def by (rule post_seq [OF moved_callbacks]) (simp_all add: moved_mark)

section \<open>Transfers\<close>

text \<open>What a transfer leaves alone in the accessor object.\<close>

definition same_object :: "'n accessor_object \<Rightarrow> 'n accessor_object \<Rightarrow> bool" where
  "same_object obj obj' \<longleftrightarrow> acc_id obj' = acc_id obj \<and> info obj' = info obj \<and>
     uaType obj' = uaType obj \<and> ctkType obj' = ctkType obj \<and> subscribed obj' = subscribed obj"

lemma same_object_simps [simp]:
  "same_object obj obj"
  "same_object obj (o2\<lparr>buffer := b\<rparr>) = same_object obj o2"
  "same_object obj (o2\<lparr>faulty := f\<rparr>) = same_object obj o2"
  "same_object obj (o2\<lparr>currentVersion := n\<rparr>) = same_object obj o2"
  by (simp_all add: same_object_def)

lemma object_ok_simps [simp]:
  "object_ok (obj\<lparr>faulty := f\<rparr>) = object_ok obj"
  "object_ok (obj\<lparr>currentVersion := n\<rparr>) = object_ok obj"
  by (simp_all add: object_ok_def)

lemma copyVariant_in_type [typing]:
  assumes "copies_within copy_range ty" and "list_all (in_ua ty) v" and "list_all (in_ua ty) (dv_value d)"
  shows "list_all (in_ua ty) (dv_value (copyVariant copy_range now v rng d))"
  using assms
  by (auto simp: copyVariant_def copies_within_def prepare_value_def init_value_def Let_def
      split: sum.split)

lemma read_moves [typing]:
  assumes "moved (uaType obj) (acc_id obj) s t" and "copies_within copy_range (uaType obj)"
    and "list_all (in_ua (uaType obj)) (tr_value answer)"
  shows "post (moved (uaType obj) (acc_id obj) s)
    (doReadTransferSynchronously copy_range now active answer obj t)"
proof -
  let ?I = "moved (uaType obj) (acc_id obj) s"
  have "post ?I (check_exception active t)"
    using assms(1) by (simp add: check_exception_def split: option.split)
  moreover have "post ?I (run_all client_callback es (add_call k u))" if "?I u" for es k u
    using that by (intro typing) simp
  moreover have "?I (set_data (acc_id obj) (copyVariant copy_range now (tr_value answer) rng
      (acc_data (accessors u (acc_id obj)))) u)" if "?I u" for rng u
    using that assms(2,3) by (intro typing) (simp_all add: moved_def data_ok_def)
  ultimately show ?thesis
    unfolding doReadTransferSynchronously_def by (auto intro!: post_seq typing)
qed

lemma write_word_moves:
  assumes "converts_within nconv" and "object_ok obj" and "moved (uaType obj) (acc_id obj) s t"
  shows "post (moved (uaType obj) (acc_id obj) s) (write_word nconv obj i t)"
proof -
  let ?d = "acc_data (accessors t (acc_id obj))"
  have "moved (uaType obj) (acc_id obj) s
      (set_data (acc_id obj) (?d\<lparr>dv_value := (dv_value ?d)[k := x]\<rparr>) t)"
    if "in_ua (uaType obj) x" for k x
    using that assms(3)
    by (intro typing) (auto simp: moved_def data_ok_def list_all_iff dest!: set_update_subset_insert [THEN subsetD])
  moreover have "in_ua (uaType obj) (cleared (uaType obj))"
    using assms(2) by (intro typing) (simp add: object_ok_def)
  moreover have "in_ua (uaType obj) x"
    if "toOpcUA nconv (uaType obj) (ctkType obj) (buffer obj ! i) = Inr x" for x
    using that assms(1,2) by (blast intro: typing dest: object_ok_def [THEN iffD1])
  ultimately show ?thesis by (auto simp: write_word_def Let_def split: sum.split)
qed

lemma post_pair_with [simp]: "post P (pair_with b r) = post (\<lambda>x. P (x, b)) r"
  by (cases r) auto

lemma write_moves [typing]:
  assumes nconv: "converts_within nconv" and ok: "object_ok obj"
    and s: "moved (uaType obj) (acc_id obj) s t"
    and copy: "copies_within copy_range (uaType obj)"
    and v: "list_all (in_ua (uaType obj)) (tr_value reading)"
  shows "post (\<lambda>(u, obj'). moved (uaType obj) (acc_id obj) s u \<and> object_ok obj' \<and> same_object obj obj')
    (doWriteTransfer nconv copy_range now active reading writing version (t, obj))"
proof -
  let ?I = "moved (uaType obj) (acc_id obj) s"
  have words: "?I u \<Longrightarrow> post ?I (run_all (write_word nconv obj) js u)" for js u
    by (rule run_all_post [OF write_word_moves [OF nconv ok]])
  have pre: "post ?I (check_exception active t)"
    using s by (simp add: check_exception_def split: option.split)
  have first: "post ?I (seq (check_exception active t) (\<lambda>s.
      seq (if isPartial obj \<or> \<not> hasValue (acc_data (accessors s (acc_id obj)))
           then doReadTransferSynchronously copy_range now active reading obj s
           else Done s)
        (run_all (write_word nconv obj) [0 ..< unat (numberOfWords obj)])))"
    by (rule post_seq [OF pre], rule post_seq) (auto intro: words read_moves copy v)
  have call: "post ?I (run_all client_callback es (add_call k u))" if "?I u" for es k u
    using that by (intro typing) simp
  have "post ?I (write_value writing o2 u)" if "?I u" for o2 u
    unfolding write_value_def by (rule post_seq [OF call [OF that]]) (auto intro: typing)
  then show ?thesis
    unfolding doWriteTransfer_def prod.case
    by (intro post_seq) (use first ok in \<open>auto elim: post_mono\<close>)
qed

lemma read_word_types:
  assumes "converts_within nconv" and "object_ok o1 \<and> same_object obj o1"
  shows "post (\<lambda>o2. object_ok o2 \<and> same_object obj o2) (read_word nconv v i o1)"
proof -
  have "in_ctk (ctkType o1) x" if "toCTK nconv (ctkType o1) (uaType o1) w = Some (Inr x)" for w x
    using that assms by (blast intro: typing dest: object_ok_def [THEN iffD1])
  with assms(2) show ?thesis
    by (auto simp: read_word_def object_ok_def list_all_iff split: option.split sum.split
        dest!: set_update_subset_insert [THEN subsetD])
qed

lemma post_read_types [typing]:
  assumes "converts_within nconv" and "object_ok obj"
  shows "post (\<lambda>(obj', vm'). object_ok obj' \<and> same_object obj obj')
    (doPostRead nconv new_version new_data d (obj, vm))"
proof -
  let ?J = "\<lambda>o2. object_ok o2 \<and> same_object obj o2"
  have J: "?J obj" using assms(2) by simp
  have "post ?J (run_all (read_word nconv (dv_value d)) js obj)" for js
    by (rule run_all_post [OF read_word_types [OF assms(1)] J])
  then have "post ?J (if \<not> hasValue d then Done (obj\<lparr>faulty := True\<rparr>)
      else seq (run_all (read_word nconv (dv_value d)) [0 ..< unat (numberOfWords obj)] obj)
             (\<lambda>obj. Done (obj\<lparr>faulty := False\<rparr>)))"
    using J by (auto intro!: post_seq)
  with J show ?thesis
    unfolding doPostRead_def prod.case
    by (auto intro!: post_seq split: option.split elim!: post_mono)
qed

section \<open>Construction and destruction\<close>

lemma ua_type_of_ok: "ua_type_of t = Some ty \<Longrightarrow> ua_type_ok ty"
  by (auto simp: ua_type_of_def float_type_def double_type_def split: if_splits)

lemma new_accessor_ok:
  assumes "ua_type_of (dataType i) = Some ty" and "ctk_type_ok ctk"
  shows "object_ok (new_accessor a i name words off wait ty ctk)"
  using assms by (auto simp: object_ok_def new_accessor_def list_all_iff intro: typing ua_type_of_ok)

lemma perform_inv: "backend_inv s \<Longrightarrow> enabled e s \<Longrightarrow> ends (perform e s) t \<Longrightarrow> backend_inv t"
  using perform_sound [of s e] by (auto simp: sound_def post_conj dest: post_ends)

lemma perform_keeps_data: "ends (perform e s) t \<Longrightarrow> acc_data (accessors t a) = acc_data (accessors s a)"
  using perform_data by (rule post_has_data)

lemma construct_accessor_ends:
  assumes inv: "backend_inv s" and v: "valid_response (at_create answer)"
    and t: "ends (construct_accessor answer raw wait a i s) t"
  shows "backend_inv t"
    and "b \<noteq> a \<Longrightarrow> acc_data (accessors t b) = acc_data (accessors s b)"
    and "\<not> raw \<Longrightarrow> acc_data (accessors t a) = init_value"
    and "registry t = (if wait \<and> \<not> raw then spec_subscribe (nodeBrowseName i) a (registry s) else registry s)"
proof -
  let ?s = "s\<lparr>accessors := (accessors s)(a :=
      \<lparr>indexRange = reg_indexRange i, acc_data = init_value, notifications = []\<rparr>)\<rparr>"
  let ?e = "Attach answer (nodeBrowseName i) (reg_id i) a"
  have reg: "registry ?s = registry s" by (simp add: registry_def)
  have inv': "backend_inv ?s" using inv by simp
  have "backend_inv t \<and> (b \<noteq> a \<longrightarrow> acc_data (accessors t b) = acc_data (accessors s b)) \<and>
    (\<not> raw \<longrightarrow> acc_data (accessors t a) = init_value) \<and>
    registry t = (if wait \<and> \<not> raw then spec_subscribe (nodeBrowseName i) a (registry s) else registry s)"
  proof (cases "wait \<and> \<not> raw")
    case True
    with t have e: "ends (perform ?e ?s) t" by (simp add: construct_accessor_def)
    have "backend_inv t" using perform_inv [OF inv' _ e] v by simp
    moreover have "registry t = spec_step ?e (registry ?s)"
      using perform_registry [OF inv'] e by (rule post_ends)
    ultimately show ?thesis using perform_keeps_data [OF e] True reg by simp
  next
    case False
    with t inv reg show ?thesis by (cases raw) (auto simp: construct_accessor_def Let_def)
  qed
  then show "backend_inv t" "b \<noteq> a \<Longrightarrow> acc_data (accessors t b) = acc_data (accessors s b)"
    "\<not> raw \<Longrightarrow> acc_data (accessors t a) = init_value"
    "registry t = (if wait \<and> \<not> raw then spec_subscribe (nodeBrowseName i) a (registry s) else registry s)"
    by blast+
qed

lemma listens_subscribe:
  "R name' = Some as \<Longrightarrow> b \<in> set as \<Longrightarrow> \<exists>bs. spec_subscribe name a R name' = Some bs \<and> b \<in> set bs"
  "\<exists>bs. spec_subscribe name a R name = Some bs \<and> a \<in> set bs"
  by (auto simp: spec_subscribe_def split: option.split)

lemma listens_unsubscribe:
  assumes "R name = Some as" and "a \<in> set as" and "R name' = Some bs" and "b \<in> set bs" and "b \<noteq> a"
  shows "\<exists>cs. spec_unsubscribe name a R name' = Some cs \<and> b \<in> set cs"
proof (cases "name' = name")
  case True
  with assms have "a \<in> set as" "b \<in> set as" by auto
  then have "1 < length as"
    using assms(5) by (cases as; cases "tl as") auto
  with True assms show ?thesis by (auto simp: spec_unsubscribe_def)
qed (use assms in \<open>simp add: spec_unsubscribe_def\<close>)

lemma getRegisterAccessor_Throws:
  assumes "getRegisterAccessor_impl nf answer raw wait a ctk c name n off s = Throws e (t, x)"
  shows "t = s \<or> (\<exists>i. ends (construct_accessor answer raw wait a i s) t)"
proof -
  have split: "seq (map_result (\<lambda>t. (t, None)) r) (\<lambda>(t, _). Done (t, g t)) = Throws e (t, x) \<Longrightarrow> ends r t"
    for r :: "variant backend result" and g
    by (cases r) auto
  from assms show ?thesis
    by (auto simp: getRegisterAccessor_impl_def Let_def split: if_splits option.splits dest!: split)
qed

text \<open>An accessor that listens satisfies the guard of \<open>unsubscribe\<close> if the deque allows it.\<close>

lemma listens_guard:
  assumes inv: "backend_inv s" and l: "listens name a s" and g: "erase_guard name s"
  shows "has_manager s" and "unsubscribe_guard name a s"
proof -
  from l obtain as where as: "registry s name = Some as" "a \<in> set as" by (auto simp: listens_def)
  then show "has_manager s" using inv by (auto simp: backend_inv_def registry_def)
  from as obtain k where k: "find_index (\<lambda>(p, item). browseName item = name) (items s) = Some k"
    using registry_none [of name s] by fastforce
  obtain p item where pi: "items s ! k = (p, item)" by fastforce
  from k pi have "k < length (items s)" "browseName item = name" by (auto simp: find_index_Some)
  with inv pi as have "item_accessors item = as"
    using registry_name [of s "next_addr s" k p item] by (simp add: backend_inv_def wf_manager_def)
  with as g k pi show "unsubscribe_guard name a s"
    by (auto simp: unsubscribe_guard_def erase_guard_def Let_def)
qed

lemma destroy_accessor_ends:
  assumes inv: "backend_inv s" and ok: "accessor_ok s a obj"
    and g: "subscribed obj \<Longrightarrow> erase_guard (nodeBrowseName (info obj)) s"
  shows "destroy_accessor answer obj s \<noteq> Undefined"
    and "ends (destroy_accessor answer obj s) t \<Longrightarrow> backend_inv t"
    and "ends (destroy_accessor answer obj s) t \<Longrightarrow> b \<noteq> a \<Longrightarrow> accessor_ok s b other \<Longrightarrow> accessor_ok t b other"
proof -
  let ?n = "nodeBrowseName (info obj)"
  let ?e = "Detach answer ?n a"
  have all: "destroy_accessor answer obj s \<noteq> Undefined \<and>
    (ends (destroy_accessor answer obj s) t \<longrightarrow> backend_inv t \<and>
      (b \<noteq> a \<longrightarrow> accessor_ok s b other \<longrightarrow> accessor_ok t b other))"
  proof (cases "subscribed obj")
    case True
    with ok have l: "listens ?n a s" and d: "destroy_accessor answer obj s = perform ?e s"
      by (simp_all add: accessor_ok_def destroy_accessor_def)
    from listens_guard [OF inv l g [OF True]] have en: "enabled ?e s" by simp
    have "no_ub (perform ?e s)" using perform_sound [OF inv en] by (auto simp: sound_def)
    moreover have "accessor_ok t b other"
      if e: "ends (perform ?e s) t" and b: "b \<noteq> a" and other: "accessor_ok s b other"
    proof (rule accessor_ok_cong [OF other perform_keeps_data [OF e]])
      fix name assume "listens name b s"
      moreover have "registry t = spec_unsubscribe ?n a (registry s)"
        using post_ends [OF perform_registry [OF inv] e] by simp
      ultimately show "listens name b t"
        using l b by (auto simp: listens_def dest: listens_unsubscribe)
    qed
    ultimately show ?thesis using perform_inv [OF inv en] by (simp add: d no_ub_iff)
  qed (use inv in \<open>simp add: destroy_accessor_def\<close>)
  then show "destroy_accessor answer obj s \<noteq> Undefined"
    "ends (destroy_accessor answer obj s) t \<Longrightarrow> backend_inv t"
    "ends (destroy_accessor answer obj s) t \<Longrightarrow> b \<noteq> a \<Longrightarrow> accessor_ok s b other \<Longrightarrow> accessor_ok t b other"
    by blast+
qed

section \<open>The invariant holds\<close>

lemma system_event_inv:
  assumes inv: "system_inv S" and dev: "of_device e" and en: "enabled e (device S)"
    and e: "ends (perform e (device S)) t"
  shows "system_inv (S\<lparr>device := t\<rparr>)"
proof -
  have b: "backend_inv (device S)" using inv by (simp add: system_inv_def)
  have "registry t = spec_step e (registry (device S))"
    using perform_registry [OF b] e by (rule post_ends)
  with dev have "registry t = registry (device S)" by (cases e) simp_all
  then have "accessor_ok t a obj" if "accessor_ok (device S) a obj" for a and obj :: "'a accessor_object"
    using perform_keeps_data [OF e] by (intro accessor_ok_cong [OF that]) (simp_all add: listens_def)
  with inv perform_inv [OF b en e] show ?thesis by (simp add: system_inv_def)
qed

lemma constructed_others:
  assumes inv: "backend_inv s" and v: "valid_response (at_create answer)"
    and t: "ends (construct_accessor answer raw wait a i s) t"
    and b: "b \<noteq> a" and ok: "accessor_ok s b obj"
  shows "accessor_ok t b obj"
proof (rule accessor_ok_cong [OF ok construct_accessor_ends(2) [OF inv v t b]])
  fix name assume "listens name b s"
  then show "listens name b t"
    unfolding listens_def construct_accessor_ends(4) [OF inv v t]
    by (auto intro: listens_subscribe(1))
qed

lemma constructed_ok:
  assumes inv: "backend_inv s" and v: "valid_response (at_create answer)" and ctk: "ctk_type_ok ctk"
    and g: "getRegisterAccessor_impl nf answer raw wait a ctk c name n off s = Done (t, Some obj)"
  shows "accessor_ok t a obj"
proof -
  from g obtain i ty where ty: "ua_type_of (dataType i) = Some ty"
    and t: "construct_accessor answer raw wait a i s = Done t"
    and obj: "obj = new_accessor a i name (if n = 0 then arrayLength i else n) off wait ty ctk"
    by (rule getRegisterAccessor_Done)
  from t have raw: "\<not> raw" by (auto simp: construct_accessor_def)
  from t have e: "ends (construct_accessor answer raw wait a i s) t" by simp
  have "object_ok obj" unfolding obj by (rule new_accessor_ok [OF ty ctk])
  moreover have "subscribed obj \<longrightarrow> listens (nodeBrowseName (info obj)) a t"
    using construct_accessor_ends(4) [OF inv v e] raw listens_subscribe(2)
    by (simp add: obj new_accessor_def listens_def)
  moreover have "data_ok (uaType obj) a t"
    using construct_accessor_ends(3) [OF inv v e raw] by (simp add: data_ok_def init_value_def)
  ultimately show ?thesis by (simp add: accessor_ok_def obj new_accessor_def)
qed

lemma moved_other:
  "moved ty a s t \<Longrightarrow> b \<noteq> a \<Longrightarrow> accessor_ok s b obj \<Longrightarrow> accessor_ok t b obj"
  by (erule accessor_ok_cong) (simp_all add: moved_def listens_def)

lemma moved_same:
  assumes "moved (uaType obj) a s t" and "accessor_ok s a obj" and "same_object obj obj'" and "object_ok obj'"
  shows "accessor_ok t a obj'"
  using assms by (simp add: accessor_ok_def moved_def same_object_def listens_def)

lemma system_transfer_inv:
  assumes "system_inv S" and "live S a = Some obj" and "moved (uaType obj) a (device S) t"
    and "same_object obj obj'" and "object_ok obj'" and "device T = t" and "live T = (live S)(a \<mapsto> obj')"
  shows "system_inv T"
proof -
  have "backend_inv t" using assms(3) by (simp add: moved_def)
  moreover have "accessor_ok t d x" if "((live S)(a \<mapsto> obj')) d = Some x" for d x
    using that assms(1-5) by (cases "d = a") (auto simp: system_inv_def intro: moved_other moved_same)
  ultimately show ?thesis by (simp add: system_inv_def assms(6,7))
qed

lemma live_ok:
  assumes "system_inv S" and "live S a = Some obj"
  shows "backend_inv (device S)" and "accessor_ok (device S) a obj" and "acc_id obj = a"
    and "object_ok obj" and "data_ok (uaType obj) a (device S)"
    and "moved (uaType obj) a (device S) (device S)"
  using assms by (auto simp: system_inv_def accessor_ok_def intro: moved_refl)

lemma system_step_inv:
  assumes nconv: "converts_within nconv" and inv: "system_inv S" and st: "system_step nconv new_version c S T"
  shows "system_inv T"
  using st
proof cases
  case (event e t)
  with inv show ?thesis by (auto intro: system_event_inv)
next
  case (created a ctk answer nf raw wait name n off t obj)
  from inv have b: "backend_inv (device S)" by (simp add: system_inv_def)
  from created(5) obtain i where "construct_accessor answer raw wait a i (device S) = Done t"
    by (rule getRegisterAccessor_Done)
  then have e: "ends (construct_accessor answer raw wait a i (device S)) t" by simp
  from inv construct_accessor_ends(1) [OF b created(4) e] constructed_others [OF b created(4) e]
    constructed_ok [OF b created(4,3,5)] show ?thesis
    by (auto simp: created(1) system_inv_def)
next
  case (not_created a answer nf raw wait ctk name n off e t no_obj)
  from inv have b: "backend_inv (device S)" by (simp add: system_inv_def)
  from getRegisterAccessor_Throws [OF not_created(4)] show ?thesis
  proof (elim disjE exE)
    fix i assume e: "ends (construct_accessor answer raw wait a i (device S)) t"
    have "accessor_ok t d obj" if "live S d = Some obj" for d obj
    proof (rule constructed_others [OF b not_created(3) e])
      show "d \<noteq> a" using that not_created(2) by auto
      show "accessor_ok (device S) d obj" using that inv by (simp add: system_inv_def)
    qed
    with construct_accessor_ends(1) [OF b not_created(3) e] show ?thesis
      by (simp add: not_created(1) system_inv_def)
  qed (use inv not_created(1) in simp)
next
  case (destroyed a obj detaching t)
  from inv destroyed(2) have b: "backend_inv (device S)" "accessor_ok (device S) a obj"
    by (simp_all add: system_inv_def)
  note ends = destroy_accessor_ends(2,3) [OF b]
  from inv ends(1) [OF _ destroyed(4)] ends(2) [OF _ destroyed(4)] destroyed(3) show ?thesis
    by (auto simp: destroyed(1) system_inv_def)
next
  case (taken a obj front t)
  note ok = live_ok [OF inv taken(2)]
  from post_ends [OF read_queue_moves [OF ok(6) taken(3)] taken(4)]
  have "moved (uaType obj) a (device S) t" .
  from inv taken(2) this _ ok(4) show ?thesis
    by (rule system_transfer_inv) (use taken(1,2) in auto)
next
  case (fetched a obj copy_range reading now active t)
  note ok = live_ok [OF inv fetched(2)]
  have "moved (uaType obj) a (device S) t"
    using post_ends [OF read_moves fetched(5)] fetched(3,4) ok(3,6) by blast
  from inv fetched(2) this _ ok(4) show ?thesis
    by (rule system_transfer_inv) (use fetched(1,2) in auto)
next
  case (post_read a obj new_data obj' vm)
  note ok = live_ok [OF inv post_read(2)]
  from post_ends [OF post_read_types [OF nconv ok(4)] post_read(3)]
  have "same_object obj obj'" "object_ok obj'" by simp_all
  with inv post_read(2) ok(6) show ?thesis
    by (rule system_transfer_inv) (simp_all add: post_read(1))
next
  case (filled a obj b)
  note ok = live_ok [OF inv filled(2)]
  have "object_ok (obj\<lparr>buffer := b\<rparr>)" using ok(4) filled(3,4) by (simp add: object_ok_def)
  from inv filled(2) ok(6) _ this show ?thesis
    by (rule system_transfer_inv) (simp_all add: filled(1))
next
  case (written a obj copy_range reading now active writing version t obj')
  note ok = live_ok [OF inv written(2)]
  from post_ends [OF write_moves [OF nconv ok(4) _ written(3,4)] written(5)] ok(3,6)
  have "moved (uaType obj) a (device S) t" "same_object obj obj'" "object_ok obj'" by fastforce+
  with inv written(2) show ?thesis by (rule system_transfer_inv) (simp_all add: written(1))
qed

lemma system_reachable_inv:
  assumes "converts_within nconv"
  shows "system_reachable nconv new_version c S \<Longrightarrow> system_inv S"
proof (induction rule: system_reachable.induct)
  case (start S)
  then show ?case using reachable_inv [OF reachable.start] by (simp add: system_inv_def)
next
  case (step S T)
  with assms show ?case by (blast intro: system_step_inv)
qed

section \<open>Properties\<close>

text \<open>A device with one accessor, which covers three words of a register and whose user buffer the
  application has filled.\<close>

definition three_words :: "nat accessor_object" where
  "three_words = new_accessor 0 wide_register ''x'' 3 1 True (UA_Number (Integer True 32))
     (CTK_Number (Integer True 32))"

abbreviation (input) filled_words :: "ctk_value list" where
  "filled_words \<equiv> [CTK_number 7, CTK_number 8, CTK_number (- 9)]"

abbreviation (input) system_with :: "variant backend \<Rightarrow> nat accessor_object \<Rightarrow> nat system" where
  "system_with t obj \<equiv> \<lparr>device = t, live = [0 \<mapsto> obj], versions = empty_mapper\<rparr>"

lemma wide_subscribed:
  "\<exists>t. getRegisterAccessor_impl id blank_attach False True 0 (CTK_Number (Integer True 32)) [wide_register]
     ''x'' 3 1 blank_backend = Done (t, Some three_words)"
  by (simp add: getRegisterAccessor_impl_def wide_register_def info_with_id_def info_without_id_def
      default_info_def ua_type_of_def construct_accessor_def attach_def subscribe_def
      activateSubscriptionSupport_def new_manager_def blank_backend_def three_words_def Let_def)

lemma reachable_with_accessor:
  "\<exists>t. system_reachable reference_converter (\<lambda>tp n. n) [wide_register]
     (system_with t (three_words\<lparr>buffer := filled_words\<rparr>))"
proof -
  let ?S = "\<lparr>device = blank_backend, live = Map.empty, versions = empty_mapper\<rparr> :: nat system"
  obtain t where t: "getRegisterAccessor_impl id blank_attach False True 0 (CTK_Number (Integer True 32))
      [wide_register] ''x'' 3 1 (device ?S) = Done (t, Some three_words)"
    using wide_subscribed by auto
  have "system_reachable reference_converter (\<lambda>tp n. n) [wide_register] ?S"
    by (rule system_reachable.start) (simp_all add: initial_blank)
  moreover have "system_step reference_converter (\<lambda>tp n. n) [wide_register] ?S (system_with t three_words)"
    using system_step.created [OF _ _ valid_blank_response t] by simp
  moreover have "system_step reference_converter (\<lambda>tp n. n) [wide_register] (system_with t three_words)
      (system_with t (three_words\<lparr>buffer := filled_words\<rparr>))"
    using system_step.filled [of "system_with t three_words" 0 three_words filled_words]
    by (simp add: three_words_def new_accessor_def)
  ultimately show ?thesis by (blast intro: system_reachable.step)
qed

text \<open>
  C8: Whatever the application, the server and the device do, the user buffer of every live accessor
  holds as many values as the accessor has words, each of the user type, and the data last received
  for it consists of values of the OPC UA type of its node.
\<close>

theorem system_well_typed:
  assumes "converts_within nconv" and "system_reachable nconv new_version c S" and "live S a = Some obj"
  shows "length (buffer obj) = unat (numberOfWords obj) \<and> list_all (in_ctk (ctkType obj)) (buffer obj) \<and>
    list_all (in_ua (uaType obj)) (dv_value (acc_data (accessors (device S) a)))"
  using system_reachable_inv [OF assms(1,2)] assms(3)
  by (auto simp: system_inv_def accessor_ok_def object_ok_def data_ok_def)

theorem system_well_typed_witness:
  "\<exists>t :: variant backend. list_all (in_ua (UA_Number (Integer True 32))) (dv_value (acc_data (accessors t 0))) \<and>
     length filled_words = unat (numberOfWords three_words)"
proof -
  let ?obj = "three_words\<lparr>buffer := filled_words\<rparr>"
  obtain t where t: "system_reachable reference_converter (\<lambda>tp n. n) [wide_register] (system_with t ?obj)"
    using reachable_with_accessor by blast
  have "live (system_with t ?obj) 0 = Some ?obj" by simp
  note typed = system_well_typed [OF reference_converter_within t this]
  show ?thesis by (rule exI [of _ t]) (use typed in \<open>simp add: three_words_def new_accessor_def\<close>)
qed

text \<open>
  C9: Every live accessor that subscribed is listed in the registry under the name of its node, whatever
  happened since it was made. So its destruction never looks for an accessor that is not there: the
  only undefined behaviour left in it is the erasure from the middle of the deque.
\<close>

theorem subscribed_accessor_listed:
  assumes "converts_within nconv" and "system_reachable nconv new_version c S" and "live S a = Some obj"
    and "subscribed obj"
  shows "(\<exists>as. registry (device S) (nodeBrowseName (info obj)) = Some as \<and> a \<in> set as) \<and>
    (erase_guard (nodeBrowseName (info obj)) (device S) \<longrightarrow>
      destroy_accessor answer obj (device S) \<noteq> Undefined)"
proof -
  from system_reachable_inv [OF assms(1,2)] assms(3)
  have "backend_inv (device S)" "accessor_ok (device S) a obj" by (simp_all add: system_inv_def)
  from destroy_accessor_ends(1) [OF this] this(2) assms(4) show ?thesis
    by (simp add: accessor_ok_def listens_def)
qed

theorem subscribed_accessor_listed_witness:
  "\<exists>(t :: variant backend) as. registry t ''x'' = Some as \<and> 0 \<in> set as"
proof -
  let ?obj = "three_words\<lparr>buffer := filled_words\<rparr>"
  obtain t where t: "system_reachable reference_converter (\<lambda>tp n. n) [wide_register] (system_with t ?obj)"
    using reachable_with_accessor by blast
  have "live (system_with t ?obj) 0 = Some ?obj" and "subscribed ?obj"
    by (simp_all add: three_words_def new_accessor_def)
  note listed = subscribed_accessor_listed [OF reference_converter_within t this]
  show ?thesis
    by (rule exI [of _ t]) (use listed in \<open>simp add: three_words_def new_accessor_def wide_register_def
        info_with_id_def info_without_id_def\<close>)
qed

end
