(* ===== verification/Device_Life.thy ===== *)
theory Device_Life
  imports Device_System
begin

text \<open>
  The life of a device from its constructor on: the constructor leaves the state the transition
  system starts in, and the accessors made while the device runs are accessors for registers of the
  catalogue the constructor has filled.
\<close>

section \<open>The constructor leaves an initial state\<close>

lemma initial_conn [simp]: "initial (s\<lparr>conn := c\<rparr>) = initial s"
  by (simp add: initial_def)

lemma initial_call [simp]: "initial (add_call k s) = initial s"
  by (simp add: initial_def add_call_def)

lemma initial_initial_backend: "initial (initial_backend c)"
  by (simp add: initial_def initial_backend_def)

lemma callback_initial: "initial s \<Longrightarrow> post initial (client_callback e s)"
  by (cases e)
    (simp_all add: stateCallback_def inactivityCallback_def deleteSubscriptionCallback_def
      responseHandler_def Let_def initial_def)

lemma callbacks_initial: "initial s \<Longrightarrow> post initial (run_all client_callback es s)"
  by (rule post_run_all [OF callback_initial])

lemma connect_initial:
  assumes "initial s"
  shows "post initial (connect reset answer deleted response monitor s)"
proof -
  have *: "\<not> has_manager t" if "initial t" for t
    using that by (simp add: initial_def)
  have "post initial (resetClient reset s)"
    using assms * [OF assms] by (simp add: resetClient_def close_connection_def callbacks_initial)
  then show ?thesis
    unfolding connect_def
    by (intro post_seq) (auto intro: callbacks_initial dest: *)
qed

lemma connect_and_fill_starts:
  assumes "connect_and_fill env srv depth answer cfg cacheFile (s0, cs0) = Done (s, cs)" and "initial s0"
  shows "initial s"
proof -
  from assms(1) have "connect (op_reset answer) (op_connect answer) (op_deleted answer) (op_create answer)
      (op_monitor answer) s0 = Done s"
    by (auto simp: connect_and_fill_def seq_eq_Done map_result_eq_Done)
  with connect_initial [OF assms(2)] show ?thesis by (metis post.simps(1))
qed

text \<open>Either the catalogue was read from the cache file, or the server was asked for it.\<close>

lemma construct_backend_Done:
  assumes "construct_backend env srv depth answer files dirs a = Done (s, cs)"
  shows "initial s"
    and "(\<exists>cat. ia_cacheFile a \<noteq> [] \<and> read_cache env (ia_cacheFile a) = Some (Inr cat)) \<or>
      (\<exists>cacheFile. fillCatalogue env srv depth (device_config_of a) cacheFile empty_catalogue_state = Done cs)"
proof -
  from assms obtain c where
    "(\<exists>cacheFile. connect_and_fill env srv depth answer (device_config_of a) cacheFile
        (initial_backend c, empty_catalogue_state) = Done (s, cs)) \<or>
     s = initial_backend c \<and> (\<exists>cat. ia_cacheFile a \<noteq> [] \<and> read_cache env (ia_cacheFile a) = Some (Inr cat))"
    by (auto simp: construct_backend_def Let_def split: option.splits sum.splits if_splits)
  then show "initial s"
    and "(\<exists>cat. ia_cacheFile a \<noteq> [] \<and> read_cache env (ia_cacheFile a) = Some (Inr cat)) \<or>
      (\<exists>cacheFile. fillCatalogue env srv depth (device_config_of a) cacheFile empty_catalogue_state = Done cs)"
    by (metis initial_initial_backend connect_and_fill_starts, metis connect_and_fill_Done)
qed

section \<open>Accessors and the catalogue\<close>

definition from_register :: "catalogue \<Rightarrow> 'n accessor_object \<Rightarrow> bool" where
  "from_register c obj \<longleftrightarrow> info obj \<in> set c \<and> ua_type_of (dataType (info obj)) = Some (uaType obj) \<and>
     offsetWords obj + numberOfWords obj \<le> arrayLength (info obj)"

text \<open>The test of the words against the register is a sum of \<open>size_t\<close>: it means what it says if the sum
  does not wrap around.\<close>

lemma window_inside:
  fixes off n len :: u64
  assumes "off + n \<le> len" and "unat off + unat n < 2 ^ 64"
  shows "unat off + unat n \<le> unat len"
proof -
  have "unat (off + n) = unat off + unat n"
    using assms(2) by (simp add: unat_add_lem [where 'a = 64, THEN iffD1])
  with assms(1) show ?thesis by (simp add: word_le_nat_alt)
qed

definition same_register :: "'n accessor_object \<Rightarrow> 'n accessor_object \<Rightarrow> bool" where
  "same_register obj obj' \<longleftrightarrow> info obj' = info obj \<and> uaType obj' = uaType obj \<and>
     offsetWords obj' = offsetWords obj \<and> numberOfWords obj' = numberOfWords obj"

lemma same_register_simps [simp]:
  "same_register obj obj"
  "same_register obj (o2\<lparr>buffer := b\<rparr>) = same_register obj o2"
  "same_register obj (o2\<lparr>faulty := f\<rparr>) = same_register obj o2"
  "same_register obj (o2\<lparr>currentVersion := n\<rparr>) = same_register obj o2"
  by (simp_all add: same_register_def)

lemma same_register_from: "same_register obj obj' \<Longrightarrow> from_register c obj \<Longrightarrow> from_register c obj'"
  by (simp add: same_register_def from_register_def)

lemma post_read_register:
  "post (\<lambda>(obj', vm'). same_register obj obj') (doPostRead nconv new_version new_data d (obj, vm))"
proof -
  have word: "post (same_register obj) (read_word nconv v i o1)" if "same_register obj o1" for v i o1
    using that by (auto simp: read_word_def split: option.split sum.split)
  have "post (same_register obj) (run_all (read_word nconv (dv_value d)) js obj)" for js
    by (rule post_run_all [OF word]) simp_all
  then have "post (same_register obj) (if \<not> hasValue d then Done (obj\<lparr>faulty := True\<rparr>)
      else seq (run_all (read_word nconv (dv_value d)) [0 ..< unat (numberOfWords obj)] obj)
             (\<lambda>obj. Done (obj\<lparr>faulty := False\<rparr>)))"
    by (auto intro!: post_seq)
  then show ?thesis
    unfolding doPostRead_def prod.case
    by (auto intro!: post_seq split: option.split elim!: post_mono)
qed

lemma write_register:
  "post (\<lambda>(u, obj'). same_register obj obj')
     (doWriteTransfer nconv copy_range now active reading writing version (s, obj))"
proof -
  have "post (\<lambda>_. True) r" for r :: "variant backend result"
    by (cases r) simp_all
  then show ?thesis
    unfolding doWriteTransfer_def prod.case by (intro post_seq) (auto elim: post_mono)
qed

lemma find_in_set: "find P xs = Some x \<Longrightarrow> x \<in> set xs"
  by (auto simp: find_Some_iff)

lemma created_from_register:
  assumes "getRegisterAccessor_impl nf answer raw wait a ctk c name n off s = Done (t, Some obj)"
  shows "from_register c obj"
proof -
  from assms obtain i ty where "i \<in> set c" and ty: "ua_type_of (dataType i) = Some ty"
    and w: "\<not> (arrayLength i < n + off \<or> n = 0 \<and> 0 < off)"
    and obj: "obj = new_accessor a i name (if n = 0 then arrayLength i else n) off wait ty ctk"
    by (auto simp: getRegisterAccessor_impl_def Let_def seq_eq_Done map_result_eq_Done
        split: if_splits option.splits dest: find_in_set)
  moreover have "off + (if n = 0 then arrayLength i else n) \<le> arrayLength i"
    using w by (auto simp: add.commute not_less word_neq_0_conv)
  ultimately show ?thesis by (simp add: from_register_def new_accessor_def)
qed

definition live_from :: "catalogue \<Rightarrow> 'n system \<Rightarrow> bool" where
  "live_from c S \<longleftrightarrow> (\<forall>a obj. live S a = Some obj \<longrightarrow> from_register c obj)"

lemma system_step_live_from:
  assumes l: "live_from c S" and st: "system_step nconv new_version c S T"
  shows "live_from c T"
  using st
proof cases
  case (created a ctk answer nf raw wait name n off t obj)
  with l created_from_register [OF created(5)] show ?thesis by (simp add: live_from_def)
next
  case (post_read a obj new_data obj' vm)
  with l post_ends [OF post_read_register post_read(3)] same_register_from [of obj obj' c]
  show ?thesis by (auto simp: live_from_def)
next
  case (filled a obj b)
  with l show ?thesis by (auto simp: live_from_def from_register_def)
next
  case (written a obj copy_range reading now active writing version t obj')
  with l post_ends [OF write_register written(5)] same_register_from [of obj obj' c]
  show ?thesis by (auto simp: live_from_def)
qed (use l in \<open>auto simp: live_from_def\<close>)

lemma steps_reachable:
  assumes "(system_step nconv new_version c)\<^sup>*\<^sup>* S T" and "initial (device S)" and "live S = Map.empty"
  shows "system_reachable nconv new_version c T \<and> live_from c T"
  using assms
proof (induction rule: rtranclp_induct)
  case base
  then show ?case by (simp add: live_from_def system_reachable.start)
next
  case (step T U)
  then show ?case by (blast intro: system_reachable.step system_step_live_from)
qed

section \<open>Properties\<close>

text \<open>
  C4: From the constructor to the running device: whatever happens after a device was constructed,
  every live accessor belongs to a register of its catalogue; it has the type the register names; its words lie within
  the register, unless the sum of its offset and its number of words passes 64 bits; and the data
  it received last consists of values of that type. If the catalogue was not read from a cache file, the
  register says of the node of the server that has its id what the server says: type, description, access and
  length.
\<close>

theorem live_accessors_described:
  assumes "construct_backend env srv depth answer files dirs a = Done (device S, cs)"
    and "stores_only (add_register env)" and "converts_within nconv"
    and "live S = Map.empty" and "(system_step nconv new_version (getRegisterCatalogue cs))\<^sup>*\<^sup>* S T"
    and "live T b = Some obj"
  shows "info obj \<in> set (getRegisterCatalogue cs) \<and>
    ua_type_of (dataType (info obj)) = Some (uaType obj) \<and>
    (unat (offsetWords obj) + unat (numberOfWords obj) < 2 ^ 64 \<longrightarrow>
      unat (offsetWords obj) + unat (numberOfWords obj) \<le> unat (arrayLength (info obj))) \<and>
    list_all (in_ua (uaType obj)) (dv_value (acc_data (accessors (device T) b))) \<and>
    (ia_cacheFile a = [] \<or> (\<exists>e. read_cache env (ia_cacheFile a) = Some (Inl e)) \<longrightarrow>
      described env srv (ia_address a) (info obj))"
proof -
  note built = construct_backend_Done [OF assms(1)]
  have described: "all_described env srv (ia_address a) (catalogue cs)"
    if "ia_cacheFile a = [] \<or> (\<exists>e. read_cache env (ia_cacheFile a) = Some (Inl e))"
  proof -
    from built(2) that obtain cacheFile where
      fill: "fillCatalogue env srv depth (device_config_of a) cacheFile empty_catalogue_state = Done cs"
      by auto
    show ?thesis
      using described_fill [OF assms(2), of srv "device_config_of a" empty_catalogue_state depth cacheFile]
      unfolding fill by (simp add: device_config_of_def empty_catalogue_state_def)
  qed
  from steps_reachable [OF assms(5) built(1) assms(4)]
  have r: "system_reachable nconv new_version (getRegisterCatalogue cs) T" "live_from (getRegisterCatalogue cs) T"
    by simp_all
  then have reg: "from_register (getRegisterCatalogue cs) obj" using assms(6) by (simp add: live_from_def)
  with window_inside [of "offsetWords obj" "numberOfWords obj" "arrayLength (info obj)"]
  have "unat (offsetWords obj) + unat (numberOfWords obj) < 2 ^ 64 \<longrightarrow>
      unat (offsetWords obj) + unat (numberOfWords obj) \<le> unat (arrayLength (info obj))"
    by (simp add: from_register_def)
  moreover from live_ok(5) [OF system_reachable_inv [OF assms(3) r(1)] assms(6)]
  have "list_all (in_ua (uaType obj)) (dv_value (acc_data (accessors (device T) b)))"
    by (simp add: data_ok_def)
  ultimately show ?thesis
    using reg described by (auto simp: from_register_def getRegisterCatalogue_def list_all_iff)
qed

definition tiny_accessor :: "nat accessor_object" where
  "tiny_accessor = new_accessor 0 tiny_register ''dev/x'' 2 1 False (UA_Number (Integer True 32)) CTK_String"

theorem live_accessors_described_witness:
  "\<exists>t :: variant backend. described tiny_environment tiny_server ''opc.tcp://h'' (info tiny_accessor) \<and>
     unat (offsetWords tiny_accessor) + unat (numberOfWords tiny_accessor) \<le> unat (arrayLength (info tiny_accessor)) \<and>
     list_all (in_ua (UA_Number (Integer True 32))) (dv_value (acc_data (accessors t 0)))"
proof -
  obtain s where s: "construct_backend tiny_environment tiny_server (Suc (Suc 0)) good_open (\<lambda>f. None)
      (\<lambda>d. None) tiny_args = Done (s, tiny_state (Some (tiny_document leaf)))" using tiny_first_start ..
  let ?cs = "tiny_state (Some (tiny_document leaf))"
  let ?S = "\<lparr>device = s, live = Map.empty, versions = empty_mapper\<rparr> :: nat system"
  have "\<exists>t. getRegisterAccessor_impl id blank_attach False False 0 CTK_String (getRegisterCatalogue ?cs)
      ''dev/x'' 2 1 (device ?S) = Done (t, Some tiny_accessor)"
    by (simp add: getRegisterAccessor_impl_def tiny_accessor_def tiny_register_def info_with_id_def
        info_without_id_def default_info_def ua_type_of_def construct_accessor_def getRegisterCatalogue_def Let_def)
  then obtain t where t: "getRegisterAccessor_impl id blank_attach False False 0 CTK_String
      (getRegisterCatalogue ?cs) ''dev/x'' 2 1 (device ?S) = Done (t, Some tiny_accessor)" ..
  have "system_step reference_converter (\<lambda>tp n. n) (getRegisterCatalogue ?cs) ?S
      (?S\<lparr>device := t, live := (live ?S)(0 \<mapsto> tiny_accessor)\<rparr>)"
    by (rule system_step.created [OF _ _ valid_blank_response t]) simp_all
  then have steps: "(system_step reference_converter (\<lambda>tp n. n) (getRegisterCatalogue ?cs))\<^sup>*\<^sup>* ?S
      (?S\<lparr>device := t, live := (live ?S)(0 \<mapsto> tiny_accessor)\<rparr>)" by (rule r_into_rtranclp)
  have "ia_cacheFile tiny_args = ''c.xml''" by (simp add: tiny_args_def)
  with tiny_unreadable
  have unread: "ia_cacheFile tiny_args = [] \<or> (\<exists>e. read_cache tiny_environment (ia_cacheFile tiny_args) = Some (Inl e))"
    by auto
  have env: "join tiny_environment = slash_join" "add_register tiny_environment = append_new"
    "ia_address tiny_args = ''opc.tcp://h''"
    by (simp_all add: tiny_environment_def tiny_args_def)
  have "construct_backend tiny_environment tiny_server (Suc (Suc 0)) good_open (\<lambda>f. None)
      (\<lambda>d. None) tiny_args = Done (device ?S, ?cs)" using s by simp
  note facts = live_accessors_described [OF this _ reference_converter_within _ steps, of 0 tiny_accessor]
  show ?thesis
    by (rule exI [of _ t]) (use facts unread stores_only_append_new env in \<open>simp add: tiny_accessor_def new_accessor_def\<close>)
qed

end
