(* ===== verification/End_To_End.thy ===== *)
theory End_To_End
  imports Device_System
begin

text \<open>
  The way of a value through the parts of the backend: from the server through the client thread, the
  subscription manager and the queue of an accessor to the user buffer; and from the user buffer to
  the server and back.
\<close>

section \<open>From the server to the application\<close>

text \<open>
  C5: A value the server sends for a monitored, active item comes to every accessor attached to it: the
  callback pushes it to the accessor's queue, taking it from the queue makes it the accessor's data, and the
  read that follows fills the user buffer with the converted words from the accessor's offset on and
  takes the version number of the value's source time stamp.
\<close>

theorem received_value_arrives:
  assumes "converts_within nconv" and "system_reachable nconv new_version c S" and "live S a = Some obj"
    and "map_of (subscriptionMap (device S)) i = Some p" and "map_of (items (device S)) p = Some item"
    and "item_active item" and "a \<in> set (item_accessors item)"
    and "hasValue d" and "unat (offsetWords obj) + unat (numberOfWords obj) \<le> length (dv_value d)"
    and "length (dv_value d) < 2 ^ 64"
    and "\<forall>j < unat (numberOfWords obj). toCTK nconv (ctkType obj) (uaType obj)
           (dv_value d ! (unat (offsetWords obj) + j)) = Some (Inr (x j))"
    and "getVersion new_version (sourceTimestamp d) (versions S) = Some (v, vm)"
  shows "\<exists>t u. client_callback (Data_changed i d) (device S) = Done t \<and>
    last (notifications (accessors t a)) = Pushed d \<and> take_notification a d t = Done u \<and>
    doPostRead nconv new_version True (acc_data (accessors u a)) (obj, versions S) =
      Done (obj\<lparr>buffer := map x [0 ..< unat (numberOfWords obj)], faulty := False, currentVersion := Some v\<rparr>, vm)"
proof -
  have inv: "system_inv S" by (rule system_reachable_inv [OF assms(1,2)])
  then have "wf_manager (device S)" by (simp add: system_inv_def backend_inv_def)
  from responseHandler_delivers_result [OF this, of i d] assms(4-6) obtain t
    where t: "responseHandler i d (device S) = Done t"
    and n: "\<forall>b. accessors t b = (accessors (device S) b)\<lparr>notifications := notifications (accessors (device S) b) @
      replicate (count_list (item_accessors item) b) (Pushed d)\<rparr>"
    by auto
  have "count_list (item_accessors item) a \<noteq> 0" using assms(7) by (simp add: count_list_0_iff)
  then have "last (notifications (accessors t a)) = Pushed d" by (simp add: n)
  moreover have "take_notification a d t = Done (set_data a d t)"
    using assms(8) by (simp add: take_notification_def)
  moreover have "length (buffer obj) = unat (numberOfWords obj)"
    using live_ok(4) [OF inv assms(3)] by (simp add: object_ok_def)
  from doPostRead_transfers_result [OF assms(8-10) this assms(11,12)]
  have "doPostRead nconv new_version True (acc_data (accessors (set_data a d t) a)) (obj, versions S) =
      Done (obj\<lparr>buffer := map x [0 ..< unat (numberOfWords obj)], faulty := False, currentVersion := Some v\<rparr>, vm)"
    by simp
  ultimately show ?thesis using t by (intro exI [of _ t] exI [of _ "set_data a d t"]) simp
qed

text \<open>A device that was opened and activated after its accessor had been made.\<close>

lemma system_trace:
  assumes "trace es (device S) = Some t" and "list_all of_device es" and "system_reachable nconv new_version c S"
  shows "system_reachable nconv new_version c (S\<lparr>device := t\<rparr>)"
  using assms
proof (induction es arbitrary: S)
  case (Cons e es)
  from Cons.prems(1) obtain u where "enabled e (device S)" "ends (perform e (device S)) u" "trace es u = Some t"
    by (auto split: if_splits result.splits)
  moreover from this Cons.prems have "system_reachable nconv new_version c (S\<lparr>device := u\<rparr>)"
    by (auto intro: system_reachable.step system_step.event)
  ultimately show ?case using Cons.IH [of "S\<lparr>device := u\<rparr>"] Cons.prems by simp
next
  case Nil
  then show ?case by (cases S) simp
qed

lemma wide_activated:
  "\<exists>t u item. getRegisterAccessor_impl id blank_attach False True 0 (CTK_Number (Integer True 32)) [wide_register]
     ''x'' 3 1 blank_backend = Done (t, Some three_words) \<and>
     trace [Open good_open, Activate_async True False good_create good_monitor] t = Some u \<and>
     map_of (subscriptionMap u) 1 = Some 0 \<and> map_of (items u) 0 = Some item \<and> item_active item \<and>
     item_accessors item = [0]"
  using quiet_good_open valid_good_create
  by (simp add: getRegisterAccessor_impl_def wide_register_def info_with_id_def info_without_id_def
      default_info_def ua_type_of_def construct_accessor_def three_words_def backend_eval good_open_def
      good_create_def good_monitor_def quiet_reset_answer_def blank_backend_def blank_connection_def)

definition four_values :: "variant data_value" where
  "four_values = \<lparr>hasValue = True, dv_value = map UA_number [1, 2, 3, 4], dv_status = 0,
     sourceTimestamp = UA_DATETIME_UNIX_EPOCH\<rparr>"

theorem received_value_arrives_witness:
  "\<exists>(u :: variant backend) vm. doPostRead reference_converter (\<lambda>tp n. n) True (acc_data (accessors u 0)) (three_words, empty_mapper) =
     Done (three_words\<lparr>buffer := map CTK_number [2, 3, 4], faulty := False, currentVersion := Some 0\<rparr>, vm)"
proof -
  let ?S = "\<lparr>device = blank_backend, live = Map.empty, versions = empty_mapper\<rparr> :: nat system"
  obtain t u item where
    t: "getRegisterAccessor_impl id blank_attach False True 0 (CTK_Number (Integer True 32)) [wide_register]
      ''x'' 3 1 (device ?S) = Done (t, Some three_words)"
    and u: "trace [Open good_open, Activate_async True False good_create good_monitor] t = Some u"
    and item: "map_of (subscriptionMap u) 1 = Some 0" "map_of (items u) 0 = Some item" "item_active item"
      "item_accessors item = [0]"
    using wide_activated by auto
  have "system_reachable reference_converter (\<lambda>tp n. n) [wide_register] ?S"
    by (rule system_reachable.start) (simp_all add: initial_blank)
  moreover have "system_step reference_converter (\<lambda>tp n. n) [wide_register] ?S (system_with t three_words)"
    using system_step.created [OF _ _ valid_blank_response t] by simp
  ultimately have "system_reachable reference_converter (\<lambda>tp n. n) [wide_register] (system_with t three_words)"
    by (blast intro: system_reachable.step)
  then have S: "system_reachable reference_converter (\<lambda>tp n. n) [wide_register] (system_with u three_words)"
    using system_trace [of "[Open good_open, Activate_async True False good_create good_monitor]"
      "system_with t three_words" u] u by simp
  obtain vm where vm: "getVersion (\<lambda>tp n. n) (sourceTimestamp four_values) empty_mapper = Some (0, vm)"
    by (simp add: getVersion_def empty_mapper_def four_values_def convertToTimePoint_def int64_def Let_def)
  have n: "unat (numberOfWords three_words) = 3" "unat (offsetWords three_words) = 1"
    by (simp_all add: three_words_def new_accessor_def)
  have words: "\<forall>j < unat (numberOfWords three_words). toCTK reference_converter (ctkType three_words)
      (uaType three_words) (dv_value four_values ! (unat (offsetWords three_words) + j)) =
      Some (Inr (CTK_number (rat_of_nat j + 2)))"
    unfolding n by (auto simp: less_Suc_eq numeral_3_eq_3 numeral_2_eq_2 three_words_def new_accessor_def
        four_values_def convert_number_def reference_converter_def Let_def)
  have words_read: "map (\<lambda>j. CTK_number (rat_of_nat j + 2)) [0 ..< unat (numberOfWords three_words)] = map CTK_number [2, 3, 4]"
    unfolding n by (simp add: upt_rec)
  have facts: "live (system_with u three_words) 0 = Some three_words"
    "map_of (subscriptionMap (device (system_with u three_words))) 1 = Some 0"
    "map_of (items (device (system_with u three_words))) 0 = Some item" "item_active item"
    "0 \<in> set (item_accessors item)" "hasValue four_values"
    "unat (offsetWords three_words) + unat (numberOfWords three_words) \<le> length (dv_value four_values)"
    "length (dv_value four_values) < 2 ^ 64"
    by (simp_all add: item n four_values_def)
  have vm': "getVersion (\<lambda>tp n. n) (sourceTimestamp four_values) (versions (system_with u three_words)) = Some (0, vm)"
    using vm by simp
  from received_value_arrives [OF reference_converter_within S facts words vm']
  show ?thesis unfolding words_read by (elim exE conjE) (intro exI, simp)
qed

section \<open>From the application to the server and back\<close>

text \<open>The numbers a numeric type holds; of a floating type this is the parameter \<open>floats\<close>. A conversion to a floating type
  keeps a number that type holds: documented behaviour of \<open>boost::numeric::converter\<close>.\<close>

fun holds :: "(rat \<Rightarrow> rat \<Rightarrow> rat \<Rightarrow> bool) \<Rightarrow> num_type \<Rightarrow> rat \<Rightarrow> bool" where
  "holds floats (Integer sign bits) x \<longleftrightarrow>
     of_int \<lfloor>x\<rfloor> = x \<and> x \<in> {min_of (Integer sign bits) .. max_of (Integer sign bits)}"
| "holds floats (Floating hi lo) x \<longleftrightarrow> floats hi lo x"

definition keeps_floats :: "(num_type \<Rightarrow> num_type \<Rightarrow> rat \<Rightarrow> conversion) \<Rightarrow> (rat \<Rightarrow> rat \<Rightarrow> rat \<Rightarrow> bool) \<Rightarrow> bool" where
  "keeps_floats nconv floats \<longleftrightarrow>
     (\<forall>hi lo src x. floats hi lo x \<longrightarrow> nconv (Floating hi lo) src x = Converted x)"

lemma convert_held:
  assumes "rounds_and_checks nconv" and "keeps_floats nconv floats" and "holds floats t x"
  shows "convert_number nconv t src x = x"
proof (cases t)
  case (Integer sign bits)
  with assms(3) show ?thesis
    by (simp add: convert_number_exact [OF assms(1)] del: max_of.simps min_of.simps)
next
  case (Floating hi lo)
  with assms(2,3) show ?thesis by (simp add: keeps_floats_def convert_number_def)
qed

text \<open>The values of the user type that the type of the node carries without loss: a number both types hold, a text
  without NUL characters on a string node, a truth value on a boolean or numeric node, the numbers 0 and 1 on a boolean
  node, and nothing.\<close>

fun carried :: "(rat \<Rightarrow> rat \<Rightarrow> rat \<Rightarrow> bool) \<Rightarrow> ua_type \<Rightarrow> ctk_type \<Rightarrow> ctk_value \<Rightarrow> bool" where
  "carried floats (UA_Number u) (CTK_Number c) (CTK_number x) \<longleftrightarrow> holds floats u x \<and> holds floats c x"
| "carried floats UA_Boolean (CTK_Number c) (CTK_number x) \<longleftrightarrow> (x = 0 \<or> x = 1) \<and> holds floats c x"
| "carried floats UA_String CTK_String (CTK_text t) \<longleftrightarrow> CHR 0x00 \<notin> set t"
| "carried floats UA_Boolean CTK_Boolean (CTK_truth b) \<longleftrightarrow> True"
| "carried floats (UA_Number u) CTK_Boolean (CTK_truth b) \<longleftrightarrow> True"
| "carried floats u CTK_Void CTK_nothing \<longleftrightarrow> True"
| "carried floats _ _ _ \<longleftrightarrow> False"

lemma convert_truth:
  assumes "rounds_and_checks nconv"
  shows "convert_number nconv bool_type src 0 = 0" "convert_number nconv bool_type src 1 = 1"
  unfolding bool_type_def by (rule convert_number_exact [OF assms]; simp)+

lemma carried_roundtrip:
  assumes conv: "rounds_and_checks nconv" and floats: "keeps_floats nconv floats" and c: "carried floats u k x"
  shows "\<exists>y. toOpcUA nconv u k x = Inr y \<and> toCTK nconv k u y = Some (Inr x)"
  using c
proof (cases "(floats, u, k, x)" rule: carried.cases)
  case (1 floats u c x)
  with assms show ?thesis by (simp add: convert_held [OF conv floats])
next
  case (2 floats c x)
  with assms show ?thesis
    by (auto simp: convert_held [OF conv floats] convert_truth [OF conv] truth_number_def)
next
  case (3 floats t)
  with c show ?thesis by (simp add: from_chars_id)
next
  case (6 floats u)
  then show ?thesis by (cases u) (simp_all add: from_chars_def)
qed (use c in \<open>simp_all add: convert_truth [OF conv] truth_number_def\<close>)

text \<open>A read whose answer holds words that convert to \<open>z\<close> fills the user buffer with \<open>z\<close>.\<close>

lemma answer_fills_buffer:
  assumes "passed cs s t" and "has_manager s \<or> quiet (tr_callbacks answer)"
    and "tr_status answer = UA_STATUSCODE_GOOD" and "reg_indexRange (info obj) = []"
    and prep: "prepare_value (acc_data (accessors t (acc_id obj))) = init_value"
    and "unat (offsetWords obj) + unat (numberOfWords obj) \<le> length (tr_value answer)"
    and "length (tr_value answer) < 2 ^ 64" and "length (buffer obj) = unat (numberOfWords obj)"
    and "\<forall>j < unat (numberOfWords obj).
      toCTK nconv (ctkType obj) (uaType obj) (tr_value answer ! (unat (offsetWords obj) + j)) = Some (Inr (z j))"
    and "getVersion new_version now vs = Some (vn, vm)"
  shows "\<exists>u. doReadTransferSynchronously copy_range now None answer obj t = Done u \<and>
    doPostRead nconv new_version True (acc_data (accessors u (acc_id obj))) (obj, vs) =
      Done (obj\<lparr>buffer := map z [0 ..< unat (numberOfWords obj)], faulty := False, currentVersion := Some vn\<rparr>, vm)"
proof -
  let ?c = "init_value\<lparr>dv_value := tr_value answer, hasValue := True, sourceTimestamp := now\<rparr>"
  have c: "copyVariant copy_range now (tr_value answer) (reg_indexRange (info obj)) (acc_data (accessors t (acc_id obj))) = ?c"
    using assms(4) prep by (simp add: copyVariant_def init_value_def)
  from read_passes [OF assms(1-3), of copy_range now obj] obtain u
    where "doReadTransferSynchronously copy_range now None answer obj t = Done u"
    and "acc_data (accessors u (acc_id obj)) = ?c" unfolding c .
  then show ?thesis
    using doPostRead_transfers_result [of ?c obj nconv z new_version vs vn vm] assms(6-10)
    by (intro exI [of _ u]) (simp add: init_value_def)
qed

text \<open>
  C29: What an accessor writes is what it reads: if its register has no index range, the server answers the calls of a
  write well and the next read with the value it was sent, and every entry of the user buffer is one the
  node's type carries, then the read leaves the user buffer as it was before the write and its data valid.
  This holds for every live accessor, whether it covers its register or part of it and has data or not, and whatever
  callbacks run in the calls.
\<close>

theorem written_value_reads_back:
  fixes S :: "'n system"
  assumes "converts_within nconv" and "rounds_and_checks nconv" and "keeps_floats nconv floats"
    and "system_reachable nconv new_version c S" and "live S a = Some obj" and "reg_indexRange (info obj) = []"
    and "has_manager (device S) \<or> quiet (tr_callbacks reading @ tr_callbacks writing)"
    and "tr_status reading = UA_STATUSCODE_GOOD" and "tr_status writing = UA_STATUSCODE_GOOD"
    and "hasValue (acc_data (accessors (device S) a)) \<or> acc_data (accessors (device S) a) = init_value"
    and "v = (if isPartial obj \<or> \<not> hasValue (acc_data (accessors (device S) a)) then tr_value reading
              else dv_value (acc_data (accessors (device S) a)))"
    and "unat (offsetWords obj) + unat (numberOfWords obj) \<le> length v" and "length v < 2 ^ 64"
    and "list_all (carried floats (uaType obj) (ctkType obj)) (buffer obj)"
    and "getVersion new_version now (versions S) = Some (vn, vm)"
  shows "\<exists>t sent. doWriteTransfer nconv copy_range before None reading writing version (device S, obj) =
      Done (t, obj\<lparr>currentVersion := Some version\<rparr>) \<and>
    last (ua_calls t) = Write_value (reg_id (info obj)) sent \<and>
    (\<forall>answer. tr_status answer = UA_STATUSCODE_GOOD \<and> tr_value answer = sent \<and>
       (has_manager (device S) \<or> quiet (tr_callbacks answer)) \<longrightarrow>
       (\<exists>u. doReadTransferSynchronously copy_range now None answer (obj\<lparr>currentVersion := Some version\<rparr>) t = Done u \<and>
         doPostRead nconv new_version True (acc_data (accessors u a)) (obj\<lparr>currentVersion := Some version\<rparr>, versions S) =
           Done (obj\<lparr>faulty := False, currentVersion := Some vn\<rparr>, vm)))"
proof -
  let ?n = "unat (numberOfWords obj)" and ?o = "unat (offsetWords obj)"
  let ?d = "acc_data (accessors (device S) a)" and ?obj = "obj\<lparr>currentVersion := Some version\<rparr>"
  note ok = live_ok [OF system_reachable_inv [OF assms(1,4)] assms(5)]
  let ?s = "device S"
  have inv: "backend_inv ?s" and id: "acc_id obj = a" and n: "length (buffer obj) = ?n"
    using ok(1,3,4) by (simp_all add: object_ok_def)
  have "\<exists>y. toOpcUA nconv (uaType obj) (ctkType obj) (buffer obj ! j) = Inr y \<and>
      toCTK nconv (ctkType obj) (uaType obj) y = Some (Inr (buffer obj ! j))" if "j < ?n" for j
    using carried_roundtrip [OF assms(2,3)] assms(14) that n by (simp add: list_all_length)
  then obtain y where out: "\<forall>j < ?n. toOpcUA nconv (uaType obj) (ctkType obj) (buffer obj ! j) = Inr (y j)"
    and read_back: "\<forall>j < ?n. toCTK nconv (ctkType obj) (uaType obj) (y j) = Some (Inr (buffer obj ! j))"
    by metis
  let ?b = "write_base copy_range before (tr_value reading) obj ?d" and ?sent = "with_words obj y v"
  have prep: "prepare_value ?d = init_value" using assms(10) by (auto simp: prepare_value_def init_value_def)
  have b: "dv_value ?b = v" "hasValue ?b"
    using assms(6,11) prep by (auto simp: write_base_def copyVariant_def init_value_def)
  have fits: "?o + ?n \<le> length (dv_value ?b)" "length (dv_value ?b) < 2 ^ 64"
    using assms(12,13) unfolding b by simp_all
  have base: "?b = write_base copy_range before (tr_value reading) obj (acc_data (accessors ?s (acc_id obj)))"
    by (simp add: id)
  from write_data [where version = version, OF inv assms(7-9) base fits n out]
  obtain t where w: "doWriteTransfer nconv copy_range before None reading writing version (?s, obj) = Done (t, ?obj)"
    and t: "acc_data (accessors t a) = ?b\<lparr>dv_value := ?sent\<rparr>"
    and calls: "\<exists>cs. passed (cs @ [Write_value (reg_id (info obj)) ?sent]) ?s t"
    unfolding b id by metis
  have "length ?sent = length v" "?sent ! (?o + j) = y j" if "j < ?n" for j
    using assms(12) that by (simp_all add: with_words_def nth_append)
  then have sent: "length ?sent = length v" "\<And>j. j < ?n \<Longrightarrow> ?sent ! (?o + j) = y j"
    using assms(12) by (simp_all add: with_words_def)
  have "\<exists>u. doReadTransferSynchronously copy_range now None answer ?obj t = Done u \<and>
      doPostRead nconv new_version True (acc_data (accessors u a)) (?obj, versions S) =
        Done (obj\<lparr>faulty := False, currentVersion := Some vn\<rparr>, vm)"
    if answer: "tr_status answer = UA_STATUSCODE_GOOD" "tr_value answer = ?sent"
      "has_manager ?s \<or> quiet (tr_callbacks answer)" for answer
  proof -
    from calls obtain cs where "passed cs ?s t" by blast
    moreover have "prepare_value (acc_data (accessors t a)) = init_value" using b(2) by (simp add: t prepare_value_def)
    moreover have "map ((!) (buffer obj)) [0 ..< ?n] = buffer obj" using n map_nth [of "buffer obj"] by simp
    ultimately show ?thesis
      using answer_fills_buffer [where obj = ?obj and z = "(!) (buffer obj)", OF _ answer(3,1)]
        assms(6,12,13,15) n read_back sent by (simp add: answer(2) id)
  qed
  moreover have "last (ua_calls t) = Write_value (reg_id (info obj)) ?sent" using calls by (auto simp: passed_def)
  ultimately show ?thesis using w by (intro exI [of _ t] exI [of _ ?sent]) blast
qed

text \<open>An accessor for three of the four words of a register; the application has filled its user buffer.\<close>

lemma wide_attached:
  "\<exists>t. getRegisterAccessor_impl id blank_attach False True 0 (CTK_Number (Integer True 32)) [wide_register]
     ''x'' 3 1 blank_backend = Done (t, Some three_words) \<and> acc_data (accessors t 0) = init_value"
  by (simp add: getRegisterAccessor_impl_def wide_register_def info_with_id_def info_without_id_def
      default_info_def ua_type_of_def construct_accessor_def attach_def subscribe_def
      activateSubscriptionSupport_def new_manager_def blank_backend_def three_words_def Let_def)

theorem written_value_reads_back_witness:
  "\<exists>(u :: variant backend) vm. doPostRead reference_converter (\<lambda>tp n. n) True (acc_data (accessors u 0))
     (three_words\<lparr>buffer := filled_words, currentVersion := Some 3\<rparr>, empty_mapper) =
     Done (three_words\<lparr>buffer := filled_words, faulty := False, currentVersion := Some 0\<rparr>, vm)"
proof -
  let ?o = "three_words\<lparr>buffer := filled_words\<rparr>"
  let ?r = "good_transfer (map UA_number [5, 6, 7, 8])" and ?fl = "\<lambda>hi lo x. - hi \<le> x \<and> x \<le> (hi :: rat)"
  let ?S = "\<lparr>device = blank_backend, live = Map.empty, versions = empty_mapper\<rparr> :: nat system"
  obtain t where t: "getRegisterAccessor_impl id blank_attach False True 0 (CTK_Number (Integer True 32))
      [wide_register] ''x'' 3 1 (device ?S) = Done (t, Some three_words)" and data: "acc_data (accessors t 0) = init_value"
    using wide_attached by auto
  have "system_reachable reference_converter (\<lambda>tp n. n) [wide_register] ?S"
    by (rule system_reachable.start) (simp_all add: initial_blank)
  moreover have "system_step reference_converter (\<lambda>tp n. n) [wide_register] ?S (system_with t three_words)"
    using system_step.created [OF _ _ valid_blank_response t] by simp
  moreover have "system_step reference_converter (\<lambda>tp n. n) [wide_register] (system_with t three_words) (system_with t ?o)"
    using system_step.filled [of "system_with t three_words" 0 three_words filled_words]
    by (simp add: three_words_def new_accessor_def)
  ultimately have S: "system_reachable reference_converter (\<lambda>tp n. n) [wide_register] (system_with t ?o)"
    by (blast intro: system_reachable.step)
  obtain vm where vm: "getVersion (\<lambda>tp n. n) UA_DATETIME_UNIX_EPOCH empty_mapper = Some (0, vm)"
    by (simp add: getVersion_def empty_mapper_def convertToTimePoint_def int64_def Let_def)
  have vm': "getVersion (\<lambda>tp n. n) UA_DATETIME_UNIX_EPOCH (versions (system_with t ?o)) = Some (0, vm)"
    using vm by simp
  have fl: "keeps_floats reference_converter ?fl" by (simp add: keeps_floats_def reference_converter_def)
  have facts: "live (system_with t ?o) 0 = Some ?o" "reg_indexRange (info ?o) = []"
    "has_manager (device (system_with t ?o)) \<or> quiet (tr_callbacks ?r @ tr_callbacks (good_transfer []))"
    "tr_status ?r = UA_STATUSCODE_GOOD" "tr_status (good_transfer []) = UA_STATUSCODE_GOOD"
    "hasValue (acc_data (accessors (device (system_with t ?o)) 0)) \<or> acc_data (accessors (device (system_with t ?o)) 0) = init_value"
    "map UA_number [5, 6, 7, 8] = (if isPartial ?o \<or> \<not> hasValue (acc_data (accessors (device (system_with t ?o)) 0))
       then tr_value ?r else dv_value (acc_data (accessors (device (system_with t ?o)) 0)))"
    "unat (offsetWords ?o) + unat (numberOfWords ?o) \<le> length (map UA_number [5, 6, 7, 8])"
    "length (map UA_number [5, 6, 7, 8]) < 2 ^ 64"
    "list_all (carried ?fl (uaType ?o) (ctkType ?o)) (buffer ?o)"
    by (simp_all add: data init_value_def quiet_def good_transfer_def three_words_def new_accessor_def wide_register_def
        info_with_id_def info_without_id_def default_info_def)
  from written_value_reads_back [OF reference_converter_within reference_converter_rounds fl S facts vm',
      where copy_range = "\<lambda>v r. Inl 1" and version = 3]
  obtain u sent where reads: "\<forall>answer. tr_status answer = UA_STATUSCODE_GOOD \<and> tr_value answer = sent \<and>
       (has_manager (device (system_with t ?o)) \<or> quiet (tr_callbacks answer)) \<longrightarrow>
       (\<exists>w. doReadTransferSynchronously (\<lambda>v r. Inl 1) UA_DATETIME_UNIX_EPOCH None answer (?o\<lparr>currentVersion := Some 3\<rparr>) u = Done w \<and>
         doPostRead reference_converter (\<lambda>tp n. n) True (acc_data (accessors w 0)) (?o\<lparr>currentVersion := Some 3\<rparr>, versions (system_with t ?o)) =
           Done (?o\<lparr>faulty := False, currentVersion := Some 0\<rparr>, vm))" by blast
  from reads [rule_format, of "good_transfer sent"] show ?thesis by (auto simp: good_transfer_def quiet_def)
qed

end
