(* ===== verification/Managed_Types.thy ===== *)
theory Managed_Types
  imports Subscription_State
begin

text \<open>
  The owner of received values (\<^verbatim>\<open>src/ManagedTypes.cc\<close>): where a value lies, who frees its memory, and
  when. Memory blocks are numbers; a block is allocated from the copy that creates it until it
  is cleared, and has contents. Freeing or reading a block that is not allocated is undefined. An object of
  this theory implements a \<open>data_value\<close> of \<open>Subscription_State\<close>; the theory \<open>Value_Refinement\<close> shows that.
\<close>

section \<open>Objects and memory\<close>

type_synonym block = nat

record managed =
  md_data :: "block option"      \<comment> \<open>\<open>_val.value.data\<close>\<close>
  md_hasValue :: bool
  md_status :: u32
  md_time :: int                 \<comment> \<open>\<open>_val.sourceTimestamp\<close>\<close>
  clearData :: bool

record 'o store =
  blocks :: "block set"
  next_block :: block
  objects :: "nat \<rightharpoonup> 'o"

record 'v value_store = "managed store" +
  contents :: "block \<Rightarrow> 'v"

definition init_managed :: managed where
  "init_managed = \<lparr>md_data = None, md_hasValue = False, md_status = 0, md_time = 0, clearData = False\<rparr>"

definition put :: "nat \<Rightarrow> 'o \<Rightarrow> ('o, 'z) store_scheme \<Rightarrow> ('o, 'z) store_scheme" where
  "put x m s = s\<lparr>objects := (objects s)(x \<mapsto> m)\<rparr>"

definition alloc :: "('o, 'z) store_scheme \<Rightarrow> ('o, 'z) store_scheme" where
  "alloc s = s\<lparr>blocks := insert (next_block s) (blocks s), next_block := Suc (next_block s)\<rparr>"

text \<open>A new block with contents.\<close>

definition alloc_with :: "'v \<Rightarrow> 'v value_store \<Rightarrow> 'v value_store" where
  "alloc_with c s = (alloc s)\<lparr>contents := (contents s)(next_block s := c)\<rparr>"

text \<open>\<open>UA_DataValue_clear\<close> frees the data and sets every member to zero.\<close>

definition clear_value :: "nat \<Rightarrow> managed \<Rightarrow> 'v value_store \<Rightarrow> 'v value_store result" where
  "clear_value x m s =
     (let cleared = m\<lparr>md_data := None, md_hasValue := False, md_status := 0, md_time := 0\<rparr>
      in case md_data m of
           None \<Rightarrow> Done (put x cleared s)
         | Some b \<Rightarrow> if b \<in> blocks s then Done (put x cleared (s\<lparr>blocks := blocks s - {b}\<rparr>))
                     else Undefined)"

section \<open>The operations\<close>

text \<open>From what the library hands over. The data of a value is copied into a new block.\<close>

definition construct_from :: "'v data_value \<Rightarrow> nat \<Rightarrow> 'v value_store \<Rightarrow> 'v value_store result" where
  "construct_from d x s =
     (let m = \<lparr>md_data = None, md_hasValue = hasValue d, md_status = dv_status d,
                md_time = sourceTimestamp d, clearData = False\<rparr>
      in Done (if hasValue d then put x (m\<lparr>md_data := Some (next_block s)\<rparr>) (alloc_with (dv_value d) s)
               else put x m s))"

definition construct_copy :: "nat \<Rightarrow> nat \<Rightarrow> 'v value_store \<Rightarrow> 'v value_store result" where
  "construct_copy x y s =
     (case objects s y of
        None \<Rightarrow> Undefined
      | Some m \<Rightarrow>
          (case md_data m of
             None \<Rightarrow> Done (put x (m\<lparr>md_status := 0, clearData := False\<rparr>) s)
           | Some b \<Rightarrow>
               if b \<in> blocks s
               then Done (put x (m\<lparr>md_data := Some (next_block s), md_status := 0, clearData := False\<rparr>)
                      (alloc_with (contents s b) s))
               else Undefined))"

text \<open>The move constructor takes a constant reference: the source keeps everything.\<close>

definition construct_move :: "nat \<Rightarrow> nat \<Rightarrow> 'v value_store \<Rightarrow> 'v value_store result" where
  "construct_move x y s =
     (case objects s y of
        None \<Rightarrow> Undefined
      | Some m \<Rightarrow> Done (put x (m\<lparr>clearData := md_hasValue m\<rparr>) s))"

definition destroy_managed :: "nat \<Rightarrow> 'v value_store \<Rightarrow> 'v value_store result" where
  "destroy_managed x s =
     (case objects s x of
        None \<Rightarrow> Undefined
      | Some m \<Rightarrow>
          seq (if md_hasValue m \<and> clearData m then clear_value x m s else Done s)
            (\<lambda>s. Done (s\<lparr>objects := (objects s)(x := None)\<rparr>)))"

definition prepare_managed :: "nat \<Rightarrow> 'v value_store \<Rightarrow> 'v value_store result" where
  "prepare_managed x s =
     (case objects s x of
        None \<Rightarrow> Undefined
      | Some m \<Rightarrow> if md_hasValue m then clear_value x m s else Done s)"

definition move_assign :: "nat \<Rightarrow> nat \<Rightarrow> 'v value_store \<Rightarrow> 'v value_store result" where
  "move_assign x y s =
     seq (prepare_managed x s) (\<lambda>s.
     case (objects s x, objects s y) of
       (Some mx, Some my) \<Rightarrow>
         Done (put y ((if x = y then mx else my)\<lparr>clearData := False\<rparr>)
                (put x (my\<lparr>clearData := clearData mx \<or> md_hasValue my\<rparr>) s))
     | _ \<Rightarrow> Undefined)"

text \<open>\<open>copyVariant\<close>: \<open>copy_range\<close> is \<open>UA_Variant_copyRange\<close> with the parsed range, a status code other than
  good or the copied part; the copy of a whole variant is taken to succeed. The data a valueless object
  holds is overwritten, not freed.\<close>

definition copy_variant ::
    "('v \<Rightarrow> string \<Rightarrow> u32 + 'v) \<Rightarrow> int \<Rightarrow> 'v \<Rightarrow> string \<Rightarrow> nat \<Rightarrow> 'v value_store \<Rightarrow>
     'v value_store result" where
  "copy_variant copy_range now src dataRange x s =
     seq (prepare_managed x s) (\<lambda>s.
     case objects s x of
       None \<Rightarrow> Undefined
     | Some m \<Rightarrow>
         (let (m1, s1) =
                (if dataRange = [] then (m\<lparr>md_data := Some (next_block s)\<rparr>, alloc_with src s)
                 else case copy_range src dataRange of
                        Inl status \<Rightarrow> (m\<lparr>md_data := None, md_status := status\<rparr>, s)
                      | Inr v \<Rightarrow> (m\<lparr>md_data := Some (next_block s), md_status := UA_STATUSCODE_GOOD\<rparr>,
                                  alloc_with v s));
              m2 = (if md_status m1 = UA_STATUSCODE_GOOD then m1\<lparr>md_hasValue := True, md_time := now\<rparr>
                    else m1)
          in Done (put x (m2\<lparr>clearData := True\<rparr>) s1)))"

section \<open>A value is freed exactly once\<close>

text \<open>One update of an accessor's data: a temporary object is made from what the library hands over,
  moved into the accessor's data, and destroyed.\<close>

definition receive :: "nat \<Rightarrow> nat \<Rightarrow> 'v data_value \<Rightarrow> 'v value_store \<Rightarrow> 'v value_store result" where
  "receive x tmp d s =
     seq (construct_from d tmp s) (\<lambda>s.
     seq (move_assign x tmp s) (destroy_managed tmp))"

text \<open>The blocks other than those of \<open>rest\<close> are the one the object \<open>x\<close> owns.\<close>

definition owns :: "block set \<Rightarrow> nat \<Rightarrow> 'v value_store \<Rightarrow> bool" where
  "owns rest x s \<longleftrightarrow>
     (\<exists>m. objects s x = Some m \<and> (\<forall>b \<in> blocks s. b < next_block s) \<and>
        (case md_data m of
           None \<Rightarrow> \<not> md_hasValue m \<and> blocks s = rest
         | Some b \<Rightarrow> md_hasValue m \<and> clearData m \<and> b \<notin> rest \<and> blocks s = insert b rest))"

lemma receive_owns:
  assumes "x \<noteq> tmp" and "owns rest x s"
  shows "\<exists>t. receive x tmp v s = Done t \<and> owns rest x t \<and>
    (\<forall>y. y \<noteq> x \<longrightarrow> y \<noteq> tmp \<longrightarrow> objects t y = objects s y)"
proof -
  from assms(2) obtain m where m: "objects s x = Some m" "\<forall>b \<in> blocks s. b < next_block s"
    and own: "case md_data m of
        None \<Rightarrow> \<not> md_hasValue m \<and> blocks s = rest
      | Some b \<Rightarrow> md_hasValue m \<and> clearData m \<and> b \<notin> rest \<and> blocks s = insert b rest"
    unfolding owns_def by blast
  show ?thesis
  proof (cases "md_data m")
    case None
    with own m assms(1) show ?thesis
      by (cases "hasValue v") (auto simp: receive_def construct_from_def move_assign_def prepare_managed_def
          destroy_managed_def put_def alloc_def alloc_with_def owns_def Let_def)
  next
    case (Some b)
    with own m have b: "b \<in> blocks s" "b < next_block s" by auto
    with Some own m assms(1) show ?thesis
      by (cases "hasValue v") (auto simp: receive_def construct_from_def move_assign_def prepare_managed_def
          clear_value_def destroy_managed_def put_def alloc_def alloc_with_def owns_def Let_def)
  qed
qed

lemma receive_all_owns:
  assumes "x \<noteq> tmp"
  shows "owns rest x s \<Longrightarrow> \<exists>t. run_all (receive x tmp) vs s = Done t \<and> owns rest x t"
proof (induction vs arbitrary: s)
  case (Cons v vs)
  from receive_owns [OF assms Cons.prems, of v] obtain t where "receive x tmp v s = Done t" "owns rest x t"
    by blast
  with Cons.IH [of t] show ?case by simp
qed simp

text \<open>
  However many values, with and without data, are moved into an accessor one after the other through
  a temporary object, every block is freed exactly once: no step frees a block twice, and after the
  accessor's data is destroyed the blocks are those that were allocated before.
\<close>

theorem assignments_free_once:
  assumes "x \<noteq> tmp" and "objects s x = Some init_managed" and "\<forall>b \<in> blocks s. b < next_block s"
  shows "\<exists>t. seq (run_all (receive x tmp) vs s) (destroy_managed x) = Done t \<and> blocks t = blocks s"
proof -
  have "owns (blocks s) x s" using assms(2,3) by (simp add: owns_def init_managed_def)
  from receive_all_owns [OF assms(1) this, of vs] obtain t
    where t: "run_all (receive x tmp) vs s = Done t" and "owns (blocks s) x t" by blast
  then show ?thesis
    by (auto simp: owns_def destroy_managed_def clear_value_def put_def split: option.splits)
qed

definition one_object :: "nat value_store" where
  "one_object = \<lparr>blocks = {0}, next_block = 1, objects = [7 \<mapsto> init_managed], contents = (\<lambda>_. 0)\<rparr>"

definition sample_values :: "nat data_value list" where
  "sample_values = map (\<lambda>(h, v). \<lparr>hasValue = h, dv_value = v, dv_status = 0, sourceTimestamp = 3\<rparr>)
     [(True, 5), (False, 0), (True, 6), (True, 7)]"

theorem assignments_free_once_witness:
  "\<exists>t. seq (run_all (receive 7 8) sample_values one_object) (destroy_managed 7) = Done t \<and>
     blocks t = {0}"
  using assignments_free_once [of 7 8 one_object sample_values]
  by (simp add: one_object_def)

text \<open>
  An object that was moved from stays dangerous. If it is assigned to again, it frees the block that
  its former value's new owner still refers to, which is then freed twice; and an object that is
  made by the move constructor from an owner owns the block a second time.
\<close>

theorem moved_from_object_frees_again:
  assumes "distinct [x, y, z]" and "objects s x = Some init_managed" and "hasValue d"
  shows "(\<exists>t. seq (construct_from d y s) (\<lambda>s. seq (move_assign x y s) (\<lambda>s.
       seq (construct_from d z s) (move_assign y z))) = Done t \<and>
     md_hasValue (the (objects t x)) \<and> the (md_data (the (objects t x))) \<notin> blocks t \<and>
     destroy_managed x t = Undefined) \<and>
    (\<exists>t. seq (construct_from d y s) (\<lambda>s. seq (move_assign x y s) (construct_move z x)) = Done t \<and>
     seq (destroy_managed z t) (destroy_managed x) = Undefined)"
  using assms
  by (simp add: construct_from_def construct_move_def move_assign_def prepare_managed_def
      clear_value_def destroy_managed_def put_def alloc_def alloc_with_def init_managed_def)

theorem moved_from_object_frees_again_witness:
  "\<exists>t. seq (construct_from (hd sample_values) 8 one_object) (\<lambda>s. seq (move_assign 7 8 s) (construct_move 9 7)) = Done t \<and>
     seq (destroy_managed 9 t) (destroy_managed 7) = Undefined"
  using moved_from_object_frees_again [of 7 8 9 one_object "hd sample_values"]
  by (simp add: one_object_def sample_values_def)

end
