(* ===== verification/Map_Element.thy ===== *)
theory Map_Element
  imports Map_File Managed_Types Register_Info
begin

text \<open>
  The ownership of the node ids in map elements (\<^verbatim>\<open>src/MapFile.cc\<close>): a string node id owns the
  memory of its characters, which the five special members of \<open>MapElement\<close> copy, hand over and free. The
  memory is that of the theory \<open>Managed_Types\<close>; an element is a \<open>map_element\<close> with the block its
  node id owns. Copying a node id (\<open>UA_NodeId_copy\<close>) is taken to succeed, and a moved-from
  \<open>std::string\<close> to be empty.
\<close>

section \<open>Elements and memory\<close>

record element =
  el_value :: map_element
  el_block :: "block option"

text \<open>A string identifier lives in memory of its own, unless it is empty.\<close>

definition needs_block :: "node_id \<Rightarrow> bool" where
  "needs_block n \<longleftrightarrow> (case node_identifier n of Str i \<Rightarrow> i \<noteq> [] | _ \<Rightarrow> False)"

text \<open>\<open>UA_NodeId_copy\<close> into the object \<open>x\<close>, whose other members get the values of \<open>v\<close>.\<close>

definition place :: "nat \<Rightarrow> map_element \<Rightarrow> element store \<Rightarrow> element store" where
  "place x v s =
     (if needs_block (me_node v)
      then put x \<lparr>el_value = v, el_block = Some (next_block s)\<rparr> (alloc s)
      else put x \<lparr>el_value = v, el_block = None\<rparr> s)"

text \<open>\<open>UA_NodeId_clear\<close>.\<close>

definition clear_node :: "nat \<Rightarrow> element \<Rightarrow> element store \<Rightarrow> element store result" where
  "clear_node x m s =
     (let cleared = \<lparr>el_value = (el_value m)\<lparr>me_node := UA_NODEID_NULL\<rparr>, el_block = None\<rparr>
      in case el_block m of
           None \<Rightarrow> Done (put x cleared s)
         | Some b \<Rightarrow> if b \<in> blocks s then Done (put x cleared (s\<lparr>blocks := blocks s - {b}\<rparr>))
                     else Undefined)"

definition readable :: "element \<Rightarrow> element store \<Rightarrow> bool" where
  "readable m s \<longleftrightarrow> (case el_block m of None \<Rightarrow> True | Some b \<Rightarrow> b \<in> blocks s)"

text \<open>What a move leaves in its source: a null node id, empty strings, the numbers.\<close>

definition moved_from :: "element \<Rightarrow> element" where
  "moved_from m = \<lparr>el_value = (el_value m)\<lparr>me_node := UA_NODEID_NULL, strNode := [], me_range := [],
     me_name := []\<rparr>, el_block = None\<rparr>"

section \<open>The special members\<close>

definition construct_element :: "nat \<Rightarrow> map_element \<Rightarrow> element store \<Rightarrow> element store result" where
  "construct_element x v s = Done (place x v s)"

definition destroy_element :: "nat \<Rightarrow> element store \<Rightarrow> element store result" where
  "destroy_element x s =
     (case objects s x of
        None \<Rightarrow> Undefined
      | Some m \<Rightarrow> seq (clear_node x m s) (\<lambda>s. Done (s\<lparr>objects := (objects s)(x := None)\<rparr>)))"

definition copy_element :: "nat \<Rightarrow> nat \<Rightarrow> element store \<Rightarrow> element store result" where
  "copy_element x y s =
     (case objects s y of
        None \<Rightarrow> Undefined
      | Some m \<Rightarrow> if readable m s then Done (place x (el_value m) s) else Undefined)"

definition copy_assign_element :: "nat \<Rightarrow> nat \<Rightarrow> element store \<Rightarrow> element store result" where
  "copy_assign_element x y s =
     (if x = y then Done s
      else case objects s x of
             None \<Rightarrow> Undefined
           | Some m \<Rightarrow> seq (clear_node x m s) (copy_element x y))"

definition move_element :: "nat \<Rightarrow> nat \<Rightarrow> element store \<Rightarrow> element store result" where
  "move_element x y s =
     (case objects s y of
        None \<Rightarrow> Undefined
      | Some m \<Rightarrow> Done (put y (moved_from m) (put x m s)))"

definition move_assign_element :: "nat \<Rightarrow> nat \<Rightarrow> element store \<Rightarrow> element store result" where
  "move_assign_element x y s =
     (if x = y then Done s
      else case objects s x of
             None \<Rightarrow> Undefined
           | Some m \<Rightarrow> seq (clear_node x m s) (move_element x y))"

datatype element_op =
    Construct nat map_element
  | Copy nat nat
  | Copy_assign nat nat
  | Move nat nat
  | Move_assign nat nat
  | Destroy nat

fun apply_op :: "element_op \<Rightarrow> element store \<Rightarrow> element store result" where
  "apply_op (Construct x v) = construct_element x v"
| "apply_op (Copy x y) = copy_element x y"
| "apply_op (Copy_assign x y) = copy_assign_element x y"
| "apply_op (Move x y) = move_element x y"
| "apply_op (Move_assign x y) = move_assign_element x y"
| "apply_op (Destroy x) = destroy_element x"

text \<open>The rules of the language: objects are made where none is, and used while they live.\<close>

fun usable :: "element_op \<Rightarrow> element store \<Rightarrow> bool" where
  "usable (Construct x v) s \<longleftrightarrow> objects s x = None"
| "usable (Copy x y) s \<longleftrightarrow> objects s x = None \<and> objects s y \<noteq> None"
| "usable (Copy_assign x y) s \<longleftrightarrow> objects s x \<noteq> None \<and> objects s y \<noteq> None"
| "usable (Move x y) s \<longleftrightarrow> objects s x = None \<and> objects s y \<noteq> None"
| "usable (Move_assign x y) s \<longleftrightarrow> objects s x \<noteq> None \<and> objects s y \<noteq> None"
| "usable (Destroy x) s \<longleftrightarrow> objects s x \<noteq> None"

primrec usable_all :: "element_op list \<Rightarrow> element store \<Rightarrow> bool" where
  "usable_all [] s \<longleftrightarrow> True"
| "usable_all (op # ops) s \<longleftrightarrow> usable op s \<and>
     (case apply_op op s of Done t \<Rightarrow> usable_all ops t | _ \<Rightarrow> True)"

section \<open>One owner per block\<close>

text \<open>The block of each element, and the memory in which the blocks other than those of \<open>rest\<close> each
  have exactly one owner.\<close>

definition owned :: "element store \<Rightarrow> nat \<rightharpoonup> block" where
  "owned s x = (case objects s x of None \<Rightarrow> None | Some m \<Rightarrow> el_block m)"

definition one_owner :: "block set \<Rightarrow> block set \<Rightarrow> block \<Rightarrow> (nat \<rightharpoonup> block) \<Rightarrow> bool" where
  "one_owner rest bs n f \<longleftrightarrow>
     (\<forall>b. b \<in> bs \<longrightarrow> b < n) \<and> (\<forall>x y b. f x = Some b \<longrightarrow> f y = Some b \<longrightarrow> x = y) \<and>
     (\<forall>x b. f x = Some b \<longrightarrow> b \<notin> rest) \<and> (\<forall>b. b \<in> bs \<longleftrightarrow> b \<in> rest \<or> (\<exists>x. f x = Some b))"

lemma one_ownerD:
  assumes "one_owner rest bs n f"
  shows "b \<in> bs \<Longrightarrow> b < n" and "f x = Some b \<Longrightarrow> f y = Some b \<Longrightarrow> x = y" and "f x = Some b \<Longrightarrow> b \<notin> rest"
    and "b \<in> bs \<longleftrightarrow> b \<in> rest \<or> (\<exists>x. f x = Some b)"
  using assms by (simp_all add: one_owner_def)

lemma one_ownerI:
  assumes "\<And>b. b \<in> bs \<Longrightarrow> b < n" and "\<And>x y b. f x = Some b \<Longrightarrow> f y = Some b \<Longrightarrow> x = y"
    and "\<And>x b. f x = Some b \<Longrightarrow> b \<notin> rest" and "\<And>b. b \<in> bs \<longleftrightarrow> b \<in> rest \<or> (\<exists>x. f x = Some b)"
  shows "one_owner rest bs n f"
  using assms unfolding one_owner_def by (intro conjI allI impI)

lemma one_owner_free [ownership]:
  assumes own: "one_owner rest bs n f" and x: "f x = Some b"
  shows "b \<in> bs" and "one_owner rest (bs - {b}) n (f(x := None))"
proof -
  note D = one_ownerD [OF own]
  show "b \<in> bs" unfolding D(4) using x by blast
  have upd: "(f(x := None)) z = Some c \<longleftrightarrow> c \<noteq> b \<and> f z = Some c" for z c
    using D(2) [OF x, of z] x by (cases "z = x") auto
  show "one_owner rest (bs - {b}) n (f(x := None))"
  proof (rule one_ownerI, unfold upd)
    show "c \<in> bs - {b} \<longleftrightarrow> c \<in> rest \<or> (\<exists>z. c \<noteq> b \<and> f z = Some c)" for c
      using D(3) [OF x] D(4) [of c] by auto
  qed (use D(1-3) in blast)+
qed

lemma one_owner_new [ownership]:
  assumes own: "one_owner rest bs n f" and x: "f x = None"
  shows "one_owner rest (insert n bs) (Suc n) (f(x \<mapsto> n))"
proof -
  note D = one_ownerD [OF own]
  have "n \<notin> bs" using D(1) by blast
  then have new: "f y \<noteq> Some n" "n \<notin> rest" for y unfolding D(4) by blast+
  have upd: "(f(x \<mapsto> n)) z = Some c \<longleftrightarrow> z = x \<and> c = n \<or> f z = Some c" for z c
    using x by auto
  show ?thesis
  proof (rule one_ownerI, unfold upd)
    show "c \<in> insert n bs \<Longrightarrow> c < Suc n" for c using D(1) [of c] by auto
    show "c \<in> insert n bs \<longleftrightarrow> c \<in> rest \<or> (\<exists>z. z = x \<and> c = n \<or> f z = Some c)" for c
      using D(4) [of c] by auto
  qed (use D(2,3) new in blast)+
qed

lemma one_owner_moved [ownership]:
  assumes own: "one_owner rest bs n f" and x: "f x = None" and "x \<noteq> y"
  shows "one_owner rest bs n (f(x := f y, y := None))"
proof -
  have "(\<exists>z. (f(x := f y, y := None)) z = Some b) \<longleftrightarrow> (\<exists>z. f z = Some b)" for b
    using x \<open>x \<noteq> y\<close> by (auto split: if_splits) (metis option.distinct(1))
  then show ?thesis
    using own \<open>x \<noteq> y\<close> unfolding one_owner_def by (auto split: if_splits)
qed

text \<open>An element owns a block when its node id needs one.\<close>

definition sole_owners :: "block set \<Rightarrow> element store \<Rightarrow> bool" where
  "sole_owners rest s \<longleftrightarrow> one_owner rest (blocks s) (next_block s) (owned s) \<and>
     (\<forall>x m. objects s x = Some m \<longrightarrow> (el_block m = None \<longleftrightarrow> \<not> needs_block (me_node (el_value m))))"

lemma null_needs_no_block [simp]: "\<not> needs_block UA_NODEID_NULL"
  by (simp add: needs_block_def UA_NODEID_NULL_def)

lemma store_simps [simp]:
  "objects (put x m s) = (objects s)(x \<mapsto> m)" "blocks (put x m s) = blocks s"
  "next_block (put x m s) = next_block s"
  "objects (alloc s) = objects s" "blocks (alloc s) = insert (next_block s) (blocks s)"
  "next_block (alloc s) = Suc (next_block s)"
  "owned (put x m s) = (owned s)(x := el_block m)" "owned (alloc s) = owned s"
  "owned (s\<lparr>blocks := bs\<rparr>) = owned s"
  "owned (s\<lparr>objects := (objects s)(x := None)\<rparr>) = (owned s)(x := None)"
  by (auto simp: put_def alloc_def owned_def)

lemma place_owned [ownership]:
  assumes "sole_owners rest s" and "owned s x = None"
  shows "sole_owners rest (place x v s)"
  using assms one_owner_new [of rest "blocks s" "next_block s" "owned s" x]
  by (auto simp: sole_owners_def place_def fun_upd_idem)

lemma clear_owned [ownership]:
  assumes "sole_owners rest s" and "objects s x = Some m"
  shows "\<exists>t. clear_node x m s = Done t \<and> sole_owners rest t \<and> owned t x = None \<and>
    (\<exists>c. objects t = (objects s)(x \<mapsto> c))"
proof (cases "el_block m")
  case None
  then have "owned s x = None" using assms(2) by (simp add: owned_def)
  moreover from None have "clear_node x m s =
      Done (put x \<lparr>el_value = (el_value m)\<lparr>me_node := UA_NODEID_NULL\<rparr>, el_block = None\<rparr> s)"
    by (simp add: clear_node_def)
  ultimately show ?thesis
    using assms by (auto simp: sole_owners_def fun_upd_idem)
next
  case (Some b)
  then have "owned s x = Some b" using assms(2) by (simp add: owned_def)
  with assms(1) one_owner_free [where f = "owned s" and x = x and b = b] show ?thesis
    using Some
    by (auto simp: clear_node_def Let_def sole_owners_def)
qed

lemma destroy_owned [ownership]:
  assumes "sole_owners rest s" and "objects s x = Some m"
  shows "\<exists>t. destroy_element x s = Done t \<and> sole_owners rest t"
proof -
  from clear_owned [OF assms] obtain t where t: "clear_node x m s = Done t" "sole_owners rest t" "owned t x = None"
    by blast
  then have "sole_owners rest (t\<lparr>objects := (objects t)(x := None)\<rparr>)"
    by (simp add: sole_owners_def fun_upd_idem)
  with t(1) assms(2) show ?thesis by (simp add: destroy_element_def)
qed

lemma copy_owned [ownership]:
  assumes "sole_owners rest s" and "objects s y = Some m" and "owned s x = None"
  shows "copy_element x y s = Done (place x (el_value m) s)" and "sole_owners rest (place x (el_value m) s)"
proof -
  have "readable m s"
    using assms(1,2) one_owner_free(1) [of rest "blocks s" "next_block s" "owned s" y]
    by (auto simp: readable_def sole_owners_def owned_def split: option.split)
  with assms(2) show "copy_element x y s = Done (place x (el_value m) s)" by (simp add: copy_element_def)
  show "sole_owners rest (place x (el_value m) s)" using assms by (intro ownership)
qed

lemma move_owned [ownership]:
  assumes "sole_owners rest s" and "objects s y = Some m" and "owned s x = None" and "x \<noteq> y"
  shows "\<exists>t. move_element x y s = Done t \<and> sole_owners rest t"
proof -
  let ?t = "put y (moved_from m) (put x m s)"
  have "owned s y = el_block m" using assms(2) by (simp add: owned_def)
  with assms one_owner_moved [of rest "blocks s" "next_block s" "owned s" x y]
  have "one_owner rest (blocks ?t) (next_block ?t) (owned ?t)"
    by (simp add: sole_owners_def moved_from_def)
  then show ?thesis
    using assms(1,2) by (auto simp: move_element_def sole_owners_def moved_from_def)
qed

lemma unowned [simp]: "objects s x = None \<Longrightarrow> owned s x = None"
  by (simp add: owned_def)

lemma apply_op_owned [ownership]:
  assumes own: "sole_owners rest s" and ok: "usable op s"
  shows "\<exists>t. apply_op op s = Done t \<and> sole_owners rest t"
proof (cases op)
  case (Construct x v)
  with own ok show ?thesis by (auto simp: construct_element_def intro: ownership)
next
  case (Copy x y)
  with ok obtain m where "objects s y = Some m" "owned s x = None" by auto
  from copy_owned [OF own this] show ?thesis by (simp add: Copy)
next
  case (Copy_assign x y)
  with ok obtain m my where m: "objects s x = Some m" "objects s y = Some my" by auto
  from clear_owned [OF own m(1)] obtain t c where t: "clear_node x m s = Done t" "sole_owners rest t"
    "owned t x = None" "objects t = (objects s)(x \<mapsto> c)" by blast
  have "x \<noteq> y \<Longrightarrow> objects t y = Some my" using t(4) m(2) by simp
  with copy_owned [OF t(2) _ t(3)] own m(1) t(1) show ?thesis
    by (auto simp: Copy_assign copy_assign_element_def)
next
  case (Move x y)
  with ok obtain m where m: "objects s y = Some m" "owned s x = None" by auto
  moreover have "x \<noteq> y" using ok m(1) Move by auto
  ultimately show ?thesis using move_owned [OF own m] by (simp add: Move)
next
  case (Move_assign x y)
  with ok obtain m my where m: "objects s x = Some m" "objects s y = Some my" by auto
  from clear_owned [OF own m(1)] obtain t c where t: "clear_node x m s = Done t" "sole_owners rest t"
    "owned t x = None" "objects t = (objects s)(x \<mapsto> c)" by blast
  have "x \<noteq> y \<Longrightarrow> objects t y = Some my" using t(4) m(2) by simp
  with move_owned [OF t(2) _ t(3)] own m(1) t(1) show ?thesis
    by (auto simp: Move_assign move_assign_element_def)
next
  case (Destroy x)
  with ok destroy_owned [OF own] show ?thesis by auto
qed

lemma ops_owned:
  "sole_owners rest s \<Longrightarrow> usable_all ops s \<Longrightarrow> \<exists>t. run_all apply_op ops s = Done t \<and> sole_owners rest t"
proof (induction ops arbitrary: s)
  case (Cons op ops)
  from Cons.prems apply_op_owned [of rest s op] obtain t where "apply_op op s = Done t" "sole_owners rest t"
    by auto
  with Cons.IH [of t] Cons.prems show ?case by simp
qed simp

text \<open>
  C25: However map elements are constructed, copied, moved, assigned and destroyed, as long as only
  living elements are used no memory of a node id is freed twice or read after it was freed, no two
  elements ever share the memory of a node id, and when all elements are gone the memory is
  what it was before.
\<close>

theorem elements_freed_once:
  assumes "objects s = Map.empty" and "\<forall>b \<in> blocks s. b < next_block s" and "usable_all ops s"
  shows "\<exists>t. run_all apply_op ops s = Done t \<and>
    (\<forall>x y b. owned t x = Some b \<longrightarrow> owned t y = Some b \<longrightarrow> x = y \<and> b \<in> blocks t) \<and>
    (objects t = Map.empty \<longrightarrow> blocks t = blocks s)"
proof -
  have "sole_owners (blocks s) s"
    using assms(1,2) by (simp add: sole_owners_def one_owner_def)
  from ops_owned [OF this assms(3)] obtain t where t: "run_all apply_op ops s = Done t"
    and own: "one_owner (blocks s) (blocks t) (next_block t) (owned t)"
    by (auto simp: sole_owners_def)
  note D = one_ownerD [OF own]
  have "objects t = Map.empty \<longrightarrow> blocks t = blocks s" using D(4) by auto
  with t D(2,4) show ?thesis by blast
qed

definition sample_ops :: "element_op list" where
  "sample_ops = [Construct 1 (MapElement_string ''dir/x'' 2 [] []), Copy 2 1, Move 3 1, Copy_assign 1 3,
     Move_assign 2 1, Destroy 1, Destroy 2]"

definition empty_store :: "element store" where
  "empty_store = \<lparr>blocks = {0}, next_block = 1, objects = Map.empty\<rparr>"

theorem elements_freed_once_witness:
  "\<exists>t. run_all apply_op sample_ops empty_store = Done t \<and>
     (\<forall>x y b. owned t x = Some b \<longrightarrow> owned t y = Some b \<longrightarrow> x = y \<and> b \<in> blocks t)"
proof -
  have "usable_all sample_ops empty_store"
    by (simp add: sample_ops_def empty_store_def construct_element_def place_def MapElement_string_def
        c_str_def copy_element_def readable_def needs_block_def move_element_def moved_from_def
        copy_assign_element_def clear_node_def move_assign_element_def destroy_element_def put_def
        alloc_def UA_NODEID_NULL_def)
  with elements_freed_once [of empty_store sample_ops] show ?thesis
    by (auto simp: empty_store_def)
qed

end
