(* ===== verification/Data_Ownership.thy ===== *)
theory Data_Ownership
  imports Map_Element Converter
begin

text \<open>
  The memory of the values on their way through the backend: the temporary object of a callback or of
  \<open>subscribe\<close>, the entries of the notification queues, the data of the accessors, the variant a
  synchronous read fills (\<^verbatim>\<open>ManagedVariant\<close>) and the words a write overwrites. The objects are those of \<open>Managed_Types\<close>, the invariant is
  \<open>one_owner\<close> of \<open>Map_Element\<close>. A queue is taken to move-construct an entry for each value it gets and to destroy
  the entry when it has been taken or is overwritten; \<open>moved_from_object_frees_again\<close> shows what
  happens to an entry that is assigned to again.
\<close>

section \<open>The variant of a synchronous read\<close>

record managed_variant =
  mv_var :: block                \<comment> \<open>the memory of the \<open>UA_Variant\<close> itself\<close>
  mv_data :: "block option"

definition new_variant :: "'v value_store \<Rightarrow> managed_variant \<times> 'v value_store" where
  "new_variant s = (\<lparr>mv_var = next_block s, mv_data = None\<rparr>, alloc s)"

definition delete_variant :: "managed_variant \<Rightarrow> 'v value_store \<Rightarrow> 'v value_store result" where
  "delete_variant v s =
     (let bs = insert (mv_var v) (set_option (mv_data v))
      in if bs \<subseteq> blocks s then Done (s\<lparr>blocks := blocks s - bs\<rparr>) else Undefined)"

text \<open>What a synchronous read does with memory. \<open>Inl e\<close>: the library reports an error, without a value, and \<open>handleError\<close>
  throws \<open>e\<close>; the variant is deleted on the way out. \<open>Inr src\<close>: the library puts the value \<open>src\<close> into the
  variant, which is copied.\<close>

definition fetch_data ::
    "('v \<Rightarrow> string \<Rightarrow> u32 + 'v) \<Rightarrow> int \<Rightarrow> string \<Rightarrow> nat \<Rightarrow> exn + 'v \<Rightarrow> 'v value_store \<Rightarrow>
     'v value_store result" where
  "fetch_data copy_range now dataRange x answer s =
     (let (v, s1) = new_variant s
      in case answer of
           Inl e \<Rightarrow> seq (delete_variant v s1) (\<lambda>t. Throws e t)
         | Inr src \<Rightarrow>
             (let s2 = alloc_with src s1
              in seq (copy_variant copy_range now (contents s2 (next_block s1)) dataRange x s2)
                   (delete_variant (v\<lparr>mv_data := Some (next_block s1)\<rparr>))))"

text \<open>\<open>doWriteTransfer\<close> overwrites the word \<open>i\<close> of the array through the data pointer of the object \<open>x\<close>. What a word
  owns itself, the characters of a string, counts as part of the array.\<close>

definition store_word :: "nat \<Rightarrow> nat \<Rightarrow> 'w \<Rightarrow> 'w list value_store \<Rightarrow> 'w list value_store result" where
  "store_word x i w s =
     (case objects s x of
        None \<Rightarrow> Undefined
      | Some m \<Rightarrow>
          (case md_data m of
             None \<Rightarrow> Undefined
           | Some b \<Rightarrow>
               if b \<in> blocks s \<and> i < length (contents s b)
               then Done (s\<lparr>contents := (contents s)(b := (contents s b)[i := w])\<rparr>) else Undefined))"

section \<open>The queue of an accessor\<close>

text \<open>The loop body of \<open>responseHandler\<close>: a temporary object \<open>tmp\<close> is made and moved into the queue.\<close>

definition respond_data :: "nat \<Rightarrow> nat \<Rightarrow> 'v data_value \<Rightarrow> 'v value_store \<Rightarrow> 'v value_store result" where
  "respond_data tmp q d s =
     seq (construct_from d tmp s) (\<lambda>s.
     seq (construct_move q tmp s) (destroy_managed tmp))"

text \<open>The initial value of \<open>subscribe\<close>: from the data \<open>y\<close> of another accessor, or from the front \<open>y\<close> of its queue.\<close>

definition initial_data :: "nat \<Rightarrow> bool \<Rightarrow> nat \<Rightarrow> nat \<Rightarrow> 'v value_store \<Rightarrow> 'v value_store result" where
  "initial_data tmp queued q y s =
     (case objects s y of
        None \<Rightarrow> Undefined
      | Some m \<Rightarrow>
          if \<not> queued \<and> \<not> md_hasValue m then Done s
          else seq (construct_copy tmp y s) (\<lambda>s.
               seq (if md_hasValue m then construct_move q tmp s else Done s) (destroy_managed tmp)))"

text \<open>The function given to \<open>then\<close> on the front \<open>q\<close> of the queue, which is destroyed afterwards.\<close>

definition take_data :: "nat \<Rightarrow> nat \<Rightarrow> 'v value_store \<Rightarrow> 'v value_store result" where
  "take_data x q s =
     (case objects s q of
        None \<Rightarrow> Undefined
      | Some m \<Rightarrow>
          if \<not> md_hasValue m
          then seq (destroy_managed q s)
                 (\<lambda>s. Throws (Runtime_error ''No data in found in the data queue.'') s)
          else seq (move_assign x q s) (destroy_managed q))"

section \<open>Histories\<close>

datatype 'w data_op =
    Make_data nat                 \<comment> \<open>an accessor is made\<close>
  | Respond nat "'w list data_value"
  | Initial bool nat nat
  | Take nat nat
  | Overwrite nat                 \<comment> \<open>an entry is overwritten or goes with its queue\<close>
  | Fetch nat int "exn + 'w list" \<comment> \<open>a synchronous read, with the time\<close>
  | Store nat nat 'w              \<comment> \<open>a word is written\<close>
  | Delete_data nat               \<comment> \<open>an accessor is destroyed\<close>

text \<open>\<open>ranges x\<close> is the index range of the register of the accessor whose data is \<open>x\<close>, and \<open>None\<close> for the entries of
  queues.\<close>

fun apply_data ::
    "('w list \<Rightarrow> string \<Rightarrow> u32 + 'w list) \<Rightarrow> (nat \<rightharpoonup> string) \<Rightarrow> nat \<Rightarrow> 'w data_op \<Rightarrow> 'w list value_store \<Rightarrow>
     'w list value_store result" where
  "apply_data copy_range ranges tmp (Make_data x) s = Done (put x init_managed s)"
| "apply_data copy_range ranges tmp (Respond q d) s = respond_data tmp q d s"
| "apply_data copy_range ranges tmp (Initial queued q y) s = initial_data tmp queued q y s"
| "apply_data copy_range ranges tmp (Take x q) s = take_data x q s"
| "apply_data copy_range ranges tmp (Overwrite q) s = destroy_managed q s"
| "apply_data copy_range ranges tmp (Fetch x now answer) s =
     fetch_data copy_range now (the (ranges x)) x answer s"
| "apply_data copy_range ranges tmp (Store x i w) s = store_word x i w s"
| "apply_data copy_range ranges tmp (Delete_data x) s = destroy_managed x s"

text \<open>Objects are made where none is and used while they live; words are written to data that is there.\<close>

fun data_usable :: "(nat \<rightharpoonup> string) \<Rightarrow> nat \<Rightarrow> 'w data_op \<Rightarrow> 'w list value_store \<Rightarrow> bool" where
  "data_usable ranges tmp (Make_data x) s \<longleftrightarrow> objects s x = None \<and> x \<noteq> tmp"
| "data_usable ranges tmp (Respond q d) s \<longleftrightarrow> objects s q = None \<and> q \<noteq> tmp \<and> ranges q = None"
| "data_usable ranges tmp (Initial queued q y) s \<longleftrightarrow>
     objects s q = None \<and> q \<noteq> tmp \<and> ranges q = None \<and> objects s y \<noteq> None"
| "data_usable ranges tmp (Take x q) s \<longleftrightarrow> x \<noteq> q \<and> objects s x \<noteq> None \<and> objects s q \<noteq> None"
| "data_usable ranges tmp (Overwrite q) s \<longleftrightarrow> objects s q \<noteq> None"
| "data_usable ranges tmp (Fetch x now answer) s \<longleftrightarrow> objects s x \<noteq> None \<and> ranges x \<noteq> None"
| "data_usable ranges tmp (Store x i w) s \<longleftrightarrow>
     (case objects s x of
        None \<Rightarrow> False
      | Some m \<Rightarrow> md_hasValue m \<and> i < length (contents s (the (md_data m))))"
| "data_usable ranges tmp (Delete_data x) s \<longleftrightarrow> objects s x \<noteq> None"

text \<open>An exception leaves the operation, not the history.\<close>

primrec op_history :: "('op \<Rightarrow> 's \<Rightarrow> 's result) \<Rightarrow> 'op list \<Rightarrow> 's \<Rightarrow> 's result" where
  "op_history step [] s = Done s"
| "op_history step (op # ops) s =
     (case step op s of
        Done t \<Rightarrow> op_history step ops t
      | Throws e t \<Rightarrow> op_history step ops t
      | r \<Rightarrow> r)"

primrec all_data_usable ::
    "('w list \<Rightarrow> string \<Rightarrow> u32 + 'w list) \<Rightarrow> (nat \<rightharpoonup> string) \<Rightarrow> nat \<Rightarrow> 'w data_op list \<Rightarrow> 'w list value_store \<Rightarrow>
     bool" where
  "all_data_usable copy_range ranges tmp [] s \<longleftrightarrow> True"
| "all_data_usable copy_range ranges tmp (op # ops) s \<longleftrightarrow> data_usable ranges tmp op s \<and>
     (case apply_data copy_range ranges tmp op s of
        Done t \<Rightarrow> all_data_usable copy_range ranges tmp ops t
      | Throws e t \<Rightarrow> all_data_usable copy_range ranges tmp ops t
      | _ \<Rightarrow> True)"

text \<open>The library reports the failure of a copy with a status code other than good.\<close>

definition failure_reported :: "('v \<Rightarrow> string \<Rightarrow> u32 + 'v) \<Rightarrow> bool" where
  "failure_reported copy_range \<longleftrightarrow> (\<forall>v r status. copy_range v r = Inl status \<longrightarrow> status \<noteq> UA_STATUSCODE_GOOD)"

section \<open>One owner per block\<close>

definition data_owned :: "'v value_store \<Rightarrow> nat \<rightharpoonup> block" where
  "data_owned s x = (case objects s x of None \<Rightarrow> None | Some m \<Rightarrow> md_data m)"

definition sound_object :: "(nat \<rightharpoonup> string) \<Rightarrow> nat \<Rightarrow> managed \<Rightarrow> bool" where
  "sound_object ranges x m \<longleftrightarrow> (md_hasValue m \<longleftrightarrow> md_data m \<noteq> None) \<and> (md_hasValue m \<longrightarrow> clearData m) \<and>
     (ranges x = Some [] \<longrightarrow> \<not> md_hasValue m \<longrightarrow> md_status m = 0)"

definition data_inv :: "(nat \<rightharpoonup> string) \<Rightarrow> nat \<Rightarrow> block set \<Rightarrow> 'v value_store \<Rightarrow> bool" where
  "data_inv ranges tmp rest s \<longleftrightarrow> objects s tmp = None \<and>
     one_owner rest (blocks s) (next_block s) (data_owned s) \<and>
     (\<forall>x m. objects s x = Some m \<longrightarrow> sound_object ranges x m)"

lemma one_owner_later [ownership]:
  "one_owner rest bs n f \<Longrightarrow> n \<le> k \<Longrightarrow> one_owner rest bs k f"
  unfolding one_owner_def by (meson order.strict_trans2)

lemma data_store_simps [simp]:
  "objects (put x m s) = (objects s)(x \<mapsto> m)" "blocks (put x m s) = blocks s"
  "next_block (put x m s) = next_block s"
  "objects (alloc s) = objects s" "blocks (alloc s) = insert (next_block s) (blocks s)"
  "next_block (alloc s) = Suc (next_block s)"
  "contents (put x m s) = contents s" "contents (alloc s) = contents s"
  "objects (alloc_with c s) = objects s" "blocks (alloc_with c s) = insert (next_block s) (blocks s)"
  "next_block (alloc_with c s) = Suc (next_block s)" "contents (alloc_with c s) = (contents s)(next_block s := c)"
  "data_owned (alloc_with c s) = data_owned s"
  "data_owned (put x m s) = (data_owned s)(x := md_data m)" "data_owned (alloc s) = data_owned s"
  "data_owned (s\<lparr>blocks := bs\<rparr>) = data_owned s" "data_owned (s\<lparr>contents := cs\<rparr>) = data_owned s"
  "data_owned (s\<lparr>objects := (objects s)(x := None)\<rparr>) = (data_owned s)(x := None)"
  "objects s x = None \<Longrightarrow> data_owned s x = None" "objects s x = Some m \<Longrightarrow> data_owned s x = md_data m"
  for s :: "'v value_store"
  by (auto simp: put_def alloc_def alloc_with_def data_owned_def)

lemma data_invD:
  assumes "data_inv ranges tmp rest s" and "objects s x = Some m"
  shows "md_hasValue m \<longleftrightarrow> md_data m \<noteq> None" and "md_hasValue m \<Longrightarrow> clearData m"
    and "ranges x = Some [] \<Longrightarrow> \<not> md_hasValue m \<Longrightarrow> md_status m = 0" and "x \<noteq> tmp"
    and "md_data m = Some b \<Longrightarrow> b \<in> blocks s"
proof -
  show "md_data m = Some b \<Longrightarrow> b \<in> blocks s"
    using assms one_owner_free(1) [of rest "blocks s" "next_block s" "data_owned s" x b]
    by (simp add: data_inv_def)
qed (use assms in \<open>auto simp: data_inv_def sound_object_def\<close>)

text \<open>The changes all operations consist of: an object goes, with what it owns; an object gets a block of its own, or
  has none. The contents of blocks without an owner may change on the way.\<close>

abbreviation gone :: "nat \<Rightarrow> managed \<Rightarrow> 'v value_store \<Rightarrow> 'v value_store" where
  "gone x m s \<equiv> s\<lparr>objects := (objects s)(x := None), blocks := blocks s - set_option (md_data m)\<rparr>"

abbreviation filled :: "nat \<Rightarrow> managed \<Rightarrow> block \<Rightarrow> (block \<Rightarrow> 'v) \<Rightarrow> 'v value_store \<Rightarrow> 'v value_store" where
  "filled x m k c s \<equiv> s\<lparr>objects := (objects s)(x \<mapsto> m), blocks := insert k (blocks s), next_block := Suc k,
     contents := c\<rparr>"

abbreviation emptied :: "nat \<Rightarrow> managed \<Rightarrow> block \<Rightarrow> (block \<Rightarrow> 'v) \<Rightarrow> 'v value_store \<Rightarrow> 'v value_store" where
  "emptied x m k c s \<equiv> s\<lparr>objects := (objects s)(x \<mapsto> m), next_block := k, contents := c\<rparr>"

lemma data_gone [ownership]:
  assumes inv: "data_inv ranges tmp rest s" and x: "objects s x = Some m"
  shows "data_inv ranges tmp rest (gone x m s)"
proof (cases "md_data m")
  case None
  with inv x show ?thesis by (auto simp: data_inv_def fun_upd_idem)
next
  case (Some b)
  with inv x one_owner_free [of rest "blocks s" "next_block s" "data_owned s" x b] show ?thesis
    by (auto simp: data_inv_def)
qed

lemma data_filled [ownership]:
  assumes inv: "data_inv ranges tmp rest s" and x: "data_owned s x = None" "x \<noteq> tmp" and k: "next_block s \<le> k"
    and m: "md_data m = Some k" "md_hasValue m" "clearData m"
  shows "data_inv ranges tmp rest (filled x m k c s)"
proof -
  let ?t = "filled x m k c s"
  have "one_owner rest (blocks s) k (data_owned s)"
    using inv k by (auto simp: data_inv_def intro: ownership)
  from one_owner_new [OF this x(1)] have "one_owner rest (blocks ?t) (next_block ?t) (data_owned ?t)"
    by (simp add: data_owned_def [abs_def] m fun_upd_def if_distrib cong: if_cong)
  moreover have "sound_object ranges x m" using m by (simp add: sound_object_def)
  ultimately show ?thesis using inv x(2) by (auto simp: data_inv_def)
qed

lemma data_emptied [ownership]:
  assumes inv: "data_inv ranges tmp rest s" and x: "data_owned s x = None" "x \<noteq> tmp" and k: "next_block s \<le> k"
    and m: "md_data m = None" "\<not> md_hasValue m" "ranges x = Some [] \<longrightarrow> md_status m = 0"
  shows "data_inv ranges tmp rest (emptied x m k c s)"
proof -
  let ?t = "emptied x m k c s"
  have "one_owner rest (blocks s) k (data_owned s)"
    using inv k by (auto simp: data_inv_def intro: ownership)
  moreover have "data_owned ?t = data_owned s"
    using x(1) m(1) by (auto simp: data_owned_def fun_eq_iff)
  ultimately have "one_owner rest (blocks ?t) (next_block ?t) (data_owned ?t)" by simp
  moreover have "sound_object ranges x m" using m by (simp add: sound_object_def)
  ultimately show ?thesis using inv x(2) by (auto simp: data_inv_def)
qed

section \<open>Every operation keeps the owners\<close>

lemma destroyed_object:
  assumes "data_inv ranges tmp rest s" and "objects s x = Some m"
  shows "destroy_managed x s =
    Done (gone x m s)"
  using data_invD [OF assms] assms(2)
  by (cases "md_data m") (auto simp: destroy_managed_def clear_value_def put_def)

lemma prepared_object:
  assumes "data_inv ranges tmp rest s" and "objects s x = Some m"
  shows "prepare_managed x s =
    Done (s\<lparr>objects := (objects s)(x \<mapsto> m\<lparr>md_data := None, md_hasValue := False,
        md_status := (if md_hasValue m then 0 else md_status m),
        md_time := (if md_hasValue m then 0 else md_time m)\<rparr>),
      blocks := blocks s - set_option (md_data m)\<rparr>)"
proof (cases "md_data m")
  case None
  moreover from this data_invD(1) [OF assms] have has: "\<not> md_hasValue m" by simp
  ultimately have "m\<lparr>md_data := None, md_hasValue := False, md_status := md_status m, md_time := md_time m\<rparr> = m"
    by (cases m) simp
  then have "(objects s)(x \<mapsto> m\<lparr>md_data := None, md_hasValue := False, md_status := md_status m,
      md_time := md_time m\<rparr>) = objects s"
    using assms(2) by (simp add: fun_upd_idem)
  with None has assms(2) show ?thesis by (simp add: prepare_managed_def)
next
  case (Some b)
  with data_invD [OF assms] assms(2) show ?thesis
    by (simp add: prepare_managed_def clear_value_def put_def)
qed

abbreviation received :: "'v data_value \<Rightarrow> block option \<Rightarrow> managed" where
  "received d b \<equiv> \<lparr>md_data = b, md_hasValue = hasValue d, md_status = dv_status d, md_time = sourceTimestamp d,
     clearData = hasValue d\<rparr>"

lemma respond_data_result:
  assumes "objects s tmp = None" and "objects s q = None" and "q \<noteq> tmp"
  shows "respond_data tmp q d s = Done (
    if hasValue d
    then filled q (received d (Some (next_block s))) (next_block s) ((contents s)(next_block s := dv_value d)) s
    else emptied q (received d None) (next_block s) (contents s) s)"
proof -
  have "(objects s)(q \<mapsto> b, tmp := None) = (objects s)(q \<mapsto> b)" for b
    using assms(1,3) by auto
  with assms show ?thesis
    by (simp add: respond_data_def construct_from_def construct_move_def destroy_managed_def put_def alloc_def
        alloc_with_def)
qed

lemma initial_data_result:
  assumes inv: "data_inv ranges tmp rest s" and q: "objects s q = None" "q \<noteq> tmp" and y: "objects s y = Some m"
  shows "initial_data tmp queued q y s = Done (
    if md_hasValue m
    then filled q (m\<lparr>md_data := Some (next_block s), md_status := 0, clearData := True\<rparr>) (next_block s)
           ((contents s)(next_block s := contents s (the (md_data m)))) s
    else s)"
proof -
  note D = data_invD [OF inv y]
  from inv have "objects s tmp = None" by (simp add: data_inv_def)
  then have drop: "(objects s)(q \<mapsto> b, tmp := None) = (objects s)(q \<mapsto> b)" "(objects s)(tmp := None) = objects s" for b
    using q(2) by auto
  show ?thesis
  proof (cases "md_data m")
    case None
    with D(1) have "\<not> md_hasValue m" by simp
    with None y show ?thesis
      by (simp add: initial_data_def construct_copy_def destroy_managed_def put_def drop)
  next
    case (Some b)
    with D(1,5) have b: "md_hasValue m" "b \<in> blocks s" by simp_all
    with Some y q show ?thesis
      by (simp add: initial_data_def construct_copy_def construct_move_def destroy_managed_def put_def
          alloc_def alloc_with_def drop)
  qed
qed

abbreviation taken :: "nat \<Rightarrow> nat \<Rightarrow> managed \<Rightarrow> managed \<Rightarrow> 'v value_store \<Rightarrow> 'v value_store" where
  "taken x q mx m s \<equiv> s\<lparr>objects := (objects s)(x \<mapsto> m\<lparr>clearData := True\<rparr>, q := None),
     blocks := blocks s - set_option (md_data mx)\<rparr>"

lemma take_data_result:
  assumes inv: "data_inv ranges tmp rest s" and "x \<noteq> q" and x: "objects s x = Some mx" and q: "objects s q = Some m"
  shows "take_data x q s = (
    if md_hasValue m then Done (taken x q mx m s)
    else Throws (Runtime_error ''No data in found in the data queue.'') (gone q m s))"
proof (cases "md_hasValue m")
  case False
  then show ?thesis using q by (simp add: take_data_def destroyed_object [OF inv q])
next
  case True
  then show ?thesis
    using \<open>x \<noteq> q\<close> q
    by (simp add: take_data_def move_assign_def prepared_object [OF inv x] destroy_managed_def put_def fun_upd_twist)
qed

lemma data_taken [ownership]:
  assumes inv: "data_inv ranges tmp rest s" and "x \<noteq> q" and x: "objects s x = Some mx" and q: "objects s q = Some m"
    and m: "md_hasValue m"
  shows "data_inv ranges tmp rest (taken x q mx m s)"
proof -
  let ?t = "taken x q mx m s" and ?s1 = "gone x mx s"
  have inv1: "data_inv ranges tmp rest ?s1" by (rule data_gone [OF inv x])
  then have "one_owner rest (blocks ?s1) (next_block ?s1) (data_owned ?s1)" by (simp add: data_inv_def)
  from one_owner_moved [OF this, of x q] \<open>x \<noteq> q\<close>
  have "one_owner rest (blocks ?s1) (next_block ?s1) ((data_owned ?s1)(x := data_owned ?s1 q, q := None))"
    by (simp add: data_owned_def)
  moreover have "data_owned ?t = (data_owned ?s1)(x := data_owned ?s1 q, q := None)"
    using \<open>x \<noteq> q\<close> q by (auto simp: data_owned_def fun_eq_iff)
  moreover have "objects ?s1 q = Some m" "x \<noteq> tmp" using \<open>x \<noteq> q\<close> q data_invD(4) [OF inv x] by simp_all
  moreover have "sound_object ranges x (m\<lparr>clearData := True\<rparr>)"
    using m data_invD(1) [OF inv q] by (simp add: sound_object_def)
  ultimately show ?thesis using inv by (auto simp: data_inv_def)
qed

text \<open>A block nobody has got yet.\<close>

lemma data_alloc:
  assumes inv: "data_inv ranges tmp rest s"
  shows "data_inv ranges tmp (insert (next_block s) rest) (alloc s)"
    and "data_inv ranges tmp (insert (next_block s) rest) (alloc_with c s)"
proof -
  have D: "one_owner rest (blocks s) (next_block s) (data_owned s)" using inv by (simp add: data_inv_def)
  have "data_owned s x \<noteq> Some (next_block s)" for x
    using one_owner_free(1) [OF D, of x "next_block s"] one_ownerD(1) [OF D, of "next_block s"] by blast
  then have "one_owner (insert (next_block s) rest) (insert (next_block s) (blocks s)) (Suc (next_block s)) (data_owned s)"
    using one_ownerD(1-3) [OF D] one_ownerD(4) [OF D] by (intro one_ownerI) (auto simp: less_Suc_eq)
  with inv show "data_inv ranges tmp (insert (next_block s) rest) (alloc s)"
      "data_inv ranges tmp (insert (next_block s) rest) (alloc_with c s)"
    by (simp_all add: data_inv_def)
qed

text \<open>The copied part of a value that was read.\<close>

definition picked :: "('v \<Rightarrow> string \<Rightarrow> u32 + 'v) \<Rightarrow> string \<Rightarrow> 'v \<Rightarrow> u32 + 'v" where
  "picked copy_range dataRange src = (if dataRange = [] then Inr src else copy_range src dataRange)"

lemma copy_variant_result:
  assumes inv: "data_inv ranges tmp rest s" and x: "objects s x = Some m" "ranges x = Some dataRange"
    and copy: "failure_reported copy_range"
  shows "copy_variant copy_range now src dataRange x s = Done (case picked copy_range dataRange src of
      Inl status \<Rightarrow> emptied x \<lparr>md_data = None, md_hasValue = False, md_status = status,
        md_time = (if md_hasValue m then 0 else md_time m), clearData = True\<rparr> (next_block s) (contents s) (gone x m s)
    | Inr v \<Rightarrow> filled x \<lparr>md_data = Some (next_block s), md_hasValue = True, md_status = 0, md_time = now,
        clearData = True\<rparr> (next_block s) ((contents s)(next_block s := v)) (gone x m s))"
proof -
  note prepared = prepared_object [OF inv x(1)]
  have "md_status m = 0" if "dataRange = []" "\<not> md_hasValue m"
    using data_invD(3) [OF inv x(1)] x(2) that by simp
  with copy show ?thesis
    unfolding copy_variant_def prepared picked_def
    by (cases m) (auto simp: put_def alloc_def alloc_with_def failure_reported_def split: sum.split)
qed

lemma fetch_data_result:
  fixes s :: "'v value_store"
  assumes inv: "data_inv ranges tmp rest s" and x: "objects s x = Some m" "ranges x = Some dataRange"
    and copy: "failure_reported copy_range"
  defines "n \<equiv> next_block s"
  shows "fetch_data copy_range now dataRange x (Inl e) s = Throws e (s\<lparr>next_block := Suc n\<rparr>)"
    and "fetch_data copy_range now dataRange x (Inr src) s = Done (case picked copy_range dataRange src of
      Inl status \<Rightarrow> emptied x \<lparr>md_data = None, md_hasValue = False, md_status = status,
        md_time = (if md_hasValue m then 0 else md_time m), clearData = True\<rparr> (Suc (Suc n))
        ((contents s)(Suc n := src)) (gone x m s)
    | Inr v \<Rightarrow> filled x \<lparr>md_data = Some (Suc (Suc n)), md_hasValue = True, md_status = 0, md_time = now,
        clearData = True\<rparr> (Suc (Suc n)) ((contents s)(Suc n := src, Suc (Suc n) := v)) (gone x m s))"
proof -
  have new: "b \<in> blocks s \<Longrightarrow> b < n" for b using inv by (auto simp: data_inv_def one_owner_def n_def)
  then have fresh: "n \<notin> blocks s" "Suc n \<notin> blocks s" by (auto dest: new)
  then show "fetch_data copy_range now dataRange x (Inl e) s = Throws e (s\<lparr>next_block := Suc n\<rparr>)"
    by (simp add: fetch_data_def new_variant_def delete_variant_def alloc_def n_def)
  let ?old = "set_option (md_data m)"
  have old: "n \<notin> ?old" "Suc n \<notin> ?old" using data_invD(5) [OF inv x(1)] fresh by auto
  have blocks: "insert (Suc (Suc n)) (insert (Suc n) (insert n (blocks s)) - ?old) - {n, Suc n} =
      insert (Suc (Suc n)) (blocks s - ?old)"
    "insert (Suc n) (insert n (blocks s)) - ?old - {n, Suc n} = blocks s - ?old"
    using fresh by auto
  have there: "objects (alloc_with src (alloc s)) x = Some m" using x by simp
  have read: "fetch_data copy_range now dataRange x (Inr src) s =
      seq (copy_variant copy_range now src dataRange x (alloc_with src (alloc s)))
        (delete_variant \<lparr>mv_var = n, mv_data = Some (Suc n)\<rparr>)"
    by (simp add: fetch_data_def new_variant_def n_def)
  note copied = copy_variant_result [OF data_alloc(2) [OF data_alloc(1) [OF inv]] there x(2) copy]
  show "fetch_data copy_range now dataRange x (Inr src) s = Done (case picked copy_range dataRange src of
      Inl status \<Rightarrow> emptied x \<lparr>md_data = None, md_hasValue = False, md_status = status,
        md_time = (if md_hasValue m then 0 else md_time m), clearData = True\<rparr> (Suc (Suc n))
        ((contents s)(Suc n := src)) (gone x m s)
    | Inr v \<Rightarrow> filled x \<lparr>md_data = Some (Suc (Suc n)), md_hasValue = True, md_status = 0, md_time = now,
        clearData = True\<rparr> (Suc (Suc n)) ((contents s)(Suc n := src, Suc (Suc n) := v)) (gone x m s))"
    using old blocks unfolding read copied
    by (simp add: delete_variant_def alloc_def alloc_with_def n_def split: sum.split)
qed

lemma data_fetched:
  fixes s :: "'v value_store"
  assumes inv: "data_inv ranges tmp rest s" and x: "objects s x = Some m" "ranges x = Some dataRange"
    and copy: "failure_reported copy_range"
  shows "\<exists>t. (fetch_data copy_range now dataRange x answer s = Done t \<or>
      (\<exists>e. fetch_data copy_range now dataRange x answer s = Throws e t)) \<and> data_inv ranges tmp rest t"
proof (cases answer)
  case (Inl e)
  have "data_inv ranges tmp rest (s\<lparr>next_block := Suc (next_block s)\<rparr>)"
    using inv one_owner_later [of rest "blocks s" "next_block s" "data_owned s" "Suc (next_block s)"]
    by (auto simp: data_inv_def data_owned_def [abs_def])
  then show ?thesis by (auto simp: Inl fetch_data_result(1) [OF assms])
next
  case (Inr src)
  have inv1: "data_inv ranges tmp rest (gone x m s)" by (rule data_gone [OF inv x(1)])
  have free: "data_owned (gone x m s) x = None" "x \<noteq> tmp" using data_invD(4) [OF inv x(1)] by simp_all
  have "ranges x \<noteq> Some []" if "picked copy_range dataRange src = Inl status" for status
    using that x(2) by (auto simp: picked_def)
  then show ?thesis
    using data_emptied [OF inv1 free] data_filled [OF inv1 free]
    by (auto simp: Inr fetch_data_result(2) [OF assms] split: sum.split)
qed

lemma store_word_result:
  assumes "objects s x = Some m" and "md_data m = Some b" and "b \<in> blocks s" and "i < length (contents s b)"
  shows "store_word x i w s = Done (s\<lparr>contents := (contents s)(b := (contents s b)[i := w])\<rparr>)"
  using assms by (simp add: store_word_def)

lemma apply_data_inv:
  assumes inv: "data_inv ranges tmp rest s" and ok: "data_usable ranges tmp op s"
    and copy: "failure_reported copy_range"
  shows "\<exists>t. (apply_data copy_range ranges tmp op s = Done t \<or>
      (\<exists>e. apply_data copy_range ranges tmp op s = Throws e t)) \<and> data_inv ranges tmp rest t"
proof (cases op)
  case (Make_data x)
  with ok data_emptied [OF inv, of x "next_block s" init_managed "contents s"] show ?thesis
    by (simp add: init_managed_def put_def)
next
  case (Respond q d)
  with ok have q: "objects s q = None" "q \<noteq> tmp" "ranges q = None" by simp_all
  moreover have "objects s tmp = None" using inv by (simp add: data_inv_def)
  ultimately show ?thesis
    using data_filled [OF inv, of q "next_block s"] data_emptied [OF inv, of q "next_block s" _ "contents s"]
    by (simp add: Respond respond_data_result)
next
  case (Initial queued q y)
  with ok obtain m where "objects s y = Some m" "objects s q = None" "q \<noteq> tmp" by auto
  with data_filled [OF inv, of q "next_block s"] inv show ?thesis
    by (simp add: Initial initial_data_result [OF inv])
next
  case (Take x q)
  with ok obtain mx m where xq: "x \<noteq> q" "objects s x = Some mx" "objects s q = Some m" by auto
  from take_data_result [OF inv xq] data_taken [OF inv xq] data_gone [OF inv xq(3)] show ?thesis
    by (auto simp: Take)
next
  case (Fetch x now answer)
  with ok obtain m dataRange where x: "objects s x = Some m" "ranges x = Some dataRange" by auto
  from data_fetched [OF inv x copy, of now answer] show ?thesis by (simp add: Fetch x(2))
next
  case (Store x i w)
  with ok obtain m where x: "objects s x = Some m" "md_hasValue m" "i < length (contents s (the (md_data m)))"
    by (auto split: option.splits)
  then obtain b where b: "md_data m = Some b" "b \<in> blocks s" using data_invD [OF inv x(1)] by auto
  have "data_inv ranges tmp rest (s\<lparr>contents := c\<rparr>)" for c
    using inv by (simp add: data_inv_def)
  with x b show ?thesis by (simp add: Store store_word_result)
next
  case (Overwrite q)
  with ok obtain m where "objects s q = Some m" by auto
  with Overwrite destroyed_object [OF inv] data_gone [OF inv] show ?thesis by auto
next
  case (Delete_data x)
  with ok obtain m where "objects s x = Some m" by auto
  with Delete_data destroyed_object [OF inv] data_gone [OF inv] show ?thesis by auto
qed

lemma data_history_inv:
  assumes "failure_reported copy_range"
  shows "data_inv ranges tmp rest s \<Longrightarrow> all_data_usable copy_range ranges tmp ops s \<Longrightarrow>
   \<exists>t. op_history (apply_data copy_range ranges tmp) ops s = Done t \<and> data_inv ranges tmp rest t"
proof (induction ops arbitrary: s)
  case (Cons op ops)
  from Cons.prems(2) have "data_usable ranges tmp op s" by simp
  from apply_data_inv [OF Cons.prems(1) this assms] obtain t
    where t: "apply_data copy_range ranges tmp op s = Done t \<or> (\<exists>e. apply_data copy_range ranges tmp op s = Throws e t)"
      "data_inv ranges tmp rest t" by blast
  then have "all_data_usable copy_range ranges tmp ops t" using Cons.prems(2) by auto
  from Cons.IH [OF t(2) this] t(1) show ?case by auto
qed simp

section \<open>Property\<close>

text \<open>
  C23: However the values of monitored items are received, taken from the queues, overwritten and handed to new
  accessors as initial values, whatever synchronous reads return and accessors write in between, no memory is
  freed twice or read after it was freed, no two objects share a block, and when the
  accessors and their queues are gone all of it is free again, that of the reads included.
\<close>

theorem data_freed_once:
  assumes "objects s = Map.empty" and "\<forall>b \<in> blocks s. b < next_block s"
    and "all_data_usable copy_range ranges tmp ops s" and "failure_reported copy_range"
  shows "\<exists>t. op_history (apply_data copy_range ranges tmp) ops s = Done t \<and>
    (\<forall>x y b. data_owned t x = Some b \<longrightarrow> data_owned t y = Some b \<longrightarrow> x = y \<and> b \<in> blocks t) \<and>
    blocks s \<subseteq> blocks t \<and> (objects t = Map.empty \<longrightarrow> blocks t = blocks s)"
proof -
  have "data_inv ranges tmp (blocks s) s"
    using assms(1,2) by (simp add: data_inv_def one_owner_def data_owned_def)
  from data_history_inv [OF assms(4) this assms(3)] obtain t
    where t: "op_history (apply_data copy_range ranges tmp) ops s = Done t" and "data_inv ranges tmp (blocks s) t" by blast
  then have own: "one_owner (blocks s) (blocks t) (next_block t) (data_owned t)" by (simp add: data_inv_def)
  note D = one_ownerD [OF own]
  have "blocks t = blocks s" if "objects t = Map.empty"
    using D(4) that by (auto simp: data_owned_def)
  moreover have "blocks s \<subseteq> blocks t" using D(4) by blast
  moreover have "\<forall>x y b. data_owned t x = Some b \<longrightarrow> data_owned t y = Some b \<longrightarrow> x = y \<and> b \<in> blocks t"
    using D(2,4) by blast
  ultimately show ?thesis using t by (intro exI [of _ t]) simp
qed

text \<open>An accessor 1 with a value in its queue, which a second accessor 2 gets as its initial value; a word written
  by the first; a read that fails, one of a part and one that succeeds; and their end. The index range is that
  of the second word.\<close>

definition second_word :: "ua_value list \<Rightarrow> string \<Rightarrow> u32 + ua_value list" where
  "second_word v r = (if 1 < length v then Inr [v ! 1] else Inl 0x80360000)"

definition sample_history :: "ua_value data_op list" where
  "sample_history = [Make_data 1, Respond 5 \<lparr>hasValue = True, dv_value = [UA_number 4, UA_number 5], dv_status = 0, sourceTimestamp = 8\<rparr>,
     Make_data 2, Initial True 6 5, Take 1 5, Store 1 1 (UA_number 9),
     Respond 7 \<lparr>hasValue = False, dv_value = [], dv_status = 3, sourceTimestamp = 0\<rparr>, Take 1 7,
     Fetch 2 10 (Inl (Runtime_error [])), Fetch 2 11 (Inr [UA_number 6]), Fetch 2 12 (Inr [UA_number 6, UA_number 7]), Take 2 6]"

definition sample_ranges :: "nat \<rightharpoonup> string" where
  "sample_ranges = [1 \<mapsto> [], 2 \<mapsto> ''1'']"

definition no_data :: "ua_value list value_store" where
  "no_data = \<lparr>blocks = {0}, next_block = 1, objects = Map.empty, contents = (\<lambda>_. [])\<rparr>"

lemmas data_eval = sample_history_def no_data_def respond_data_def construct_from_def construct_move_def
  destroy_managed_def initial_data_def construct_copy_def take_data_def move_assign_def prepare_managed_def
  clear_value_def fetch_data_def new_variant_def delete_variant_def copy_variant_def init_managed_def
  store_word_def sample_ranges_def second_word_def

lemma second_word_reports: "failure_reported second_word"
  by (simp add: failure_reported_def second_word_def)

theorem data_freed_once_witness:
  "\<exists>t. op_history (apply_data second_word sample_ranges 9) (sample_history @ [Delete_data 1, Delete_data 2]) no_data = Done t \<and>
     blocks t = {0}"
proof -
  have "all_data_usable second_word sample_ranges 9 (sample_history @ [Delete_data 1, Delete_data 2]) no_data \<and>
      (\<exists>t. op_history (apply_data second_word sample_ranges 9) (sample_history @ [Delete_data 1, Delete_data 2]) no_data = Done t \<and>
        objects t = Map.empty)"
    by (simp add: data_eval)
  with data_freed_once [OF _ _ _ second_word_reports, where s = no_data and ranges = sample_ranges and tmp = 9
      and ops = "sample_history @ [Delete_data 1, Delete_data 2]"]
  show ?thesis by (auto simp: no_data_def)
qed

end
