(* ===== verification/Value_Refinement.thy ===== *)
theory Value_Refinement
  imports Data_Ownership Accessor
begin

text \<open>
  The objects of \<open>Managed_Types\<close>, with their pointers and blocks, implement the values the rest of the
  development speaks of: whatever happens to them, the object of an accessor or of a queue entry
  denotes the \<open>data_value\<close> that \<open>init_value\<close>, \<open>copied_value\<close> and \<open>copyVariant\<close> compute.
\<close>

section \<open>The operations on values\<close>

fun apply_value ::
    "(variant \<Rightarrow> string \<Rightarrow> u32 + variant) \<Rightarrow> (nat \<rightharpoonup> string) \<Rightarrow> ua_value data_op \<Rightarrow>
     (nat \<rightharpoonup> variant data_value) \<Rightarrow> (nat \<rightharpoonup> variant data_value) result" where
  "apply_value copy_range ranges (Make_data x) A = Done (A(x \<mapsto> init_value))"
| "apply_value copy_range ranges (Respond q d) A = Done (A(q \<mapsto> d))"
| "apply_value copy_range ranges (Initial queued q y) A =
     Done (if hasValue (the (A y)) then A(q \<mapsto> copied_value (the (A y))) else A)"
| "apply_value copy_range ranges (Take x q) A =
     (if hasValue (the (A q)) then Done (A(x := A q, q := None))
      else Throws (Runtime_error ''No data in found in the data queue.'') (A(q := None)))"
| "apply_value copy_range ranges (Overwrite q) A = Done (A(q := None))"
| "apply_value copy_range ranges (Fetch x now answer) A =
     (case answer of
        Inl e \<Rightarrow> Throws e A
      | Inr src \<Rightarrow> Done (A(x \<mapsto> copyVariant copy_range now src (the (ranges x)) (the (A x)))))"
| "apply_value copy_range ranges (Store x i w) A =
     Done (A(x \<mapsto> (the (A x))\<lparr>dv_value := (dv_value (the (A x)))[i := w]\<rparr>))"
| "apply_value copy_range ranges (Delete_data x) A = Done (A(x := None))"

section \<open>What an object denotes\<close>

definition denotes :: "(block \<Rightarrow> 'v) \<Rightarrow> managed \<Rightarrow> 'v data_value \<Rightarrow> bool" where
  "denotes c m d \<longleftrightarrow> md_hasValue m = hasValue d \<and> md_status m = dv_status d \<and> md_time m = sourceTimestamp d \<and>
     (hasValue d \<longrightarrow> c (the (md_data m)) = dv_value d)"

definition represents :: "'v value_store \<Rightarrow> (nat \<rightharpoonup> 'v data_value) \<Rightarrow> bool" where
  "represents s A \<longleftrightarrow> (\<forall>x. rel_option (denotes (contents s)) (objects s x) (A x))"

lemma representsD:
  assumes "represents s A" and "objects s x = Some m"
  obtains d where "A x = Some d" and "denotes (contents s) m d"
proof -
  from assms(1) have "rel_option (denotes (contents s)) (objects s x) (A x)" by (simp add: represents_def)
  with assms(2) that show thesis by (cases "A x") simp_all
qed

lemma represents_drop:
  assumes "represents s A" and "objects t = (objects s)(x := None)" and "contents t = contents s"
  shows "represents t (A(x := None))"
  using assms by (simp add: represents_def)

text \<open>A new value for the object \<open>x\<close>: the contents of the blocks the others own stay.\<close>

lemma represents_set:
  assumes s: "represents s A" and t: "objects t = (objects s)(x \<mapsto> m)" "denotes (contents t) m d"
    and c: "\<And>y n b. y \<noteq> x \<Longrightarrow> objects s y = Some n \<Longrightarrow> md_data n = Some b \<Longrightarrow> contents t b = contents s b"
    and own: "\<And>y n. objects s y = Some n \<Longrightarrow> md_hasValue n \<Longrightarrow> md_data n \<noteq> None"
  shows "represents t (A(x \<mapsto> d))"
  unfolding represents_def
proof
  fix y
  show "rel_option (denotes (contents t)) (objects t y) ((A(x \<mapsto> d)) y)"
  proof (cases "y = x")
    case False
    from s have "rel_option (denotes (contents s)) (objects s y) (A y)" by (simp add: represents_def)
    then have "rel_option (denotes (contents t)) (objects s y) (A y)"
    proof (cases "objects s y")
      case (Some n)
      with s obtain d' where d': "A y = Some d'" "denotes (contents s) n d'" by (rule representsD)
      have "contents t (the (md_data n)) = contents s (the (md_data n))" if "hasValue d'"
        using that d'(2) own [OF Some] c [OF False Some] by (auto simp: denotes_def)
      with d' show ?thesis by (simp add: Some denotes_def)
    qed simp
    with False show ?thesis by (simp add: t(1))
  qed (simp add: t)
qed

section \<open>Every operation\<close>

fun both_done :: "('s \<Rightarrow> 't \<Rightarrow> bool) \<Rightarrow> 's result \<Rightarrow> 't result \<Rightarrow> bool" where
  "both_done R (Done s) (Done t) \<longleftrightarrow> R s t"
| "both_done R (Throws e s) (Throws e' t) \<longleftrightarrow> e = e' \<and> R s t"
| "both_done R _ _ \<longleftrightarrow> False"

text \<open>The blocks others own are neither new nor those of the object \<open>x\<close>.\<close>

lemma data_inv_other:
  assumes inv: "data_inv ranges tmp rest s" and y: "objects s y = Some n" "md_data n = Some b"
  shows "b < next_block s" and "objects s x = Some m \<Longrightarrow> md_data m = Some b \<Longrightarrow> y = x"
proof -
  have own: "one_owner rest (blocks s) (next_block s) (data_owned s)" using inv by (simp add: data_inv_def)
  have yb: "data_owned s y = Some b" using y by simp
  show "b < next_block s" using one_ownerD(1) [OF own] one_owner_free(1) [OF own yb] by blast
  show "y = x" if "objects s x = Some m" "md_data m = Some b"
    using one_ownerD(2) [OF own yb, of x] that by simp
qed

lemma represents_new:
  assumes inv: "data_inv ranges tmp rest s" and s: "represents s A" and t: "objects t = (objects s)(x \<mapsto> m)"
    "\<And>b. b < next_block s \<Longrightarrow> contents t b = contents s b" "denotes (contents t) m d"
  shows "represents t (A(x \<mapsto> d))"
proof (rule represents_set [OF s t(1,3)])
  show "contents t b = contents s b" if "objects s y = Some n" "md_data n = Some b" for y n b
    using t(2) data_inv_other(1) [OF inv that] .
  show "md_data n \<noteq> None" if "objects s y = Some n" "md_hasValue n" for y n
    using data_invD(1) [OF inv that(1)] that(2) by simp
qed

lemma copyVariant_picked:
  assumes "failure_reported copy_range" and "dataRange = [] \<longrightarrow> \<not> hasValue d \<longrightarrow> dv_status d = 0"
  shows "copyVariant copy_range now src dataRange d =
    (case picked copy_range dataRange src of
       Inl status \<Rightarrow> (prepare_value d)\<lparr>dv_status := status\<rparr>
     | Inr v \<Rightarrow> \<lparr>hasValue = True, dv_value = v, dv_status = 0, sourceTimestamp = now\<rparr>)"
  using assms
  by (cases d) (auto simp: copyVariant_def picked_def prepare_value_def init_value_def failure_reported_def
      split: sum.split)

lemma fetch_refines:
  assumes inv: "data_inv ranges tmp rest s" and s: "represents s A"
    and x: "objects s x = Some m" "ranges x = Some dataRange" and copy: "failure_reported copy_range"
  shows "both_done represents (fetch_data copy_range now dataRange x answer s)
    (apply_value copy_range ranges (Fetch x now answer) A)"
proof (cases answer)
  case (Inl e)
  with s show ?thesis by (simp add: fetch_data_result(1) [OF inv x copy] represents_def)
next
  case (Inr src)
  from s x(1) obtain d where d: "A x = Some d" "denotes (contents s) m d" by (rule representsD)
  have "dataRange = [] \<longrightarrow> \<not> hasValue d \<longrightarrow> dv_status d = 0"
    using data_invD(3) [OF inv x(1)] x(2) d(2) by (auto simp: denotes_def)
  note copied = copyVariant_picked [OF copy this]
  show ?thesis
  proof (cases "picked copy_range dataRange src")
    case (Inl status)
    with d(2) show ?thesis
      by (auto simp: Inr fetch_data_result(2) [OF inv x copy] d(1) x(2) copied denotes_def prepare_value_def
          init_value_def intro!: represents_new [OF inv s])
  next
    case (Inr v)
    then show ?thesis
      by (auto simp: \<open>answer = Inr src\<close> fetch_data_result(2) [OF inv x copy] d(1) x(2) copied denotes_def
          intro!: represents_new [OF inv s])
  qed
qed

lemma apply_data_refines:
  assumes inv: "data_inv ranges tmp rest s" and s: "represents s A" and ok: "data_usable ranges tmp op s"
    and copy: "failure_reported copy_range"
  shows "both_done represents (apply_data copy_range ranges tmp op s) (apply_value copy_range ranges op A)"
proof (cases op)
  case (Make_data x)
  show ?thesis
    by (auto simp: Make_data denotes_def init_managed_def init_value_def intro!: represents_new [OF inv s])
next
  case (Respond q d)
  moreover have "objects s tmp = None" using inv by (simp add: data_inv_def)
  ultimately show ?thesis
    using ok by (auto simp: respond_data_result denotes_def intro!: represents_new [OF inv s])
next
  case (Initial queued q y)
  with ok obtain m where y: "objects s y = Some m" "objects s q = None" "q \<noteq> tmp" by auto
  from s y(1) obtain d where d: "A y = Some d" "denotes (contents s) m d" by (rule representsD)
  from y d s show ?thesis
    by (auto simp: Initial initial_data_result [OF inv] denotes_def copied_value_def
        intro!: represents_new [OF inv s])
next
  case (Take x q)
  with ok obtain mx m where xq: "x \<noteq> q" "objects s x = Some mx" "objects s q = Some m" by auto
  from s xq(3) obtain d where d: "A q = Some d" "denotes (contents s) m d" by (rule representsD)
  have "represents (taken x q mx m s) (A(x := A q, q := None))"
    unfolding represents_def
  proof
    fix y
    show "rel_option (denotes (contents (taken x q mx m s))) (objects (taken x q mx m s) y) ((A(x := A q, q := None)) y)"
      using d s by (auto simp: represents_def denotes_def)
  qed
  with d show ?thesis
    by (auto simp: Take take_data_result [OF inv xq] denotes_def intro!: represents_drop [OF s])
next
  case (Fetch x now answer)
  with ok obtain m dataRange where x: "objects s x = Some m" "ranges x = Some dataRange" by auto
  from fetch_refines [OF inv s x copy, of now answer] show ?thesis by (simp add: Fetch x(2))
next
  case (Store x i w)
  with ok obtain m where x: "objects s x = Some m" "md_hasValue m" "i < length (contents s (the (md_data m)))"
    by (auto split: option.splits)
  then obtain b where b: "md_data m = Some b" "b \<in> blocks s" using data_invD [OF inv x(1)] by auto
  from s x(1) obtain d where d: "A x = Some d" "denotes (contents s) m d" by (rule representsD)
  let ?t = "s\<lparr>contents := (contents s)(b := (contents s b)[i := w])\<rparr>"
  have "represents ?t (A(x \<mapsto> d\<lparr>dv_value := (dv_value d)[i := w]\<rparr>))"
  proof (rule represents_set [OF s])
    show "objects ?t = (objects s)(x \<mapsto> m)" using x(1) by (simp add: fun_upd_idem)
    show "denotes (contents ?t) m (d\<lparr>dv_value := (dv_value d)[i := w]\<rparr>)"
      using d(2) x(2) b(1) by (simp add: denotes_def)
    show "contents ?t b' = contents s b'" if "y \<noteq> x" "objects s y = Some n" "md_data n = Some b'" for y n b'
      using data_inv_other(2) [OF inv that(2,3) x(1)] b(1) that(1) by auto
    show "md_data n \<noteq> None" if "objects s y = Some n" "md_hasValue n" for y n
      using data_invD(1) [OF inv that(1)] that(2) by simp
  qed
  with x b d(1) show ?thesis by (simp add: Store store_word_result)
next
  case (Overwrite q)
  with ok obtain m where "objects s q = Some m" by auto
  then show ?thesis by (auto simp: Overwrite destroyed_object [OF inv] intro!: represents_drop [OF s])
next
  case (Delete_data x)
  with ok obtain m where "objects s x = Some m" by auto
  then show ?thesis by (auto simp: Delete_data destroyed_object [OF inv] intro!: represents_drop [OF s])
qed

lemma op_history_refines:
  assumes copy: "failure_reported copy_range"
  shows "data_inv ranges tmp rest s \<Longrightarrow> represents s A \<Longrightarrow> all_data_usable copy_range ranges tmp ops s \<Longrightarrow>
    \<exists>t B. op_history (apply_data copy_range ranges tmp) ops s = Done t \<and>
      op_history (apply_value copy_range ranges) ops A = Done B \<and> represents t B \<and> data_inv ranges tmp rest t"
proof (induction ops arbitrary: s A)
  case (Cons op ops)
  from Cons.prems(3) have op: "data_usable ranges tmp op s" by simp
  from apply_data_inv [OF Cons.prems(1) op copy] obtain t where inv: "data_inv ranges tmp rest t"
    and t: "apply_data copy_range ranges tmp op s = Done t \<or> (\<exists>e. apply_data copy_range ranges tmp op s = Throws e t)"
    by blast
  from t apply_data_refines [OF Cons.prems(1,2) op copy] obtain B where "represents t B"
    and B: "apply_value copy_range ranges op A = Done B \<or> (\<exists>e. apply_value copy_range ranges op A = Throws e B)"
    by (cases "apply_value copy_range ranges op A") auto
  moreover have "all_data_usable copy_range ranges tmp ops t" using Cons.prems(3) t by auto
  ultimately show ?case using Cons.IH [OF inv, of B] t B by auto
qed simp

section \<open>Property\<close>

text \<open>
  C24: The pointer operations of \<open>ManagedDataValue\<close> implement plain values. Whatever accessors and queues do with them,
  copies, moves, failed and partial reads and written words included, the object of every accessor and queue
  entry exists exactly when its value does, has the flag, status and time stamp of the value, and, where there is a
  value, a pointer to allocated memory with its contents; both histories end normally.
\<close>

theorem values_implemented:
  assumes "objects s = Map.empty" and "\<forall>b \<in> blocks s. b < next_block s"
    and "all_data_usable copy_range ranges tmp ops s" and "failure_reported copy_range"
  shows "\<exists>t B. op_history (apply_data copy_range ranges tmp) ops s = Done t \<and>
    op_history (apply_value copy_range ranges) ops Map.empty = Done B \<and>
    (\<forall>x. rel_option (\<lambda>m d. md_hasValue m = hasValue d \<and> md_status m = dv_status d \<and> md_time m = sourceTimestamp d \<and>
        (hasValue d \<longrightarrow> (\<exists>b. md_data m = Some b \<and> b \<in> blocks t \<and> contents t b = dv_value d)))
      (objects t x) (B x))"
proof -
  have "data_inv ranges tmp (blocks s) s"
    using assms(1,2) by (simp add: data_inv_def one_owner_def data_owned_def)
  moreover have "represents s Map.empty" using assms(1) by (simp add: represents_def)
  ultimately obtain t B where t: "op_history (apply_data copy_range ranges tmp) ops s = Done t"
    "op_history (apply_value copy_range ranges) ops Map.empty = Done B" and r: "represents t B"
    and inv: "data_inv ranges tmp (blocks s) t"
    using op_history_refines [OF assms(4) _ _ assms(3)] by blast
  have "rel_option (\<lambda>m d. md_hasValue m = hasValue d \<and> md_status m = dv_status d \<and> md_time m = sourceTimestamp d \<and>
        (hasValue d \<longrightarrow> (\<exists>b. md_data m = Some b \<and> b \<in> blocks t \<and> contents t b = dv_value d)))
      (objects t x) (B x)" for x
  proof (cases "objects t x")
    case None
    with r [unfolded represents_def, rule_format, of x] show ?thesis by simp
  next
    case (Some m)
    with r obtain d where d: "B x = Some d" "denotes (contents t) m d" by (rule representsD)
    from data_invD(1,5) [OF inv Some] d show ?thesis by (auto simp: Some denotes_def)
  qed
  with t show ?thesis by blast
qed

theorem values_implemented_witness:
  "\<exists>t b. op_history (apply_data second_word sample_ranges 9) sample_history no_data = Done t \<and>
     (\<exists>m. objects t 1 = Some m \<and> md_data m = Some b \<and> contents t b = [UA_number 4, UA_number 9])"
proof -
  have "all_data_usable second_word sample_ranges 9 sample_history no_data" by (simp add: data_eval)
  with values_implemented [OF _ _ _ second_word_reports, where s = no_data and ranges = sample_ranges and tmp = 9
      and ops = sample_history] obtain t B
    where t: "op_history (apply_data second_word sample_ranges 9) sample_history no_data = Done t"
      "op_history (apply_value second_word sample_ranges) sample_history Map.empty = Done B"
      "rel_option (\<lambda>m d. md_hasValue m = hasValue d \<and> md_status m = dv_status d \<and> md_time m = sourceTimestamp d \<and>
        (hasValue d \<longrightarrow> (\<exists>b. md_data m = Some b \<and> b \<in> blocks t \<and> contents t b = dv_value d)))
      (objects t 1) (B 1)"
    by (auto simp: no_data_def)
  moreover have "\<exists>B. op_history (apply_value second_word sample_ranges) sample_history Map.empty = Done B \<and>
      (\<exists>d. B 1 = Some d \<and> hasValue d \<and> dv_value d = [UA_number 4, UA_number 9])"
    by (simp add: sample_history_def sample_ranges_def second_word_def copyVariant_def prepare_value_def
        init_value_def copied_value_def)
  ultimately show ?thesis by (cases "objects t 1") auto
qed

end
