(* ===== verification/Info_Ownership.thy ===== *)
theory Info_Ownership
  imports Map_Element
begin

text \<open>
  The ownership of the node ids in register descriptions (\<^verbatim>\<open>include/RegisterInfo.h\<close>): constructors,
  destructor, copy constructor, \<open>clone\<close> and assignment of \<open>OpcUABackendRegisterInfo\<close>, on the memory
  of \<open>Managed_Types\<close> and with the invariant \<open>one_owner\<close> of \<open>Map_Element\<close>. Copying a node id is
  taken to succeed and to overwrite its target.
\<close>

section \<open>The special members\<close>

record info_object =
  io_info :: register_info
  io_block :: "block option"

definition place_info :: "nat \<Rightarrow> register_info \<Rightarrow> info_object store \<Rightarrow> info_object store" where
  "place_info x i s =
     (if needs_block (reg_id i)
      then put x \<lparr>io_info = i, io_block = Some (next_block s)\<rparr> (alloc s)
      else put x \<lparr>io_info = i, io_block = None\<rparr> s)"

definition construct_info ::
    "nat \<Rightarrow> (string \<Rightarrow> string \<Rightarrow> string) \<Rightarrow> string \<Rightarrow> string \<Rightarrow> node_id \<Rightarrow> info_object store \<Rightarrow>
     info_object store result" where
  "construct_info x join server name node s = Done (place_info x (info_with_id join server name node) s)"

definition destroy_info :: "nat \<Rightarrow> info_object store \<Rightarrow> info_object store result" where
  "destroy_info x s =
     (case objects s x of
        None \<Rightarrow> Undefined
      | Some m \<Rightarrow>
          (case io_block m of
             None \<Rightarrow> Done (s\<lparr>objects := (objects s)(x := None)\<rparr>)
           | Some b \<Rightarrow>
               if b \<in> blocks s
               then Done (s\<lparr>objects := (objects s)(x := None), blocks := blocks s - {b}\<rparr>)
               else Undefined))"

definition info_readable :: "info_object \<Rightarrow> info_object store \<Rightarrow> bool" where
  "info_readable m s \<longleftrightarrow> (case io_block m of None \<Rightarrow> True | Some b \<Rightarrow> b \<in> blocks s)"

text \<open>The copy constructor copies every member. A clone is a copy in memory of its own.\<close>

definition copy_info :: "nat \<Rightarrow> nat \<Rightarrow> info_object store \<Rightarrow> info_object store result" where
  "copy_info x y s =
     (case objects s y of
        None \<Rightarrow> Undefined
      | Some m \<Rightarrow> if info_readable m s then Done (place_info x (io_info m) s) else Undefined)"

text \<open>The assignment copies the node id over the one that is there, which it does not clear.\<close>

definition assign_info :: "nat \<Rightarrow> nat \<Rightarrow> info_object store \<Rightarrow> info_object store result" where
  "assign_info x y s =
     (case objects s x of
        None \<Rightarrow> Undefined
      | Some _ \<Rightarrow> copy_info x y s)"

definition clone_info :: "nat \<Rightarrow> nat \<Rightarrow> info_object store \<Rightarrow> info_object store result" where
  "clone_info x y s = copy_info x y s"

datatype info_op =
    Construct_info nat string string node_id
  | Copy_info nat nat
  | Clone_info nat nat
  | Assign_info nat nat
  | Destroy_info nat

fun apply_info :: "(string \<Rightarrow> string \<Rightarrow> string) \<Rightarrow> info_op \<Rightarrow> info_object store \<Rightarrow> info_object store result" where
  "apply_info join (Construct_info x server name node) = construct_info x join server name node"
| "apply_info join (Copy_info x y) = copy_info x y"
| "apply_info join (Clone_info x y) = clone_info x y"
| "apply_info join (Assign_info x y) = assign_info x y"
| "apply_info join (Destroy_info x) = destroy_info x"

text \<open>Living objects are used. An object is not assigned to itself: what \<open>UA_NodeId_copy\<close> does with one
  node id as source and target is not known.\<close>

fun info_usable :: "info_op \<Rightarrow> info_object store \<Rightarrow> bool" where
  "info_usable (Construct_info x server name node) s \<longleftrightarrow> objects s x = None"
| "info_usable (Copy_info x y) s \<longleftrightarrow> objects s x = None \<and> objects s y \<noteq> None"
| "info_usable (Clone_info x y) s \<longleftrightarrow> objects s x = None \<and> objects s y \<noteq> None"
| "info_usable (Assign_info x y) s \<longleftrightarrow> x \<noteq> y \<and> objects s x \<noteq> None \<and> objects s y \<noteq> None"
| "info_usable (Destroy_info x) s \<longleftrightarrow> objects s x \<noteq> None"

primrec all_info_usable ::
    "(string \<Rightarrow> string \<Rightarrow> string) \<Rightarrow> info_op list \<Rightarrow> info_object store \<Rightarrow> bool" where
  "all_info_usable join [] s \<longleftrightarrow> True"
| "all_info_usable join (op # ops) s \<longleftrightarrow> info_usable op s \<and>
     (case apply_info join op s of Done t \<Rightarrow> all_info_usable join ops t | _ \<Rightarrow> True)"

fun is_assignment :: "info_op \<Rightarrow> bool" where
  "is_assignment (Assign_info x y) \<longleftrightarrow> True"
| "is_assignment _ \<longleftrightarrow> False"

section \<open>One owner per block\<close>

definition info_owned :: "info_object store \<Rightarrow> nat \<rightharpoonup> block" where
  "info_owned s x = (case objects s x of None \<Rightarrow> None | Some m \<Rightarrow> io_block m)"

abbreviation info_owners :: "block set \<Rightarrow> info_object store \<Rightarrow> bool" where
  "info_owners rest s \<equiv> one_owner rest (blocks s) (next_block s) (info_owned s)"

lemma info_store_simps [simp]:
  "objects (put x m s) = (objects s)(x \<mapsto> m)" "blocks (put x m s) = blocks s"
  "next_block (put x m s) = next_block s"
  "objects (alloc s) = objects s" "blocks (alloc s) = insert (next_block s) (blocks s)"
  "next_block (alloc s) = Suc (next_block s)" for s :: "info_object store"
  by (simp_all add: put_def alloc_def)

lemma info_owned_simps [simp]:
  "info_owned (put x m s) = (info_owned s)(x := io_block m)"
  "info_owned (alloc s) = info_owned s"
  "info_owned (s\<lparr>blocks := bs\<rparr>) = info_owned s"
  "info_owned (s\<lparr>objects := (objects s)(x := None)\<rparr>) = (info_owned s)(x := None)"
  "info_owned (s\<lparr>objects := (objects s)(x := None), blocks := bs\<rparr>) = (info_owned s)(x := None)"
  "objects s x = None \<Longrightarrow> info_owned s x = None"
  by (auto simp: put_def alloc_def info_owned_def)

text \<open>A block nobody owns any more stays allocated for ever.\<close>

lemma one_owner_leak [ownership]:
  assumes own: "one_owner rest bs n f" and x: "f x = Some b"
  shows "one_owner (insert b rest) bs n (f(x := None))"
proof -
  note D = one_ownerD [OF own]
  have upd: "(f(x := None)) z = Some c \<longleftrightarrow> c \<noteq> b \<and> f z = Some c" for z c
    using D(2) [OF x, of z] x by (cases "z = x") auto
  show ?thesis
  proof (rule one_ownerI, unfold upd)
    show "c \<in> bs \<longleftrightarrow> c \<in> insert b rest \<or> (\<exists>z. c \<noteq> b \<and> f z = Some c)" for c
      using x D(4) [of c] by auto
  qed (use D(1-3) in blast)+
qed

lemma place_info_owned [ownership]:
  assumes "info_owners rest s"
  shows "\<exists>rest'. info_owners rest' (place_info x i s) \<and> rest \<subseteq> rest' \<and>
    (info_owned s x = None \<longrightarrow> rest' = rest)"
proof (cases "info_owned s x")
  case None
  then have "info_owners rest (place_info x i s)"
    using assms one_owner_new [OF assms None] by (simp add: place_info_def fun_upd_idem)
  then show ?thesis by (intro exI [of _ rest]) simp
next
  case (Some b)
  note leak = one_owner_leak [OF assms Some]
  have "info_owners (insert b rest) (place_info x i s)"
    using leak one_owner_new [OF leak, of x] by (simp add: place_info_def fun_upd_upd)
  then show ?thesis
    by (intro exI [of _ "insert b rest"]) (simp add: Some subset_insertI)
qed

lemma copy_info_owned [ownership]:
  assumes own: "info_owners rest s" and y: "objects s y = Some m"
  shows "copy_info x y s = Done (place_info x (io_info m) s)"
proof -
  have "info_readable m s"
    using y one_owner_free(1) [OF own, of y] by (auto simp: info_readable_def info_owned_def split: option.split)
  with y show ?thesis by (simp add: copy_info_def)
qed

lemma apply_info_owned [ownership]:
  assumes own: "info_owners rest s" and ok: "info_usable op s"
  shows "\<exists>t rest'. apply_info join op s = Done t \<and> info_owners rest' t \<and> rest \<subseteq> rest' \<and>
    (\<not> is_assignment op \<longrightarrow> rest' = rest)"
proof (cases op)
  case (Construct_info x server name node)
  with ok place_info_owned [OF own, of x] show ?thesis by (fastforce simp: construct_info_def)
next
  case (Copy_info x y)
  with ok obtain m where "objects s y = Some m" "info_owned s x = None" by auto
  with Copy_info copy_info_owned [OF own] place_info_owned [OF own, of x] show ?thesis by fastforce
next
  case (Clone_info x y)
  with ok obtain m where "objects s y = Some m" "info_owned s x = None" by auto
  with Clone_info copy_info_owned [OF own] place_info_owned [OF own, of x] show ?thesis
    by (fastforce simp: clone_info_def)
next
  case (Assign_info x y)
  with ok obtain m where "objects s y = Some m" "objects s x \<noteq> None" by auto
  with Assign_info copy_info_owned [OF own] place_info_owned [OF own, of x] show ?thesis
    by (fastforce simp: assign_info_def)
next
  case (Destroy_info x)
  with ok obtain m where m: "objects s x = Some m" by auto
  show ?thesis
  proof (cases "io_block m")
    case None
    with m have "info_owned s x = None" by (simp add: info_owned_def)
    with own m None Destroy_info show ?thesis by (auto simp: destroy_info_def fun_upd_idem)
  next
    case (Some b)
    with m have "info_owned s x = Some b" by (simp add: info_owned_def)
    from one_owner_free [OF own this] m Some Destroy_info show ?thesis by (auto simp: destroy_info_def)
  qed
qed

lemma all_info_owned:
  "info_owners rest s \<Longrightarrow> all_info_usable join ops s \<Longrightarrow>
   \<exists>t rest'. run_all (apply_info join) ops s = Done t \<and> info_owners rest' t \<and> rest \<subseteq> rest' \<and>
     (list_all (\<lambda>op. \<not> is_assignment op) ops \<longrightarrow> rest' = rest)"
proof (induction ops arbitrary: rest s)
  case (Cons op ops)
  from Cons.prems apply_info_owned [of rest s op join] obtain t rest1
    where t: "apply_info join op s = Done t" "info_owners rest1 t" "rest \<subseteq> rest1"
      "\<not> is_assignment op \<longrightarrow> rest1 = rest" by auto
  with Cons.IH [OF t(2)] Cons.prems obtain u rest2
    where "run_all (apply_info join) ops t = Done u" "info_owners rest2 u" "rest1 \<subseteq> rest2"
      "list_all (\<lambda>op. \<not> is_assignment op) ops \<longrightarrow> rest2 = rest1" by auto
  with t show ?case by (intro exI [of _ u] exI [of _ rest2]) auto
qed auto

section \<open>Properties\<close>

text \<open>
  C26: However register descriptions are constructed, copied, cloned, assigned and destroyed, no memory
  of a node id is freed twice or read after it was freed and no two of them share it. Without
  assignments all of it is free again when they are gone; an assignment over a description with
  a string id loses the memory of that id for good.
\<close>

theorem infos_freed_once:
  assumes "objects s = Map.empty" and "\<forall>b \<in> blocks s. b < next_block s" and "all_info_usable join ops s"
  shows "(\<exists>t. run_all (apply_info join) ops s = Done t \<and>
      (\<forall>x y b. info_owned t x = Some b \<longrightarrow> info_owned t y = Some b \<longrightarrow> x = y \<and> b \<in> blocks t) \<and>
      (objects t = Map.empty \<longrightarrow> blocks s \<subseteq> blocks t) \<and>
      (objects t = Map.empty \<and> list_all (\<lambda>op. \<not> is_assignment op) ops \<longrightarrow> blocks t = blocks s)) \<and>
    (i \<noteq> [] \<longrightarrow> (\<exists>t. run_all (apply_info join)
        [Construct_info 1 server name \<lparr>namespaceIndex = ns, node_identifier = Str i\<rparr>,
         Construct_info 2 server name' node, Assign_info 1 2, Destroy_info 1, Destroy_info 2] s = Done t \<and>
      objects t = Map.empty \<and> blocks t = insert (next_block s) (blocks s)))"
proof (intro conjI impI)
  have "info_owners (blocks s) s"
    using assms(1,2) by (simp add: one_owner_def info_owned_def)
  from all_info_owned [OF this assms(3)] obtain t rest where
    t: "run_all (apply_info join) ops s = Done t" and own: "info_owners rest t" and "blocks s \<subseteq> rest"
    and "list_all (\<lambda>op. \<not> is_assignment op) ops \<longrightarrow> rest = blocks s" by blast
  moreover note D = one_ownerD [OF own]
  moreover have "blocks t = rest" if "objects t = Map.empty"
    using D(4) that by (auto simp: info_owned_def)
  ultimately show "\<exists>t. run_all (apply_info join) ops s = Done t \<and>
      (\<forall>x y b. info_owned t x = Some b \<longrightarrow> info_owned t y = Some b \<longrightarrow> x = y \<and> b \<in> blocks t) \<and>
      (objects t = Map.empty \<longrightarrow> blocks s \<subseteq> blocks t) \<and>
      (objects t = Map.empty \<and> list_all (\<lambda>op. \<not> is_assignment op) ops \<longrightarrow> blocks t = blocks s)"
    by (intro exI [of _ t]) blast
next
  assume "i \<noteq> []"
  have fresh: "next_block s \<notin> blocks s" "Suc (next_block s) \<notin> blocks s" "Suc (Suc (next_block s)) \<notin> blocks s"
    using assms(2) by auto
  show "\<exists>t. run_all (apply_info join)
        [Construct_info 1 server name \<lparr>namespaceIndex = ns, node_identifier = Str i\<rparr>,
         Construct_info 2 server name' node, Assign_info 1 2, Destroy_info 1, Destroy_info 2] s = Done t \<and>
      objects t = Map.empty \<and> blocks t = insert (next_block s) (blocks s)"
    using \<open>i \<noteq> []\<close> assms(1) fresh
    by (cases "needs_block node")
      (auto simp: construct_info_def place_info_def info_with_id_def info_without_id_def default_info_def
        needs_block_def [of "\<lparr>namespaceIndex = ns, node_identifier = Str i\<rparr>"] assign_info_def copy_info_def
        info_readable_def destroy_info_def)
qed

definition sample_infos :: "info_op list" where
  "sample_infos = [Construct_info 1 ''s'' ''n'' \<lparr>namespaceIndex = 1, node_identifier = Str ''x''\<rparr>,
     Clone_info 2 1, Destroy_info 1, Destroy_info 2]"

definition no_infos :: "info_object store" where
  "no_infos = \<lparr>blocks = {0}, next_block = 1, objects = Map.empty\<rparr>"

theorem infos_freed_once_witness:
  "\<exists>t. run_all (apply_info (\<lambda>server name. server @ name)) [Construct_info 1 ''s'' ''n'' \<lparr>namespaceIndex = 1, node_identifier = Str ''x''\<rparr>,
     Construct_info 2 ''s'' ''m'' UA_NODEID_NULL, Assign_info 1 2, Destroy_info 1, Destroy_info 2] no_infos = Done t \<and>
     blocks t = {0, 1}"
proof -
  have "all_info_usable (\<lambda>server name. server @ name) sample_infos no_infos"
    by (simp add: sample_infos_def no_infos_def construct_info_def place_info_def info_with_id_def
        info_without_id_def default_info_def needs_block_def clone_info_def copy_info_def
        info_readable_def destroy_info_def)
  from infos_freed_once [OF _ _ this, of "''x''" "''s''" "''n''" 1 "''m''" UA_NODEID_NULL] show ?thesis
    by (auto simp: no_infos_def)
qed

end
