(* ===== verification/Recovery.thy ===== *)
theory Recovery
  imports Accessor_Properties
begin

text \<open>
  Recovery after a loss of the connection: the framework calls \<open>open\<close> and then
  \<open>activateAsyncRead\<close>. Each step is followed through the functions of the backend, for a server that
  answers well; what stays the same in the meantime is \<open>preserved\<close>.
\<close>

section \<open>What recovery preserves\<close>

text \<open>The items without what belongs to the subscription of the moment.\<close>

definition lasting :: "monitor_item \<Rightarrow> monitor_item" where
  "lasting item = item\<lparr>item_active := False, isMonitored := False, item_id := 0\<rparr>"

definition lasting_items :: "monitor_item deque \<Rightarrow> monitor_item deque" where
  "lasting_items d = map (\<lambda>(p, item). (p, lasting item)) d"

definition preserved :: "variant backend \<Rightarrow> variant backend \<Rightarrow> bool" where
  "preserved s t \<longleftrightarrow> lasting_items (items t) = lasting_items (items s) \<and> accessors t = accessors s \<and>
     publishingInterval (conn t) = publishingInterval (conn s) \<and>
     has_manager t = has_manager s \<and> registered t = registered s"

definition no_thread :: "variant backend \<Rightarrow> bool" where
  "no_thread s \<longleftrightarrow> \<not> run s \<and> \<not> opcuaThread s \<and> \<not> thread_live s \<and> \<not> subscriptionNeedsToBeRemoved s"

lemma lasting_simps [simp]:
  "lasting (item\<lparr>item_active := b\<rparr>) = lasting item"
  "lasting (item\<lparr>isMonitored := b\<rparr>) = lasting item"
  "lasting (item\<lparr>item_id := i\<rparr>) = lasting item"
  "hasException (lasting item) = hasException item"
  "item_accessors (lasting item) = item_accessors item"
  by (simp_all add: lasting_def)

lemma lasting_items_map:
  "(\<And>p item. lasting (f p item) = lasting item) \<Longrightarrow>
     lasting_items (map (\<lambda>(p, item). (p, f p item)) d) = lasting_items d"
  by (simp add: lasting_items_def case_prod_unfold comp_def)

lemma lasting_items_fst: "lasting_items d' = lasting_items d \<Longrightarrow> map fst d' = map fst d"
proof -
  have "map fst (lasting_items d) = map fst d" for d
    by (simp add: lasting_items_def case_prod_unfold comp_def)
  then show "lasting_items d' = lasting_items d \<Longrightarrow> map fst d' = map fst d" by metis
qed

lemma preserved_refl [simp]: "preserved s s"
  by (simp add: preserved_def)

lemma preserved_trans [trans]: "preserved s t \<Longrightarrow> preserved t u \<Longrightarrow> preserved s u"
  by (simp add: preserved_def)

lemma preserved_reset [simp]: "preserved s (resetMonitoredItems t) = preserved s t"
  by (simp add: preserved_def resetMonitoredItems_def lasting_items_map)

lemma preserved_update [simp]:
  "preserved s (t\<lparr>run := b\<rparr>) = preserved s t"
  "preserved s (t\<lparr>opcuaThread := b\<rparr>) = preserved s t"
  "preserved s (t\<lparr>thread_live := b\<rparr>) = preserved s t"
  "preserved s (t\<lparr>subscriptionActive := b\<rparr>) = preserved s t"
  "preserved s (t\<lparr>subscriptionID := i\<rparr>) = preserved s t"
  "preserved s (t\<lparr>subscriptionNeedsToBeRemoved := b\<rparr>) = preserved s t"
  "preserved s (t\<lparr>asyncReadActive := b\<rparr>) = preserved s t"
  "preserved s (t\<lparr>subscriptionMap := m\<rparr>) = preserved s t"
  "preserved s (t\<lparr>ua_calls := c\<rparr>) = preserved s t"
  "preserved s (t\<lparr>opened := b\<rparr>) = preserved s t"
  by (simp_all add: preserved_def)

lemma preserved_remove [simp]: "preserved s (removeSubscription d t) = preserved s t"
  by (simp add: preserved_def removeSubscription_def resetMonitoredItems_def setInactive_def Let_def
      lasting_items_map)

section \<open>Stopping what is left\<close>

lemma stop_thread:
  assumes "wf_manager s" and "thread_ok s" and "\<not> run s"
    and "subscriptionNeedsToBeRemoved s \<longrightarrow> thread_live s"
  shows "\<exists>t. stopClientThread client_callback its d s = Done t \<and> preserved s t \<and> wf_manager t \<and> no_thread t"
proof -
  have "client_loop client_callback its s = Done s" using assms(3) by (cases its) simp_all
  with assms show ?thesis
    by (auto simp: stopClientThread_def runClient_def no_thread_def thread_ok_def removeSubscription_wf)
qed

lemma deactivate_stopped:
  assumes "wf_manager s" and "no_thread s"
  shows "\<exists>t. deactivate False d s = Done t \<and> preserved s t \<and> wf_manager t \<and> no_thread t \<and>
    \<not> subscriptionActive t \<and> \<not> asyncReadActive t"
proof -
  let ?u = "s\<lparr>items := map (\<lambda>(p, item).
      (p, if p \<in> set (map snd (subscriptionMap s)) then item\<lparr>item_active := False\<rparr> else item))
      (items s)\<rparr>"
  have "preserved s ?u" by (simp add: preserved_def lasting_items_map)
  moreover have "wf_manager ?u"
    using deactivate_items_skel [of s] unfolding deactivate_items_wf [OF assms(1)]
    by (auto intro: wf_manager_skel [OF _ assms(1)])
  ultimately show ?thesis
    using assms(2) unfolding deactivate_def deactivate_items_wf [OF assms(1)] seq.simps Let_def
    by (simp add: no_thread_def removeSubscription_wf)
qed

lemma reset_stopped:
  assumes "wf_manager s" and "no_thread s" and "has_manager s" and "rs_disconnect a = []"
  shows "\<exists>t. resetClient a s = Done t \<and> preserved s t \<and> wf_manager t \<and> no_thread t \<and>
    \<not> subscriptionActive t \<and> \<not> asyncReadActive t \<and> subscriptionMap t = [] \<and>
    (\<forall>(p, item) \<in> set (items t). \<not> isMonitored item)"
proof -
  obtain u where u: "deactivate False (rs_deleted a) s = Done u" "preserved s u" "wf_manager u" "no_thread u"
    "\<not> subscriptionActive u" "\<not> asyncReadActive u"
    using deactivate_stopped [OF assms(1,2)] by blast
  from u(4) have "stopClientThread client_callback (rs_iterations a) (rs_thread_deleted a)
      (resetMonitoredItems u) = Done (resetMonitoredItems u)"
    by (simp add: stopClientThread_def no_thread_def resetMonitoredItems_def)
  with u assms(3,4) have "resetClient a s = Done (add_call Client_disconnect (resetMonitoredItems u))"
    by (simp add: resetClient_def close_connection_def)
  with u resetMonitoredItems_wf [OF u(3)] show ?thesis
    by (auto simp: add_call_def no_thread_def resetMonitoredItems_def preserved_def lasting_items_map)
qed

section \<open>Setting the subscription up again\<close>

text \<open>A server that accepts the connection, the subscription and every monitored item, and no other
  callbacks in between.\<close>

definition good_answers :: "variant open_answer \<Rightarrow> variant backend \<Rightarrow> bool" where
  "good_answers a s \<longleftrightarrow>
     rs_disconnect (op_reset a) = [] \<and> connect_result (op_connect a) = UA_STATUSCODE_GOOD \<and>
     connect_callbacks (op_connect a) = [State_changed Channel_open Session_activated] \<and>
     sub_result (op_create a) = UA_STATUSCODE_GOOD \<and> sub_callbacks (op_create a) = [] \<and>
     revisedPublishingInterval (op_create a) = of_nat (unat (publishingInterval (conn s))) \<and>
     (\<forall>p. mon_status (op_monitor a p) = UA_STATUSCODE_GOOD \<and> mon_callbacks (op_monitor a p) = []) \<and>
     inj_on (\<lambda>p. monitoredItemId (op_monitor a p)) (set (map fst (items s)))"

lemma good_answers_preserved: "preserved s t \<Longrightarrow> good_answers a t = good_answers a s"
  using lasting_items_fst [of "items t" "items s"] by (simp add: good_answers_def preserved_def)

lemma create_quiet:
  assumes "wf_manager s" and "no_thread s" and "subscriptionMap s = []"
    and "\<forall>(p, item) \<in> set (items s). \<not> isMonitored item"
    and "sub_result r = UA_STATUSCODE_GOOD" and "sub_callbacks r = []"
    and "revisedPublishingInterval r = of_nat (unat (publishingInterval (conn s)))"
  shows "\<exists>t. createSubscription client_callback d r s = Done t \<and> preserved s t \<and> wf_manager t \<and>
    no_thread t \<and> subscriptionActive t \<and> subscriptionMap t = [] \<and> conn t = conn s \<and>
    (\<forall>(p, item) \<in> set (items t). \<not> isMonitored item)"
proof -
  let ?s1 = "if subscriptionID s \<noteq> 0 then removeSubscription d s else s"
  let ?t = "(add_call (Create_subscription (publishingInterval (conn s))) ?s1)
      \<lparr>subscriptionID := sub_id r, subscriptionActive := True\<rparr>"
  have "conn ?s1 = conn s" by simp
  then have "createSubscription client_callback d r s = Done ?t"
    using assms(5-7) by (simp add: createSubscription_def Let_def add_call_def)
  moreover have "\<forall>(p, item) \<in> set (items ?s1). \<not> isMonitored item"
    using assms(4) by (auto simp: removeSubscription_def resetMonitoredItems_def setInactive_def Let_def)
  moreover have "subscriptionMap ?s1 = []" using assms(3) by simp
  ultimately show ?thesis
    using assms(1,2) by (intro exI [of _ ?t]) (simp add: add_call_def no_thread_def removeSubscription_wf)
qed

lemma monitor_quiet:
  assumes "wf_manager s" and "no_thread s" and "subscriptionMap s = []"
    and "\<forall>(p, item) \<in> set (items s). \<not> isMonitored item"
    and "\<forall>p. mon_status (m p) = UA_STATUSCODE_GOOD \<and> mon_callbacks (m p) = []"
    and "inj_on (\<lambda>p. monitoredItemId (m p)) (set (map fst (items s)))"
  shows "\<exists>t. addMonitoredItems client_callback m s = Done t \<and> preserved s t \<and> no_thread t \<and>
    subscriptionActive t = subscriptionActive s \<and> conn t = conn s \<and>
    (\<forall>(p, item) \<in> set (items t). isMonitored item \<and> map_of (subscriptionMap t) (item_id item) = Some p)"
proof -
  let ?t = "after_monitoring m (items s) [] s"
  have "addMonitoredItems client_callback m s = Done ?t"
    by (rule addMonitoredItems_closed [OF assms(1)]) (use assms(5) in blast)
  moreover have "preserved s ?t"
    by (simp add: preserved_def after_monitoring_def monitored_as_def lasting_items_map Let_def)
  moreover have all: "filter (\<lambda>(p, item). \<not> isMonitored item) (items s) = items s"
    using assms(4) by (auto simp: filter_id_conv)
  have "isMonitored item \<and> map_of (subscriptionMap ?t) (item_id item) = Some p"
    if "(p, item) \<in> set (items ?t)" for p item
  proof -
    from that obtain x where x: "(p, x) \<in> set (items s)" "item = monitored_as m (asyncReadActive s) p x"
      by (auto simp: after_monitoring_def)
    with assms(4) have "isMonitored item" "item_id item = monitoredItemId (m p)"
      by (auto simp: monitored_as_def Let_def)
    moreover have "distinct (map fst (items s))" using assms(1) by (simp add: wf_manager_def wf_items_def)
    from map_of_fold_update [OF this assms(6)] x(1)
    have "map_of (subscriptionMap ?t) (monitoredItemId (m p)) = Some p"
      by (force simp: after_monitoring_def all assms(3))
    ultimately show ?thesis by simp
  qed
  then have "\<forall>(p, item) \<in> set (items ?t). isMonitored item \<and> map_of (subscriptionMap ?t) (item_id item) = Some p"
    by blast
  moreover have "no_thread ?t" "subscriptionActive ?t = subscriptionActive s" "conn ?t = conn s"
    using assms(2) by (simp_all add: after_monitoring_def no_thread_def)
  ultimately show ?thesis by blast
qed

text \<open>\<open>open\<close> after the loss.\<close>

lemma open_recovers:
  assumes wf: "wf_manager s" and "thread_ok s" and "\<not> run s" and "registered s" and "has_manager s"
    and "subscriptionNeedsToBeRemoved s \<longrightarrow> thread_live s"
    and "\<not> isConnected (conn s)" and good: "good_answers a s"
  shows "\<exists>t. open_device a s = Done t \<and> preserved s t \<and> no_thread t \<and> opened t \<and> subscriptionActive t \<and>
    isConnected (conn t) \<and>
    (\<forall>(p, item) \<in> set (items t). isMonitored item \<and> map_of (subscriptionMap t) (item_id item) = Some p)"
proof -
  note g = good [unfolded good_answers_def]
  obtain u where u: "stopClientThread client_callback (op_iterations a) (op_thread_deleted a) s = Done u"
    "preserved s u" "wf_manager u" "no_thread u"
    using stop_thread [OF assms(1,2,3,6)] by blast
  from u(2) assms(5) have "has_manager u" by (simp add: preserved_def)
  then obtain v where v: "resetClient (op_reset a) u = Done v" "preserved u v" "wf_manager v" "no_thread v"
    "subscriptionMap v = []" "\<forall>(p, item) \<in> set (items v). \<not> isMonitored item"
    using reset_stopped [OF u(3,4)] g by blast
  let ?w = "(add_call (connect_call (conn v)) v)
      \<lparr>conn := (conn v)\<lparr>channelState := Channel_open, sessionState := Session_activated\<rparr>\<rparr>"
  have sv: "preserved s v" using u(2) v(2) by (rule preserved_trans)
  with assms(4,5) have reg: "registered v" "has_manager v" by (simp_all add: preserved_def)
  then have call: "run_all client_callback (connect_callbacks (op_connect a))
      (add_call (connect_call (conn v)) v) = Done ?w"
    using g by (simp add: stateCallback_def isConnected_def Let_def add_call_def)
  have pw: "preserved s ?w" using sv by (simp add: preserved_def add_call_def)
  have w: "wf_manager ?w" "no_thread ?w" "subscriptionMap ?w = []" "has_manager ?w"
    "\<forall>(p, item) \<in> set (items ?w). \<not> isMonitored item"
    using v reg by (simp_all add: add_call_def no_thread_def)
  note gw = good_answers_preserved [OF pw, of a, unfolded good_answers_def] g
  obtain x where x: "createSubscription client_callback (op_deleted a) (op_create a) ?w = Done x"
    "preserved ?w x" "wf_manager x" "no_thread x" "subscriptionActive x" "subscriptionMap x = []"
    "conn x = conn ?w" "\<forall>(p, item) \<in> set (items x). \<not> isMonitored item"
    using create_quiet [OF w(1,2,3,5)] gw by blast
  have px: "preserved s x" using pw x(2) by (rule preserved_trans)
  note gx = good_answers_preserved [OF px, of a, unfolded good_answers_def] g
  obtain y where y: "addMonitoredItems client_callback (op_monitor a) x = Done y" "preserved x y"
    "no_thread y" "subscriptionActive y" "conn y = conn x"
    "\<forall>(p, item) \<in> set (items y). isMonitored item \<and> map_of (subscriptionMap y) (item_id item) = Some p"
    using monitor_quiet [OF x(3,4,6,8), of "op_monitor a"] gx x(5) by blast
  have py: "preserved s y" using px y(2) by (rule preserved_trans)
  have conn: "isConnected (conn y)" by (simp add: y(5) x(7) isConnected_def)
  have "connect (op_reset a) (op_connect a) (op_deleted a) (op_create a) (op_monitor a) u = Done y"
    unfolding connect_def v(1) seq.simps call using g w(4) by (simp add: prepare_def x(1) y(1))
  with u(1) assms(5,7) conn have "open_device a s = Done (y\<lparr>opened := True\<rparr>)"
    by (simp add: open_device_def wait_connected.simps)
  with py y conn show ?thesis by (auto simp: no_thread_def)
qed

lemma activate_recovers:
  assumes "no_thread s" and "has_manager s" and "subscriptionActive s"
    and "\<forall>(p, item) \<in> set (items s). isMonitored item \<and> map_of (subscriptionMap s) (item_id item) = Some p"
  shows "activateAsyncRead True d r m s =
    Done ((activate_items (s\<lparr>asyncReadActive := True\<rparr>))\<lparr>run := True, opcuaThread := True, thread_live := True\<rparr>)"
proof -
  have "subscriptionMap s \<noteq> []" if "items s \<noteq> []"
    using that assms(4) by (cases "items s") auto
  with assms(1-3) show ?thesis
    by (auto simp: activateAsyncRead_def activateSubscriptionSupport_def activate_def start_def
        activate_items_def no_thread_def Let_def)
qed

lemma activated_items [simp]:
  "preserved s (activate_items t) = preserved s t"
  "items (activate_items t) = map (\<lambda>(p, item). (p, item\<lparr>item_active := True\<rparr>)) (items t)"
  "subscriptionMap (activate_items t) = subscriptionMap t"
  "conn (activate_items t) = conn t"
  "opened (activate_items t) = opened t"
  "subscriptionActive (activate_items t) = subscriptionActive t"
  "subscriptionNeedsToBeRemoved (activate_items t) = subscriptionNeedsToBeRemoved t"
  by (simp_all add: activate_items_def preserved_def lasting_items_map)

text \<open>The good answers are ones a step may have, and an item that has reported stays so.\<close>

lemma good_answers_valid:
  assumes "good_answers a s"
  shows "valid_response (op_create a)"
proof -
  have "unat (publishingInterval (conn s)) < 2 ^ 64"
    using unsigned_less [of "publishingInterval (conn s)"] by simp
  from double_to_ulong_of_nat [OF this] assms show ?thesis
    by (simp add: good_answers_def valid_response_def)
qed

definition reported :: "acc_id \<Rightarrow> monitor_item deque \<Rightarrow> bool" where
  "reported b d \<longleftrightarrow> (\<forall>(p, item) \<in> set d. b \<in> set (item_accessors item) \<longrightarrow> hasException item)"

lemma reported_lasting: "reported b (lasting_items d) = reported b d"
  by (auto simp: reported_def lasting_items_def)

lemma reported_preserved:
  assumes "preserved s t" and "reported b (items s)"
  shows "reported b (items t)"
proof -
  from assms(1) have "lasting_items (items t) = lasting_items (items s)" by (simp add: preserved_def)
  then have "reported b (lasting_items (items t)) = reported b (lasting_items (items s))" by simp
  with assms(2) show ?thesis by (simp add: reported_lasting)
qed

lemma nothing_pending:
  assumes "reported b d"
  shows "pending_count d b = 0"
proof -
  have "count_list (item_accessors item) b = 0" if "item \<in> set (pending_items d)" for item
    using that assms by (fastforce simp: reported_def pending_items_def count_list_0_iff)
  then have "map (\<lambda>item. count_list (item_accessors item) b) (pending_items d) =
      map (\<lambda>item. 0) (pending_items d)" by (intro map_cong) simp_all
  then show ?thesis by (simp add: pending_count_def)
qed

lemma names_preserved:
  assumes "preserved s t"
  shows "map (\<lambda>(p, item). (p, browseName item, item_accessors item)) (items t) =
    map (\<lambda>(p, item). (p, browseName item, item_accessors item)) (items s)"
proof -
  let ?names = "map (\<lambda>(p, item). (p, browseName item, item_accessors item))"
  have names: "?names (lasting_items d) = ?names d" for d
    by (simp add: lasting_items_def lasting_def case_prod_unfold comp_def)
  from assms have "lasting_items (items t) = lasting_items (items s)" by (simp add: preserved_def)
  then have "?names (lasting_items (items t)) = ?names (lasting_items (items s))" by (rule arg_cong)
  then show ?thesis by (simp only: names)
qed

section \<open>Properties\<close>

lemma recovery_result:
  assumes "reachable s" and "has_manager s" and "\<not> run s"
    and "subscriptionNeedsToBeRemoved s \<longrightarrow> thread_live s"
    and "\<not> isConnected (conn s)" and "good_answers a s"
  shows "\<exists>t u. open_device a s = Done t \<and> activateAsyncRead True d r m t = Done u \<and>
    opened u \<and> isConnected (conn u) \<and> run u \<and> thread_live u \<and> subscriptionActive u \<and>
    \<not> subscriptionNeedsToBeRemoved u \<and> preserved s u \<and>
    (\<forall>(p, item) \<in> set (items u). item_active item \<and> isMonitored item \<and>
       map_of (subscriptionMap u) (item_id item) = Some p)"
proof -
  from reachable_inv [OF assms(1)] have "wf_manager s" "thread_ok s" "registered s"
    by (simp_all add: backend_inv_def)
  then obtain t where t: "open_device a s = Done t" "preserved s t" "no_thread t" "opened t"
    "subscriptionActive t" "isConnected (conn t)"
    "\<forall>(p, item) \<in> set (items t). isMonitored item \<and> map_of (subscriptionMap t) (item_id item) = Some p"
    using open_recovers [OF _ _ assms(3) _ assms(2,4,5,6)] by blast
  let ?u = "(activate_items (t\<lparr>asyncReadActive := True\<rparr>))\<lparr>run := True, opcuaThread := True, thread_live := True\<rparr>"
  have "has_manager t" using t(2) assms(2) by (simp add: preserved_def)
  from activate_recovers [OF t(3) this t(5,7)] have "activateAsyncRead True d r m t = Done ?u" .
  moreover have "\<forall>(p, item) \<in> set (items ?u). item_active item \<and> isMonitored item \<and>
       map_of (subscriptionMap ?u) (item_id item) = Some p" using t(7) by auto
  ultimately show ?thesis
    using t(1-6) by (intro exI [of _ t] exI [of _ ?u]) (simp add: no_thread_def)
qed

text \<open>
  C6: Recovery: after the connection was lost and the client thread told to stop, \<open>open\<close> and
  \<open>activateAsyncRead\<close> with a server that answers well bring every subscribed accessor back: the device is
  open and connected, the thread runs on a new subscription, every item is monitored, active and
  found under the id the server gave it, and no accessor has left its item or lost anything from its
  queue. A request to remove the subscription must not outlive the thread that is to execute it.
\<close>

theorem recovery_restores:
  assumes "reachable s" and "has_manager s" and "\<not> run s"
    and "subscriptionNeedsToBeRemoved s \<longrightarrow> thread_live s"
    and "\<not> isConnected (conn s)" and "good_answers a s"
  shows "\<exists>t u. open_device a s = Done t \<and> activateAsyncRead True d r m t = Done u \<and>
    opened u \<and> isConnected (conn u) \<and> run u \<and> thread_live u \<and> subscriptionActive u \<and>
    \<not> subscriptionNeedsToBeRemoved u \<and> accessors u = accessors s \<and>
    map (\<lambda>(p, item). (p, browseName item, item_accessors item)) (items u) =
      map (\<lambda>(p, item). (p, browseName item, item_accessors item)) (items s) \<and>
    (\<forall>(p, item) \<in> set (items u). item_active item \<and> isMonitored item \<and>
       map_of (subscriptionMap u) (item_id item) = Some p)"
proof -
  obtain t u where tu: "open_device a s = Done t" "activateAsyncRead True d r m t = Done u"
    and u: "opened u" "isConnected (conn u)" "run u" "thread_live u" "subscriptionActive u"
      "\<not> subscriptionNeedsToBeRemoved u" "preserved s u"
      "\<forall>(p, item) \<in> set (items u). item_active item \<and> isMonitored item \<and>
         map_of (subscriptionMap u) (item_id item) = Some p"
    using recovery_result [OF assms, of d r m] by blast
  from u(7) have accs: "accessors u = accessors s" by (simp add: preserved_def)
  show ?thesis by (intro exI [of _ t] exI [of _ u] conjI tu u(1-6,8) accs names_preserved [OF u(7)])
qed

text \<open>A device with three subscribed accessors that has lost its connection.\<close>

lemma lost_run:
  "\<exists>s. trace [Receive (State_changed Channel_closed Session_closed)] busy_backend = Some s \<and>
     has_manager s \<and> \<not> run s \<and> thread_live s \<and> \<not> isConnected (conn s) \<and> good_answers good_open s \<and>
     reported 2 (items s) \<and> map fst (items s) = [0, 1, 2] \<and>
     notifications (accessors s 2) = [Pushed_exception ''Client session is not open any more.'']"
  by (simp add: backend_eval good_open_def good_create_def good_monitor_def quiet_reset_answer_def
      blank_backend_def blank_connection_def busy_backend_def active_backend_def opened_backend_def
      busy_item_def deactivateAllAndPushException_def handleException_def handle_item_def
      push_all_def push_notification_def good_answers_def reported_def)

lemma lost_backend:
  obtains s where "reachable s" "has_manager s" "\<not> run s" "thread_live s" "\<not> isConnected (conn s)"
    "good_answers good_open s" "reported 2 (items s)" "map fst (items s) = [0, 1, 2]"
    "notifications (accessors s 2) = [Pushed_exception ''Client session is not open any more.'']"
proof -
  from lost_run obtain s where
    "trace [Receive (State_changed Channel_closed Session_closed)] busy_backend = Some s"
    and s: "has_manager s" "\<not> run s" "thread_live s" "\<not> isConnected (conn s)"
      "good_answers good_open s" "reported 2 (items s)" "map fst (items s) = [0, 1, 2]"
      "notifications (accessors s 2) = [Pushed_exception ''Client session is not open any more.'']"
    by (elim exE conjE)
  from reachable_trace [OF reachable_busy this(1)] s show ?thesis by (rule that)
qed

theorem recovery_restores_witness:
  "\<exists>s t u. open_device good_open s = Done t \<and>
     activateAsyncRead True False good_create good_monitor t = Done u \<and> thread_live u \<and>
     map fst (items s) = [0, 1, 2] \<and> (\<forall>(p, item) \<in> set (items u). item_active item \<and> isMonitored item)"
proof -
  obtain s where s: "reachable s" "has_manager s" "\<not> run s" "thread_live s" "\<not> isConnected (conn s)"
    "good_answers good_open s" "reported 2 (items s)" "map fst (items s) = [0, 1, 2]"
    by (rule lost_backend)
  then have "subscriptionNeedsToBeRemoved s \<longrightarrow> thread_live s" by simp
  from recovery_restores [OF s(1-3) this s(5,6), of False good_create good_monitor]
  obtain t u where "open_device good_open s = Done t"
    "activateAsyncRead True False good_create good_monitor t = Done u" "thread_live u"
    and "\<forall>(p, item) \<in> set (items u). item_active item \<and> isMonitored item \<and>
       map_of (subscriptionMap u) (item_id item) = Some p" by (elim exE conjE)
  with s(8) show ?thesis by (intro exI [of _ s] exI [of _ t] exI [of _ u]) auto
qed

text \<open>
  C39: An item that has reported an exception and received no data since then does not report the next
  one, not even after a successful recovery: when the connection is lost again, an accessor
  on such items is not told.
\<close>

theorem second_loss_unreported:
  assumes "reachable s" and "has_manager s" and "\<not> run s"
    and "subscriptionNeedsToBeRemoved s \<longrightarrow> thread_live s"
    and "\<not> isConnected (conn s)" and "good_answers a s"
    and "reported b (items s)"
    and lost: "\<not> (channel = Channel_open \<and> session = Session_activated)"
  shows "\<exists>t u v. open_device a s = Done t \<and> activateAsyncRead True d (op_create a) m t = Done u \<and>
    stateCallback channel session u = Done v \<and> \<not> run v \<and>
    notifications (accessors v b) = notifications (accessors s b)"
proof -
  obtain t u where tu: "open_device a s = Done t" "activateAsyncRead True d (op_create a) m t = Done u"
    and u: "opened u" "run u" "preserved s u"
    using recovery_result [OF assms(1-6), of d "op_create a" m] by blast
  have valid: "valid_response (op_create a)" by (rule good_answers_valid [OF assms(6)])
  have "backend_step s (Open a) t"
    by (rule backend_step.returns) (simp_all add: tu assms(2) valid)
  moreover have "backend_step t (Activate_async True d (op_create a) m) u"
    by (rule backend_step.returns) (simp_all add: tu valid)
  ultimately have "reachable u" using assms(1) by (blast intro: reachable.step)
  from connection_loss_result [OF this u(1,2) lost] obtain v where
    v: "stateCallback channel session u = Done v" "\<not> run v"
    and n: "\<forall>x. notifications (accessors v x) = notifications (accessors u x) @
      replicate (pending_count (items u) x) (Pushed_exception ''Client session is not open any more.'')"
    by blast
  have "pending_count (items u) b = 0"
    by (rule nothing_pending [OF reported_preserved [OF u(3) assms(7)]])
  with n u(3) have "notifications (accessors v b) = notifications (accessors s b)"
    by (simp add: preserved_def)
  with tu v show ?thesis by blast
qed

theorem second_loss_unreported_witness:
  "\<exists>u v :: variant backend. stateCallback Channel_closed Session_closed u = Done v \<and>
     notifications (accessors v 2) = [Pushed_exception ''Client session is not open any more.'']"
proof -
  obtain s where s: "reachable s" "has_manager s" "\<not> run s" "thread_live s" "\<not> isConnected (conn s)"
    "good_answers good_open s" "reported 2 (items s)"
    "notifications (accessors s 2) = [Pushed_exception ''Client session is not open any more.'']"
    by (rule lost_backend)
  then have "subscriptionNeedsToBeRemoved s \<longrightarrow> thread_live s" by simp
  from second_loss_unreported [OF s(1-3) this s(5-7), of Channel_closed Session_closed] s(8)
  show ?thesis by (metis channel_state.distinct(5))
qed

section \<open>A failed transfer\<close>

text \<open>\<open>setExternalError\<close> marks the items of that name, of which there is one at most.\<close>

definition mark_named :: "string \<Rightarrow> monitor_item \<Rightarrow> monitor_item" where
  "mark_named name item = (if browseName item = name then item\<lparr>hasException := True\<rparr> else item)"

lemma setExternalError_marks:
  assumes "wf_manager s"
  shows "items (setExternalError name s) = map (\<lambda>(p, item). (p, mark_named name item)) (items s)"
    and "accessors (setExternalError name s) = accessors s"
proof -
  let ?P = "\<lambda>(p, item). browseName item = name"
  have names: "distinct (map (browseName \<circ> snd) (items s))" and addrs: "distinct (map fst (items s))"
    using assms by (simp_all add: wf_manager_def wf_items_def)
  show "items (setExternalError name s) = map (\<lambda>(p, item). (p, mark_named name item)) (items s)"
  proof (cases "find_index ?P (items s)")
    case None
    then have "browseName item \<noteq> name" if "(p, item) \<in> set (items s)" for p item
      using that by (auto simp: find_index_None)
    then show ?thesis
      using None by (auto simp: setExternalError_def mark_named_def intro!: map_idI [symmetric])
  next
    case (Some k)
    then have k: "k < length (items s)" "browseName (snd (items s ! k)) = name"
      by (auto simp: find_index_Some split: prod.splits)
    have same: "fst x = fst (items s ! k) \<longleftrightarrow> browseName (snd x) = name" if x: "x \<in> set (items s)" for x
    proof -
      from x obtain j where j: "j < length (items s)" "x = items s ! j" by (auto simp: in_set_conv_nth)
      have "fst x = fst (items s ! k) \<longleftrightarrow> j = k"
        using nth_eq_iff_index_eq [OF addrs, of j k] j k(1) by simp
      moreover have "browseName (snd x) = name \<longleftrightarrow> j = k"
        using nth_eq_iff_index_eq [OF names, of j k] j k by simp
      ultimately show ?thesis by simp
    qed
    have "deque_modify (fst (items s ! k)) (\<lambda>x. x\<lparr>hasException := True\<rparr>) (items s) =
        map (\<lambda>(p, item). (p, mark_named name item)) (items s)"
      unfolding deque_modify_def
      by (rule map_cong [OF refl], clarify, drule same) (simp add: mark_named_def)
    then show ?thesis by (simp add: setExternalError_def Some modify_item_def)
  qed
  show "accessors (setExternalError name s) = accessors s"
    by (simp add: setExternalError_def modify_item_def split: option.split)
qed

lemma pending_mark_named:
  "pending_count (map (\<lambda>(p, item). (p, mark_named name item)) d) a =
     pending_count (filter (\<lambda>(p, item). browseName item \<noteq> name) d) a"
proof (induction d)
  case (Cons x d)
  then show ?case
    by (cases "browseName (snd x) = name")
      (auto simp: pending_count_def pending_items_def mark_named_def case_prod_unfold)
qed (simp add: pending_count_def pending_items_def)

text \<open>While the connection is being closed, callbacks may run. The first of them that reports the loss tells every accessor
  that waits; after it, and when the thread does not run, none of them tells anybody anything.\<close>

fun no_value :: "'v callback \<Rightarrow> bool" where
  "no_value (Data_changed i d) \<longleftrightarrow> False"
| "no_value _ \<longleftrightarrow> True"

definition loss_messages :: "string set" where
  "loss_messages = insert ''Client session is not open any more.''
     (range (\<lambda>i :: u32. ''No activity for subscriptions: '' @ to_string i))"

definition told :: "'v backend \<Rightarrow> 'v backend \<Rightarrow> bool" where
  "told s t \<longleftrightarrow> pending_items (items t) = [] \<and>
     (\<exists>m \<in> loss_messages. \<forall>a. notifications (accessors t a) = notifications (accessors s a) @
        replicate (pending_count (items s) a) (Pushed_exception m))"

abbreviation untouched :: "'v backend \<Rightarrow> 'v backend \<Rightarrow> bool" where
  "untouched s t \<equiv> run t = run s \<and> accessors t = accessors s \<and> items t = items s"

lemma pending_deactivated:
  "pending_items d = [] \<Longrightarrow> pending_items (map (\<lambda>(p, item). (p, if P p then item\<lparr>item_active := False\<rparr> else item)) d) = []"
  by (induction d) (auto simp: pending_items_def split: if_splits)

lemma pending_marked: "pending_items (map (\<lambda>(p, item). (p, mark_exception item)) d) = []"
  by (induction d) (auto simp: pending_items_def mark_exception_def)

lemma report_tells:
  assumes wf: "wf_manager s" and m: "m \<in> loss_messages"
  shows "post (\<lambda>t. \<not> run t \<and> told s t) (deactivateAllAndPushException True d m s)"
proof -
  let ?h = "handleException m s"
  from wf have "distinct (map fst (items s))" by (simp add: wf_manager_def wf_items_def)
  note h = handleException_eq [OF this, of m]
  have "pending_items (items ?h) = []" by (simp add: h pending_marked)
  from pending_deactivated [OF this] m
  show ?thesis
    unfolding deactivateAllAndPushException_def deactivate_def
      deactivate_items_wf [OF wf_manager_skel [OF skel_handleException wf]] seq.simps Let_def
    by (auto simp: told_def) (auto simp: h)
qed

lemma callback_tells:
  assumes "wf_manager s" and "no_value e" and "run s"
  shows "post (\<lambda>t. if run t then untouched s t else told s t) (client_callback e s)"
proof -
  have *: "post (\<lambda>t. if run t then untouched s t else told s t) (seq (deactivateAllAndPushException True d m (s\<lparr>conn := c\<rparr>)) f)"
    if m: "m \<in> loss_messages" and f: "\<And>t. post (\<lambda>u. untouched t u) (f t)" for d m c f
  proof (rule post_seqI)
    have "wf_manager (s\<lparr>conn := c\<rparr>)" using assms(1) by (simp add: wf_manager_def)
    from report_tells [OF this m, of d]
    show "post (\<lambda>t. \<not> run t \<and> told s t) (deactivateAllAndPushException True d m (s\<lparr>conn := c\<rparr>))"
      by (simp add: told_def)
    fix t
    assume "\<not> run t \<and> told s t"
    then show "post (\<lambda>t. if run t then untouched s t else told s t) (f t)"
      by (intro post_mono [OF f]) (simp add: told_def)
  qed simp
  have m: "''Client session is not open any more.'' \<in> loss_messages"
    "''No activity for subscriptions: '' @ to_string i \<in> loss_messages" for i :: u32
    unfolding loss_messages_def by blast+
  from assms(2,3) show ?thesis
    using * [OF m(1), where f = Done] * [OF m(2), where c = "conn s"]
    by (cases e) (auto simp: stateCallback_def inactivityCallback_def deleteSubscriptionCallback_def
        setInactive_def Let_def)
qed

lemma callback_silent:
  "no_value e \<Longrightarrow> \<not> run s \<Longrightarrow> post (untouched s) (client_callback e s)"
  by (cases e) (auto simp: stateCallback_def inactivityCallback_def deleteSubscriptionCallback_def
      setInactive_def Let_def)

lemma callbacks_silent:
  "list_all no_value es \<Longrightarrow> \<not> run s \<Longrightarrow> post (untouched s) (run_all client_callback es s)"
proof (induction es arbitrary: s)
  case (Cons e es)
  then show ?case
    by (simp, intro post_seqI [OF callback_silent]) (auto intro: post_mono [OF Cons.IH])
qed simp

lemma callbacks_tell:
  "wf_manager s \<Longrightarrow> list_all no_value es \<Longrightarrow>
   post (\<lambda>t. if run t = run s then untouched s t else told s t) (run_all client_callback es s)"
proof (induction es arbitrary: s)
  case (Cons e es)
  show ?case
  proof (cases "run s")
    case True
    have "post wf_manager (client_callback e s)"
      by (rule post_mono [OF client.cb_skel]) (rule wf_manager_skel [OF _ Cons.prems(1)])
    then have first: "post (\<lambda>t. wf_manager t \<and> (if run t then untouched s t else told s t)) (client_callback e s)"
      using callback_tells [of s e] Cons.prems True by (simp add: post_conj)
    have rest: "post (\<lambda>t. if run t = run s then untouched s t else told s t) (run_all client_callback es t)"
      if "wf_manager t \<and> (if run t then untouched s t else told s t)" for t
    proof (cases "run t")
      case True
      with that Cons.IH [of t] Cons.prems(2) show ?thesis
        by (auto simp: told_def \<open>run s\<close> elim!: post_mono split: if_splits)
    next
      case False
      with that show ?thesis
        by (intro post_mono [OF callbacks_silent]) (use Cons.prems(2) \<open>run s\<close> in \<open>auto simp: told_def\<close>)
    qed
    show ?thesis
      unfolding run_all.simps
      by (rule post_seqI [OF first]) (rule rest, assumption, use True in \<open>simp split: if_splits\<close>)
  next
    case False
    with callbacks_silent [OF Cons.prems(2) False] show ?thesis by (auto elim!: post_mono)
  qed
qed simp

text \<open>
  C16: When a transfer fails and the framework then reports the failure to the backend, asynchronous
  reading is off and every active item that has not reported an exception yet hands exactly one to each of its
  accessors, except the item of the register that failed: also its other accessors, which saw no
  error themselves, are told nothing. The message is that of the callback that reported the loss if one did
  while the connection was closed, and otherwise that another accessor reported an exception. The
  callbacks in question are any that bring no value.
\<close>

theorem transfer_error_spreads:
  assumes "reachable s" and "has_manager s" and "list_all no_value es"
  shows "\<exists>t u m. handleError es name node retval status_name s =
      Throws (Runtime_error (error_text node status_name retval)) t \<and>
    setExceptionImpl d t = Done u \<and> \<not> asyncReadActive u \<and> \<not> run u \<and>
    (if run t = run s then m = ''Exception reported by another accessor.'' else m \<in> loss_messages) \<and>
    (\<forall>a. notifications (accessors u a) = notifications (accessors s a) @ replicate
       (pending_count (filter (\<lambda>(p, item). browseName item \<noteq> name) (items s)) a) (Pushed_exception m))"
proof -
  let ?c = "add_call Client_disconnect (mark_external name s)"
  let ?m = "''Exception reported by another accessor.''"
  let ?N = "\<lambda>a. pending_count (filter (\<lambda>(p, item). browseName item \<noteq> name) (items s)) a"
  have inv: "backend_inv s" by (rule reachable_inv [OF assms(1)])
  then have inv_c: "backend_inv ?c" using mark_external_inv [OF inv] by simp
  then have wc: "wf_manager ?c" by (simp add: backend_inv_def)
  have wf: "wf_manager s" using inv by (simp add: backend_inv_def)
  have c: "has_manager ?c" "accessors ?c = accessors s" "run ?c = run s"
    "items ?c = map (\<lambda>(p, item). (p, mark_named name item)) (items s)"
    using assms(2) setExternalError_marks [OF wf, of name]
    by (simp_all add: mark_external_def add_call_def skel_more_eq(2) [OF skel_setExternalError])
      (simp add: setExternalError_def modify_item_def split: option.split)
  obtain t where t: "run_all client_callback es ?c = Done t"
    using callbacks_return [OF inv_c] c(1) by blast
  have sk: "skel t = skel ?c" using client.cbs_skel [of ?c es] t by simp
  have wt: "wf_manager t" by (rule wf_manager_skel [OF sk wc])
  have mt: "has_manager t" using skel_more_eq(2) [OF sk] c(1) by blast
  have split: "if run t = run s then untouched ?c t else told ?c t"
    using callbacks_tell [OF wc assms(3)] t c(3) by simp
  let ?h = "handleException ?m t"
  have wh: "wf_manager ?h" using wf_manager_skel [OF skel_handleException wt] .
  have "\<exists>u. deactivate False d ?h = Done u"
    by (simp add: deactivate_def deactivate_items_wf [OF wh] Let_def)
  then obtain u where u: "deactivate False d ?h = Done u" ..
  with mt have "setExceptionImpl d t = Done u"
    by (simp add: setExceptionImpl_def deactivateAllAndPushException_def)
  moreover have "handleError es name node retval status_name s =
      Throws (Runtime_error (error_text node status_name retval)) t"
    using t by (simp add: handleError_def close_connection_def)
  moreover have "distinct (map fst (items t))" using wt by (simp add: wf_manager_def wf_items_def)
  note h = handleException_eq [OF this, of ?m]
  have "\<exists>m. (if run t = run s then m = ?m else m \<in> loss_messages) \<and>
      (\<forall>a. notifications (accessors ?h a) = notifications (accessors s a) @ replicate (?N a) (Pushed_exception m))"
  proof (cases "run t = run s")
    case True
    with split c show ?thesis by (simp add: h pending_mark_named)
  next
    case False
    with split have "told ?c t" by simp
    then obtain m where "m \<in> loss_messages" and zero: "\<And>a. pending_count (items t) a = 0"
      and "\<forall>a. notifications (accessors t a) = notifications (accessors s a) @ replicate (?N a) (Pushed_exception m)"
      unfolding told_def c(2,4) pending_mark_named by (auto simp: pending_count_def)
    with False show ?thesis by (intro exI [of _ m]) (simp add: h)
  qed
  moreover note deactivate_silences_facts [OF wh u]
  ultimately show ?thesis by auto
qed

text \<open>The failing register is that of the item \<open>b\<close>, whose accessor 2 waits for data; a state callback runs while
  the connection is closed.\<close>

theorem transfer_error_spreads_witness:
  "\<exists>t u m. handleError [State_changed Channel_open Session_activated] ''b'' ''b'' 0x80AE0000 ''Bad'' busy_backend =
     Throws (Runtime_error (error_text ''b'' ''Bad'' 0x80AE0000)) t \<and> setExceptionImpl False t = Done u \<and>
     notifications (accessors u 2) = [] \<and> notifications (accessors u 3) = [Pushed_exception m]"
proof -
  let ?d = "filter (\<lambda>(p, item). browseName item \<noteq> ''b'') (items busy_backend)"
  have "has_manager busy_backend" "list_all no_value [State_changed Channel_open Session_activated]"
    "pending_count ?d 2 = 0" "pending_count ?d 3 = 1"
    "notifications (accessors busy_backend a) = []" for a
    by (simp_all add: busy_backend_def active_backend_def opened_backend_def blank_backend_def
        busy_item_def pending_count_def pending_items_def)
  with transfer_error_spreads [OF reachable_busy this(1,2), of "''b''" "''b''" "0x80AE0000" "''Bad''" False]
  show ?thesis by (elim exE conjE) (rule exI, rule exI, rule exI, auto)
qed

end
