(* ===== verification/Lock_Programs.thy ===== *)
theory Lock_Programs
  imports Prelude
begin

text \<open>
  Programs reduced to what they do with the mutexes of the backend: which they acquire and
  release, in which order, and which shared objects they use meanwhile. Branches and loops are
  nondeterministic. A check on the syntax shows that mutexes are only acquired in the order of their
  rank; threads that run such programs never wait for each other in a circle.
\<close>

section \<open>Mutexes and programs\<close>

text \<open>\<open>Client_life\<close> is held by the client thread from its start to its end: joining the thread is
  acquiring and releasing it. \<open>Data_lock a\<close> is the \<open>dataUpdateLock\<close> of the accessor \<open>a\<close>.\<close>

datatype mutex = Async_read | Client_life | Client_lock | Item_lock | Data_lock nat | Version_lock

fun rank :: "mutex \<Rightarrow> nat" where
  "rank Async_read = 0"
| "rank Client_life = 1"
| "rank Client_lock = 2"
| "rank Item_lock = 3"
| "rank (Data_lock a) = 4"
| "rank Version_lock = 4"

text \<open>The client of open62541, the items of the manager with their map, the data of an accessor.
  \<open>Bare r\<close> is an access to \<open>r\<close> that the code makes without the mutex meant for it.\<close>

datatype resource = Library | Registry | Latest nat

datatype action = Acquire mutex | Release mutex | Use resource | Bare resource

text \<open>\<open>Guard m c\<close> is a scope with an \<open>std::lock_guard\<close>, which releases the mutex also when an
  exception leaves the scope; \<open>Raise\<close> throws one.\<close>

datatype cmd =
    Nop
  | Act action
  | Raise
  | Then cmd cmd
  | Either cmd cmd
  | Repeat cmd
  | Guard mutex cmd

text \<open>The executions of a program: the actions, and whether an exception leaves it.\<close>

inductive exec :: "cmd \<Rightarrow> action list \<Rightarrow> bool \<Rightarrow> bool" where
  Nop: "exec Nop [] False"
| Act: "exec (Act a) [a] False"
| Raise: "exec Raise [] True"
| Then: "exec c xs False \<Longrightarrow> exec d ys r \<Longrightarrow> exec (Then c d) (xs @ ys) r"
| Then_raise: "exec c xs True \<Longrightarrow> exec (Then c d) xs True"
| Left: "exec c xs r \<Longrightarrow> exec (Either c d) xs r"
| Right: "exec d xs r \<Longrightarrow> exec (Either c d) xs r"
| Stop: "exec (Repeat c) [] False"
| Again: "exec c xs False \<Longrightarrow> exec (Repeat c) ys r \<Longrightarrow> exec (Repeat c) (xs @ ys) r"
| Repeat_raise: "exec c xs True \<Longrightarrow> exec (Repeat c) xs True"
| Guard: "exec c xs r \<Longrightarrow> exec (Guard m c) (Acquire m # xs @ [Release m]) r"

text \<open>The execution that takes the given branches, found by evaluation: the next choice decides a
  branch or another round of a loop; the first argument bounds the depth.\<close>

fun branches :: "nat \<Rightarrow> cmd \<Rightarrow> bool list \<Rightarrow> (action list \<times> bool \<times> bool list) option" where
  "branches 0 c bs = None"
| "branches (Suc n) Nop bs = Some ([], False, bs)"
| "branches (Suc n) (Act a) bs = Some ([a], False, bs)"
| "branches (Suc n) Raise bs = Some ([], True, bs)"
| "branches (Suc n) (Then c d) bs =
     (case branches n c bs of
        None \<Rightarrow> None
      | Some (xs, True, bs1) \<Rightarrow> Some (xs, True, bs1)
      | Some (xs, False, bs1) \<Rightarrow>
          (case branches n d bs1 of None \<Rightarrow> None | Some (ys, r, bs2) \<Rightarrow> Some (xs @ ys, r, bs2)))"
| "branches (Suc n) (Either c d) [] = None"
| "branches (Suc n) (Either c d) (b # bs) = branches n (if b then c else d) bs"
| "branches (Suc n) (Repeat c) [] = None"
| "branches (Suc n) (Repeat c) (b # bs) =
     (if b then branches n (Then c (Repeat c)) bs else Some ([], False, bs))"
| "branches (Suc n) (Guard m c) bs =
     (case branches n c bs of
        None \<Rightarrow> None | Some (xs, r, bs1) \<Rightarrow> Some (Acquire m # xs @ [Release m], r, bs1))"

lemma exec_unfold_Repeat: "exec (Then c (Repeat c)) xs r \<Longrightarrow> exec (Repeat c) xs r"
  by (erule exec.cases) (auto intro: Again Repeat_raise)

lemma branches_exec: "branches n c bs = Some (xs, r, bs') \<Longrightarrow> exec c xs r"
proof (induction n c bs arbitrary: xs r bs' rule: branches.induct)
  case (9 n c b bs)
  then show ?case
    by (cases b) (auto intro: exec.intros exec_unfold_Repeat)
qed (auto intro: exec.intros split: option.splits prod.splits bool.splits if_splits)

section \<open>The order of the mutexes\<close>

text \<open>What a thread holds after an action; \<open>None\<close> when the action is not allowed: a mutex of no
  higher rank than one that is held, a mutex released that is not held, a resource used
  without the mutexes the policy asks for.\<close>

type_synonym policy = "resource \<Rightarrow> mutex list \<Rightarrow> bool"

fun advance :: "policy \<Rightarrow> action \<Rightarrow> mutex list \<Rightarrow> mutex list option" where
  "advance p (Acquire m) H = (if list_all (\<lambda>h. rank h < rank m) H then Some (m # H) else None)"
| "advance p (Release m) H = (if m \<in> set H then Some (remove1 m H) else None)"
| "advance p (Use r) H = (if p r H then Some H else None)"
| "advance p (Bare r) H = Some H"

primrec follow :: "policy \<Rightarrow> action list \<Rightarrow> mutex list \<Rightarrow> mutex list option" where
  "follow p [] H = Some H"
| "follow p (a # as) H = (case advance p a H of None \<Rightarrow> None | Some H' \<Rightarrow> follow p as H')"

text \<open>What is held when a program returns and when an exception leaves it, \<open>None\<close> for a way of
  ending that cannot occur.\<close>

fun agree :: "'a option \<Rightarrow> 'a option \<Rightarrow> 'a option option" where
  "agree None y = Some y"
| "agree x None = Some x"
| "agree (Some a) (Some b) = (if a = b then Some (Some a) else None)"

type_synonym exits = "mutex list option \<times> mutex list option"

definition agree_exits :: "exits \<Rightarrow> exits \<Rightarrow> exits option" where
  "agree_exits x y =
     (case (agree (fst x) (fst y), agree (snd x) (snd y)) of
        (Some n, Some r) \<Rightarrow> Some (n, r) | _ \<Rightarrow> None)"

definition release_exit :: "mutex \<Rightarrow> mutex list option \<Rightarrow> mutex list option option" where
  "release_exit m x =
     (case x of None \<Rightarrow> Some None
      | Some H \<Rightarrow> if m \<in> set H then Some (Some (remove1 m H)) else None)"

primrec check :: "policy \<Rightarrow> cmd \<Rightarrow> mutex list \<Rightarrow> exits option" where
  "check p Nop H = Some (Some H, None)"
| "check p (Act a) H = (case advance p a H of None \<Rightarrow> None | Some H' \<Rightarrow> Some (Some H', None))"
| "check p Raise H = Some (None, Some H)"
| "check p (Then c d) H =
     (case check p c H of
        None \<Rightarrow> None
      | Some (None, r) \<Rightarrow> Some (None, r)
      | Some (Some H1, r) \<Rightarrow>
          (case check p d H1 of None \<Rightarrow> None | Some x \<Rightarrow> agree_exits (None, r) x))"
| "check p (Either c d) H =
     (case (check p c H, check p d H) of (Some x, Some y) \<Rightarrow> agree_exits x y | _ \<Rightarrow> None)"
| "check p (Repeat c) H =
     (case check p c H of
        None \<Rightarrow> None
      | Some x \<Rightarrow> if fst x = None \<or> fst x = Some H then Some (Some H, snd x) else None)"
| "check p (Guard m c) H =
     (case advance p (Acquire m) H of
        None \<Rightarrow> None
      | Some H1 \<Rightarrow>
          (case check p c H1 of
             None \<Rightarrow> None
           | Some (n, r) \<Rightarrow>
               (case (release_exit m n, release_exit m r) of
                  (Some n', Some r') \<Rightarrow> Some (n', r') | _ \<Rightarrow> None)))"

definition exit_of :: "bool \<Rightarrow> exits \<Rightarrow> mutex list option" where
  "exit_of r x = (if r then snd x else fst x)"

lemma exit_of_simps [simp]: "exit_of True x = snd x" "exit_of False x = fst x"
  by (simp_all add: exit_of_def)

lemma follow_append:
  "follow p (xs @ ys) H = (case follow p xs H of None \<Rightarrow> None | Some H' \<Rightarrow> follow p ys H')"
  by (induction xs arbitrary: H) (auto split: option.split)

lemma agree_Some: "agree x y = Some z \<Longrightarrow> x = Some a \<or> y = Some a \<Longrightarrow> z = Some a"
  by (cases "(x, y)" rule: agree.cases) (auto split: if_splits)

lemma agree_exits_Some:
  "agree_exits x y = Some z \<Longrightarrow> exit_of r x = Some a \<or> exit_of r y = Some a \<Longrightarrow> exit_of r z = Some a"
  by (auto simp: agree_exits_def exit_of_def split: option.splits if_splits dest: agree_Some)

text \<open>The check is sound: every execution follows the order and ends with what the check tells.\<close>

theorem check_sound:
  "exec c xs r \<Longrightarrow> check p c H = Some x \<Longrightarrow> \<exists>H'. follow p xs H = Some H' \<and> exit_of r x = Some H'"
proof (induction arbitrary: H x rule: exec.induct)
  case (Then c xs d ys r)
  from Then.prems obtain n e where c: "check p c H = Some (n, e)" by (auto split: option.splits)
  from Then.IH(1) [OF this] obtain H1 where H1: "follow p xs H = Some H1" "n = Some H1" by auto
  with Then.prems c obtain y where y: "check p d H1 = Some y" "agree_exits (None, e) y = Some x"
    by (auto split: option.splits)
  from Then.IH(2) [OF y(1)] obtain H2 where "follow p ys H1 = Some H2" "exit_of r y = Some H2" by auto
  with H1 agree_exits_Some [OF y(2)] show ?case by (auto simp: follow_append)
next
  case (Then_raise c xs d)
  from Then_raise.prems obtain n e where c: "check p c H = Some (n, e)" by (auto split: option.splits)
  from Then_raise.IH [OF this] obtain H1 where "follow p xs H = Some H1" "e = Some H1" by auto
  with Then_raise.prems c show ?case
    using agree_exits_Some [of "(None, e)" _ x True] by (auto split: option.splits)
next
  case (Left c xs r d)
  from Left.prems obtain y z where "check p c H = Some y" "agree_exits y z = Some x"
    by (auto split: option.splits)
  with Left.IH agree_exits_Some show ?case by metis
next
  case (Right d xs r c)
  from Right.prems obtain y z where "check p d H = Some z" "agree_exits y z = Some x"
    by (auto split: option.splits)
  with Right.IH agree_exits_Some show ?case by metis
next
  case (Again c xs ys r)
  from Again.prems obtain y where y: "check p c H = Some y" "fst y = None \<or> fst y = Some H"
    by (auto split: option.splits if_splits)
  from Again.IH(1) [OF y(1)] y(2) have "follow p xs H = Some H" by auto
  with Again.IH(2) [OF Again.prems] show ?case by (auto simp: follow_append)
next
  case (Repeat_raise c xs)
  from Repeat_raise.prems obtain y where "check p c H = Some y" "snd x = snd y"
    by (auto split: option.splits if_splits)
  with Repeat_raise.IH show ?case by fastforce
next
  case (Guard c xs r m)
  from Guard.prems obtain n e n' e' where c: "advance p (Acquire m) H = Some (m # H)"
    "check p c (m # H) = Some (n, e)"
    and x: "release_exit m n = Some n'" "release_exit m e = Some e'" "x = (n', e')"
    by (auto split: option.splits if_splits)
  from Guard.IH [OF c(2)] obtain H1 where "follow p xs (m # H) = Some H1" "exit_of r (n, e) = Some H1"
    by auto
  with c(1) x show ?case
    by (cases r) (auto simp: follow_append release_exit_def split: option.splits if_splits)
qed (auto split: option.splits if_splits)


text \<open>An operation is well locked when it starts and ends without a mutex, also by an exception.\<close>

definition well_locked :: "policy \<Rightarrow> cmd \<Rightarrow> bool" where
  "well_locked p c =
     (case check p c [] of None \<Rightarrow> False
      | Some (n, r) \<Rightarrow> (n = None \<or> n = Some []) \<and> (r = None \<or> r = Some []))"

lemma well_locked_follow: "well_locked p c \<Longrightarrow> exec c xs r \<Longrightarrow> follow p xs [] = Some []"
  using check_sound [of c xs r p "[]"]
  by (cases r) (fastforce simp: well_locked_def split: option.splits)+

section \<open>Threads\<close>

text \<open>A thread is what it still has to do and the mutexes it holds. An idle thread may begin any
  operation; a thread that has something left takes its next step when nobody holds the mutex it
  asks for, itself included: the mutexes are not recursive.\<close>

type_synonym threads = "nat \<Rightarrow> action list \<times> mutex list"

abbreviation todo :: "threads \<Rightarrow> nat \<Rightarrow> action list" where "todo s t \<equiv> fst (s t)"
abbreviation held :: "threads \<Rightarrow> nat \<Rightarrow> mutex list" where "held s t \<equiv> snd (s t)"

definition idle :: threads where "idle = (\<lambda>t. ([], []))"

primrec held_after :: "action \<Rightarrow> mutex list \<Rightarrow> mutex list" where
  "held_after (Acquire m) H = m # H"
| "held_after (Release m) H = remove1 m H"
| "held_after (Use r) H = H"
| "held_after (Bare r) H = H"

definition ready :: "threads \<Rightarrow> action \<Rightarrow> bool" where
  "ready s a \<longleftrightarrow> (\<forall>m u. a = Acquire m \<longrightarrow> m \<notin> set (held s u))"

inductive move :: "threads \<Rightarrow> threads \<Rightarrow> bool" where
  move: "s t = (a # xs, H) \<Longrightarrow> ready s a \<Longrightarrow> move s (s(t := (xs, held_after a H)))"

inductive running :: "cmd set \<Rightarrow> threads \<Rightarrow> bool" for ops where
  start: "running ops idle"
| begin_operation: "running ops s \<Longrightarrow> s t = ([], H) \<Longrightarrow> c \<in> ops \<Longrightarrow> exec c xs r \<Longrightarrow> running ops (s(t := (xs, H)))"
| step: "running ops s \<Longrightarrow> move s s' \<Longrightarrow> running ops s'"

inductive_cases moveE: "move s s'"

lemma running_move:
  "running ops s \<Longrightarrow> s t = (a # xs, H) \<Longrightarrow> ready s a \<Longrightarrow> running ops (s(t := (xs, held_after a H)))"
  by (blast intro: step move)

lemma running_begin:
  "running ops s \<Longrightarrow> s t = ([], H) \<Longrightarrow> c \<in> ops \<Longrightarrow> branches n c bs = Some (xs, r, bs') \<Longrightarrow>
     running ops (s(t := (xs, H)))"
  by (rule begin_operation, assumption+) (rule branches_exec)

lemma ready_simps [simp]:
  "ready s (Release m)" "ready s (Use r)" "ready s (Bare r)"
  "ready s (Acquire m) \<longleftrightarrow> (\<forall>u. m \<notin> set (held s u))"
  by (simp_all add: ready_def)

lemma advance_held_after: "advance p a H = Some H' \<Longrightarrow> H' = held_after a H"
  by (cases a) (auto split: if_splits)

subsection \<open>What holds for all threads\<close>

text \<open>Every thread still follows the order and ends without a mutex, no two threads hold the same
  mutex, and only finitely many threads have something left.\<close>

definition disciplined :: "policy \<Rightarrow> threads \<Rightarrow> bool" where
  "disciplined p s \<longleftrightarrow>
     (\<forall>t. follow p (todo s t) (held s t) = Some []) \<and>
     (\<forall>t u. t \<noteq> u \<longrightarrow> set (held s t) \<inter> set (held s u) = {}) \<and>
     finite {t. todo s t \<noteq> []}"

lemma disciplinedD:
  assumes "disciplined p s"
  shows "follow p (todo s t) (held s t) = Some []"
    and "t \<noteq> u \<Longrightarrow> m \<in> set (held s t) \<Longrightarrow> m \<notin> set (held s u)"
    and "finite {t. todo s t \<noteq> []}"
    and "s t = (a # xs, H) \<Longrightarrow> advance p a H = Some (held_after a H)"
    and "s t = (a # xs, H) \<Longrightarrow> follow p xs (held_after a H) = Some []"
proof -
  show f: "follow p (todo s t) (held s t) = Some []" and "finite {t. todo s t \<noteq> []}" for t
    using assms by (simp_all add: disciplined_def)
  show "m \<notin> set (held s u)" if "t \<noteq> u" "m \<in> set (held s t)"
    using assms that by (auto simp: disciplined_def)
  assume "s t = (a # xs, H)"
  with f [of t] obtain H' where "advance p a H = Some H'" "follow p xs H' = Some []"
    by (auto split: option.splits)
  with advance_held_after show "advance p a H = Some (held_after a H)"
    "follow p xs (held_after a H) = Some []" by auto
qed

lemma disciplined_idle: "disciplined p idle"
  by (simp add: disciplined_def idle_def)

lemma disciplined_begin:
  assumes "disciplined p s" "s t = ([], H)" "follow p xs [] = Some []"
  shows "disciplined p (s(t := (xs, H)))"
proof -
  have "H = []" using disciplinedD(1) [OF assms(1), of t] assms(2) by simp
  moreover have "{u. fst ((s(t := (xs, H))) u) \<noteq> []} \<subseteq> insert t {u. todo s u \<noteq> []}" by auto
  then have "finite {u. fst ((s(t := (xs, H))) u) \<noteq> []}"
    by (rule finite_subset) (simp add: disciplinedD(3) [OF assms(1)])
  ultimately show ?thesis using assms by (simp add: disciplined_def)
qed

lemma disciplined_move:
  assumes d: "disciplined p s" and "move s s'"
  shows "disciplined p s'"
  using assms(2)
proof (rule moveE)
  fix t a xs H
  assume s': "s' = s(t := (xs, held_after a H))" and t: "s t = (a # xs, H)" and r: "ready s a"
  have "{u. todo s' u \<noteq> []} \<subseteq> {u. todo s u \<noteq> []}" using s' t by auto
  then have "finite {u. todo s' u \<noteq> []}" by (rule finite_subset) (rule disciplinedD(3) [OF d])
  moreover have "set (held_after a H) \<inter> set (held s u) = {}" if "u \<noteq> t" for u
    using disciplinedD(2) [OF d that [symmetric]] t r by (cases a) (auto dest: notin_set_remove1)
  ultimately show ?thesis
    using d s' t disciplinedD(5) [OF d t] by (auto simp: disciplined_def)
qed

theorem running_disciplined:
  assumes "\<And>c. c \<in> ops \<Longrightarrow> well_locked p c"
  shows "running ops s \<Longrightarrow> disciplined p s"
proof (induction rule: running.induct)
  case (begin_operation s t H c xs r)
  then show ?case using disciplined_begin well_locked_follow [OF assms] by blast
qed (auto intro: disciplined_idle disciplined_move)


subsection \<open>Progress\<close>

text \<open>A thread with something left can move, or waits for a thread that holds a mutex of higher
  rank than any it holds itself.\<close>

definition waits_for :: "threads \<Rightarrow> nat \<Rightarrow> nat \<Rightarrow> bool" where
  "waits_for s t u \<longleftrightarrow> (\<exists>m xs. todo s t = Acquire m # xs \<and> m \<in> set (held s u))"

definition can_move :: "threads \<Rightarrow> nat \<Rightarrow> bool" where
  "can_move s t \<longleftrightarrow> (\<exists>a xs. todo s t = a # xs \<and> ready s a)"

primrec wanted :: "action list \<Rightarrow> nat" where
  "wanted [] = 0"
| "wanted (a # xs) = (case a of Acquire m \<Rightarrow> rank m | _ \<Rightarrow> 0)"

lemma rank_bound: "rank m < 5"
  by (cases m) simp_all

lemma blocked_waits:
  assumes d: "disciplined p s" and t: "todo s t \<noteq> []" "\<not> can_move s t"
  obtains u where "waits_for s t u" "todo s u \<noteq> []"
    "can_move s u \<or> wanted (todo s t) < wanted (todo s u)"
proof -
  from t obtain m xs where m: "todo s t = Acquire m # xs" and "\<not> ready s (Acquire m)"
    by (cases "todo s t"; cases "hd (todo s t)") (auto simp: can_move_def)
  then obtain u where u: "m \<in> set (held s u)" by auto
  then have todo: "todo s u \<noteq> []" using disciplinedD(1) [OF d, of u] by auto
  have "can_move s u \<or> wanted (todo s t) < wanted (todo s u)"
  proof (rule disjCI [THEN disj_commute [THEN iffD1]])
    assume "\<not> can_move s u"
    with todo obtain n ys where n: "todo s u = Acquire n # ys"
      by (cases "todo s u"; cases "hd (todo s u)") (auto simp: can_move_def)
    then have "list_all (\<lambda>h. rank h < rank n) (held s u)"
      using disciplinedD(1) [OF d, of u] by (auto split: if_splits)
    with u m n show "wanted (todo s t) < wanted (todo s u)" by (auto simp: list_all_iff)
  qed
  with u m todo that show ?thesis by (auto simp: waits_for_def)
qed

theorem progress:
  assumes "disciplined p s"
  shows "todo s t \<noteq> [] \<Longrightarrow> \<exists>u. (waits_for s)\<^sup>*\<^sup>* t u \<and> can_move s u"
proof (induction "5 - wanted (todo s t)" arbitrary: t rule: less_induct)
  case less
  have bound: "wanted xs < 5" for xs
    using rank_bound by (cases xs) (auto split: action.split)
  show ?case
  proof (cases "can_move s t")
    case False
    obtain u where u: "waits_for s t u" "todo s u \<noteq> []"
      "can_move s u \<or> wanted (todo s t) < wanted (todo s u)"
      using blocked_waits [OF assms less.prems False] .
    from u(3) show ?thesis
    proof
      assume "wanted (todo s t) < wanted (todo s u)"
      then have "5 - wanted (todo s u) < 5 - wanted (todo s t)" using bound [of "todo s u"] by simp
      from less.hyps [OF this u(2)] u(1) show ?thesis by (meson converse_rtranclp_into_rtranclp)
    qed (use u(1) in blast)
  qed blast
qed

lemma can_moveD:
  assumes "can_move s t"
  shows "\<exists>s'. move s s' \<and> length (todo s' t) < length (todo s t) \<and> (\<forall>u. u \<noteq> t \<longrightarrow> s' u = s u)"
proof -
  from assms obtain a xs where a: "s t = (a # xs, held s t)" "ready s a"
    by (auto simp: can_move_def prod_eq_iff)
  from move.intros [OF this] a(1) [THEN arg_cong [where f = fst]] show ?thesis
    by (intro exI [of _ "s(t := (xs, held_after a (held s t)))"]) simp
qed

text \<open>So the operations that have begun can all be finished, by steps of theirs alone.\<close>

theorem all_can_finish:
  "disciplined p s \<Longrightarrow> move\<^sup>*\<^sup>* s idle"
proof (induction "\<Sum>t | todo s t \<noteq> []. length (todo s t)" arbitrary: s rule: less_induct)
  case less
  let ?A = "{t. todo s t \<noteq> []}"
  note fin = disciplinedD(3) [OF less.prems]
  show ?case
  proof (cases "?A = {}")
    case True
    then have "s t = ([], [])" for t
      using disciplinedD(1) [OF less.prems, of t] by (auto simp: prod_eq_iff)
    then have "s = idle" by (auto simp: idle_def)
    then show ?thesis by simp
  next
    case False
    then obtain u where u: "can_move s u" using progress [OF less.prems] by blast
    then obtain s' where m: "move s s'" and l: "length (todo s' u) < length (todo s u)"
      and o: "\<forall>v. v \<noteq> u \<longrightarrow> s' v = s v" using can_moveD by blast
    have uA: "u \<in> ?A" using l by auto
    have "(\<Sum>t | todo s' t \<noteq> []. length (todo s' t)) \<le> (\<Sum>t\<in>?A. length (todo s' t))"
    proof (rule sum_mono2 [OF fin])
      show "{t. todo s' t \<noteq> []} \<subseteq> ?A" using o uA by force
    qed simp
    also have "\<dots> < (\<Sum>t\<in>?A. length (todo s t))"
      using o l uA by (intro sum_strict_mono_ex1 [OF fin]) (auto, metis less_or_eq_imp_le order_refl)
    finally show ?thesis
      using less.hyps disciplined_move [OF less.prems m] m by (meson converse_rtranclp_into_rtranclp)
  qed
qed

text \<open>Two threads cannot both be about to use a resource the policy ties to a mutex. An access that the code makes
  without the mutex is not a use.\<close>

definition about_to_use :: "threads \<Rightarrow> nat \<Rightarrow> resource \<Rightarrow> bool" where
  "about_to_use s t r \<longleftrightarrow> (\<exists>xs. todo s t = Use r # xs)"

definition about_to_access_unlocked :: "threads \<Rightarrow> nat \<Rightarrow> resource \<Rightarrow> bool" where
  "about_to_access_unlocked s t r \<longleftrightarrow> (\<exists>xs. todo s t = Bare r # xs)"

definition about_to_access :: "threads \<Rightarrow> nat \<Rightarrow> resource \<Rightarrow> bool" where
  "about_to_access s t r \<longleftrightarrow> about_to_use s t r \<or> about_to_access_unlocked s t r"

theorem uses_exclusive:
  assumes "disciplined p s" "\<And>H. p r H \<Longrightarrow> m \<in> set H"
    and "about_to_use s t r" "about_to_use s u r"
  shows "t = u"
proof (rule ccontr)
  assume "t \<noteq> u"
  have "m \<in> set (held s v)" if "about_to_use s v r" for v
    using disciplinedD(1) [OF assms(1), of v] that assms(2)
    by (auto simp: about_to_use_def split: if_splits)
  with assms(3,4) disciplinedD(2) [OF assms(1) \<open>t \<noteq> u\<close>] show False by blast
qed

text \<open>What a program accesses without the mutex, and that nothing else of the kind is ever executed.\<close>

primrec unlocked :: "cmd \<Rightarrow> resource set" where
  "unlocked Nop = {}"
| "unlocked (Act a) = (case a of Bare r \<Rightarrow> {r} | _ \<Rightarrow> {})"
| "unlocked Raise = {}"
| "unlocked (Then c d) = unlocked c \<union> unlocked d"
| "unlocked (Either c d) = unlocked c \<union> unlocked d"
| "unlocked (Repeat c) = unlocked c"
| "unlocked (Guard m c) = unlocked c"

lemma exec_unlocked: "exec c xs e \<Longrightarrow> Bare r \<in> set xs \<Longrightarrow> r \<in> unlocked c"
  by (induction rule: exec.induct) auto

lemma running_unlocked:
  "running ops s \<Longrightarrow> Bare r \<in> set (todo s t) \<Longrightarrow> \<exists>c \<in> ops. r \<in> unlocked c"
proof (induction arbitrary: t rule: running.induct)
  case start
  then show ?case by (simp add: idle_def)
next
  case (begin_operation s u H c xs e)
  then show ?case by (cases "t = u") (auto dest: exec_unlocked)
next
  case (step s s')
  from step.hyps(2) obtain u a xs H where "s u = (a # xs, H)" "s' = s(u := (xs, held_after a H))"
    by (auto elim: moveE)
  with step.IH [of t] step.prems show ?case by (cases "t = u") auto
qed

end
