(* ===== verification/Lock_Discipline.thy ===== *)
theory Lock_Discipline
  imports Lock_Programs
begin

text \<open>
  What every operation of the backend does with its mutexes, function by function as the code has
  it. Values are left out: a condition is a choice, a loop repeats any number of times. A call into
  open62541 may run callbacks before it returns. Branches that the device model excludes are left
  out where a comment says so.
\<close>

definition skip_or :: "cmd \<Rightarrow> cmd" where
  "skip_or c = Either Nop c"

definition acquire :: "mutex \<Rightarrow> cmd" where "acquire m = Act (Acquire m)"
definition release :: "mutex \<Rightarrow> cmd" where "release m = Act (Release m)"
definition use :: "resource \<Rightarrow> cmd" where "use r = Act (Use r)"
definition bare :: "resource \<Rightarrow> cmd" where "bare r = Act (Bare r)"

section \<open>The callbacks\<close>

definition handleException_locks :: cmd where
  "handleException_locks = Guard Item_lock (Repeat (use Registry))"

definition resetMonitoredItems_locks :: cmd where
  "resetMonitoredItems_locks = Guard Item_lock (use Registry)"

text \<open>\<open>deactivate\<close> as a callback runs it. Then the thread object exists (\<open>callbacks_never_block\<close> in
  \<open>Device_Steps\<close>), so that the branch which takes the client lock is not entered.\<close>

definition deactivate_in_callback :: cmd where
  "deactivate_in_callback = Guard Item_lock (Repeat (use Registry))"

definition stateCallback_locks :: cmd where
  "stateCallback_locks = skip_or (Then handleException_locks deactivate_in_callback)"

definition inactivityCallback_locks :: cmd where
  "inactivityCallback_locks = skip_or (Then handleException_locks deactivate_in_callback)"

text \<open>It looks the item up before it takes the lock.\<close>

definition responseHandler_locks :: cmd where
  "responseHandler_locks = Then (bare Registry) (skip_or (Guard Item_lock (use Registry)))"

definition callback_locks :: cmd where
  "callback_locks = Either stateCallback_locks (Either inactivityCallback_locks (skip_or responseHandler_locks))"

definition library_call :: cmd where
  "library_call = Then (use Library) (Repeat callback_locks)"

section \<open>The subscription manager\<close>

definition removeSubscription_locks :: cmd where
  "removeSubscription_locks = Then library_call resetMonitoredItems_locks"

definition deactivate_locks :: cmd where
  "deactivate_locks =
     Then (Guard Item_lock (Repeat (use Registry))) (skip_or (Guard Client_lock removeSubscription_locks))"

definition runClient_locks :: cmd where
  "runClient_locks =
     Then (Repeat (Guard Client_lock library_call)) (Guard Client_lock (skip_or removeSubscription_locks))"

text \<open>\<open>leftover\<close>: a subscription id may be left over from before. It is removed without the client lock.\<close>

definition createSubscription_locks :: "bool \<Rightarrow> cmd" where
  "createSubscription_locks leftover =
     Then (if leftover then skip_or removeSubscription_locks else Nop)
       (Then (Guard Client_lock library_call) (skip_or Raise))"

text \<open>The item lock is locked by hand and given back around the call of the library and around the
  report of its failure.\<close>

definition addMonitoredItem_locks :: cmd where
  "addMonitoredItem_locks =
     Then (use Registry)
       (skip_or
         (Then (release Item_lock)
         (Then (Guard Client_lock library_call)
         (Then (acquire Item_lock)
           (Either (use Registry)
             (Then (release Item_lock) (Then handleException_locks (acquire Item_lock))))))))"

definition addMonitoredItems_locks :: cmd where
  "addMonitoredItems_locks =
     Then (acquire Item_lock) (Then (Repeat addMonitoredItem_locks) (release Item_lock))"

definition activate_locks :: "bool \<Rightarrow> cmd" where
  "activate_locks leftover =
     Then (skip_or (createSubscription_locks leftover))
     (Then (bare Registry)
       (Either addMonitoredItems_locks (Guard Item_lock (Repeat (use Registry)))))"

definition prepare_locks :: "bool \<Rightarrow> cmd" where
  "prepare_locks leftover = Then (createSubscription_locks leftover) addMonitoredItems_locks"

text \<open>\<open>a\<close> is the accessor whose data the new one starts with; \<open>rethrow\<close>: the front of its queue may be
  an exception, which reading the front throws. The item lock is locked by hand here as well.\<close>

definition initial_value_locks :: "bool \<Rightarrow> nat \<Rightarrow> cmd" where
  "initial_value_locks rethrow a =
     Guard (Data_lock a) (Either (skip_or (use (Latest a))) (if rethrow then skip_or Raise else Nop))"

definition subscribe_locks :: "bool \<Rightarrow> bool \<Rightarrow> nat \<Rightarrow> cmd" where
  "subscribe_locks leftover rethrow a =
     Then (acquire Item_lock)
     (Then (use Registry)
       (Either
         (Then (release Item_lock)
           (skip_or (Then (skip_or (createSubscription_locks leftover)) addMonitoredItems_locks)))
         (Then (skip_or (initial_value_locks rethrow a)) (release Item_lock))))"

text \<open>Joining the thread is waiting until it has given \<open>Client_life\<close> back.\<close>

definition stopClientThread_locks :: cmd where
  "stopClientThread_locks = skip_or (Guard Client_life Nop)"

definition unsubscribe_locks :: cmd where
  "unsubscribe_locks =
     Then (Guard Item_lock (use Registry))
       (skip_or
         (Then (Guard Client_lock library_call)
         (Then (bare Registry)
           (skip_or (Then (Guard Client_lock removeSubscription_locks) stopClientThread_locks)))))"

definition setExternalError_locks :: cmd where
  "setExternalError_locks = Then (bare Registry) (skip_or (Guard Item_lock (use Registry)))"

definition delete_manager_locks :: cmd where
  "delete_manager_locks = Then deactivate_locks stopClientThread_locks"

section \<open>The backend\<close>

definition resetClient_locks :: cmd where
  "resetClient_locks =
     Then (skip_or (Then deactivate_locks (Then resetMonitoredItems_locks stopClientThread_locks)))
       (Guard Client_lock library_call)"

definition connect_locks :: "bool \<Rightarrow> cmd" where
  "connect_locks leftover =
     Then resetClient_locks
     (Then (Guard Client_lock library_call)
       (Either Raise (skip_or (prepare_locks leftover))))"

definition open_locks :: "bool \<Rightarrow> cmd" where
  "open_locks leftover =
     Then (skip_or (Then (skip_or stopClientThread_locks) (connect_locks leftover))) (skip_or Raise)"

definition close_locks :: cmd where
  "close_locks = resetClient_locks"

definition activateAsyncRead_locks :: "bool \<Rightarrow> cmd" where
  "activateAsyncRead_locks leftover = Guard Async_read (skip_or (activate_locks leftover))"

definition setExceptionImpl_locks :: cmd where
  "setExceptionImpl_locks = skip_or (Then handleException_locks deactivate_locks)"

definition fillCatalogue_locks :: cmd where
  "fillCatalogue_locks = Guard Client_lock (Then (Repeat library_call) (skip_or Raise))"

definition construct_backend_locks :: "bool \<Rightarrow> cmd" where
  "construct_backend_locks leftover = skip_or (Then (connect_locks leftover) fillCatalogue_locks)"

definition delete_backend_locks :: cmd where
  "delete_backend_locks = skip_or close_locks"

section \<open>The accessors\<close>

definition construct_accessor_locks :: "bool \<Rightarrow> bool \<Rightarrow> nat \<Rightarrow> cmd" where
  "construct_accessor_locks leftover rethrow a =
     Either Raise (skip_or (subscribe_locks leftover rethrow a))"

definition delete_accessor_locks :: cmd where
  "delete_accessor_locks = skip_or unsubscribe_locks"

text \<open>The function the read queue applies to what it hands out.\<close>

definition take_data_locks :: "nat \<Rightarrow> cmd" where
  "take_data_locks a = Guard (Data_lock a) (Either Raise (use (Latest a)))"

text \<open>It runs with the client lock held and disconnects.\<close>

definition handleError_locks :: cmd where
  "handleError_locks = Then (skip_or setExternalError_locks) (Then library_call Raise)"

definition doReadTransferSynchronously_locks :: "nat \<Rightarrow> cmd" where
  "doReadTransferSynchronously_locks a =
     Then (skip_or Raise)
       (Guard Client_lock (Then library_call (Then (skip_or handleError_locks) (bare (Latest a)))))"

definition doWriteTransfer_locks :: "nat \<Rightarrow> cmd" where
  "doWriteTransfer_locks a =
     Then (skip_or Raise)
     (Then (skip_or (doReadTransferSynchronously_locks a))
     (Then (bare (Latest a))
       (Guard Client_lock
         (Then library_call
           (skip_or (Either (Then (skip_or setExternalError_locks) Raise) handleError_locks))))))"

definition doPostRead_locks :: "nat \<Rightarrow> cmd" where
  "doPostRead_locks a = skip_or (Then (bare (Latest a)) (Guard Version_lock Nop))"

section \<open>All operations\<close>

text \<open>The client thread holds \<open>Client_life\<close> while it runs. Starting it is beginning this operation
  in a thread of its own.\<close>

definition client_thread_locks :: cmd where
  "client_thread_locks = Guard Client_life runClient_locks"

inductive_set operations :: "bool \<Rightarrow> bool \<Rightarrow> cmd set" for leftover rethrow where
  client: "client_thread_locks \<in> operations leftover rethrow"
| construct: "construct_backend_locks leftover \<in> operations leftover rethrow"
| "open": "open_locks leftover \<in> operations leftover rethrow"
| close: "close_locks \<in> operations leftover rethrow"
| activateAsyncRead: "activateAsyncRead_locks leftover \<in> operations leftover rethrow"
| setException: "setExceptionImpl_locks \<in> operations leftover rethrow"
| delete: "delete_backend_locks \<in> operations leftover rethrow"
| delete_manager: "delete_manager_locks \<in> operations leftover rethrow"
| construct_accessor: "construct_accessor_locks leftover rethrow a \<in> operations leftover rethrow"
| delete_accessor: "delete_accessor_locks \<in> operations leftover rethrow"
| take_data: "take_data_locks a \<in> operations leftover rethrow"
| read: "doReadTransferSynchronously_locks a \<in> operations leftover rethrow"
| "write": "doWriteTransfer_locks a \<in> operations leftover rethrow"
| post_read: "doPostRead_locks a \<in> operations leftover rethrow"

lemmas lock_command_defs = skip_or_def acquire_def release_def use_def bare_def

lemmas lock_program_defs = lock_command_defs
  handleException_locks_def resetMonitoredItems_locks_def deactivate_in_callback_def
  stateCallback_locks_def inactivityCallback_locks_def responseHandler_locks_def callback_locks_def
  library_call_def removeSubscription_locks_def deactivate_locks_def runClient_locks_def
  createSubscription_locks_def addMonitoredItem_locks_def addMonitoredItems_locks_def
  activate_locks_def prepare_locks_def initial_value_locks_def subscribe_locks_def
  stopClientThread_locks_def unsubscribe_locks_def setExternalError_locks_def
  delete_manager_locks_def resetClient_locks_def connect_locks_def open_locks_def close_locks_def
  activateAsyncRead_locks_def setExceptionImpl_locks_def fillCatalogue_locks_def
  construct_backend_locks_def delete_backend_locks_def construct_accessor_locks_def
  delete_accessor_locks_def take_data_locks_def handleError_locks_def
  doReadTransferSynchronously_locks_def doWriteTransfer_locks_def doPostRead_locks_def
  client_thread_locks_def

section \<open>The order is kept\<close>

text \<open>The policies: the items under the item lock, the data under the lock of their accessor, and, for
  the strict one, the library under the client lock.\<close>

fun needs :: "resource \<Rightarrow> mutex" where
  "needs Library = Client_lock"
| "needs Registry = Item_lock"
| "needs (Latest a) = Data_lock a"

definition strict :: policy where
  "strict r H \<longleftrightarrow> needs r \<in> set H"

definition lenient :: policy where
  "lenient r H \<longleftrightarrow> r = Library \<or> needs r \<in> set H"

lemmas lock_check_defs = well_locked_def agree_exits_def release_exit_def strict_def lenient_def

lemma operations_strict: "c \<in> operations False False \<Longrightarrow> well_locked strict c"
  by (induction rule: operations.induct) (simp_all add: lock_program_defs lock_check_defs)

lemma operations_lenient: "c \<in> operations leftover False \<Longrightarrow> well_locked lenient c"
  by (induction rule: operations.induct; cases leftover) (simp_all add: lock_program_defs lock_check_defs)


section \<open>Properties\<close>


text \<open>A run of the client thread whose library call delivers data, and runs in which another thread
  constructs an accessor for an item that exists.\<close>

definition client_run :: "action list" where
  "client_run =
     [Acquire Client_life, Acquire Client_lock, Use Library, Bare Registry, Acquire Item_lock,
      Use Registry, Release Item_lock, Release Client_lock,
      Acquire Client_lock, Release Client_lock, Release Client_life]"

definition subscribing_run :: "action list" where
  "subscribing_run =
     [Acquire Item_lock, Use Registry, Acquire (Data_lock 7), Release (Data_lock 7), Release Item_lock]"

lemmas lock_run_defs = client_run_def subscribing_run_def lock_program_defs

lemma client_run_possible:
  "branches 30 client_thread_locks [True, True, False, False, False, False, False, False, True]
     = Some (client_run, False, [])"
  by (simp add: lock_run_defs numeral_eq_Suc)

lemma subscribing_run_possible:
  "branches 30 (construct_accessor_locks leftover False 7) [False, False, False, False, False]
     = Some (subscribing_run, False, [])"
  by (simp add: lock_run_defs numeral_eq_Suc)

lemma failing_run_possible:
  "branches 30 (construct_accessor_locks leftover True 7) [False, False, False, False, False, False]
     = Some (butlast subscribing_run, True, [])"
  by (simp add: lock_run_defs numeral_eq_Suc)

text \<open>The client thread holds its lock and is about to call the library.\<close>

lemma client_in_library:
  "running (operations leftover rethrow) (idle(1 := (drop 2 client_run, [Client_lock, Client_life])))"
proof -
  have "running (operations leftover rethrow) (idle(1 := (client_run, [])))"
    by (rule running_begin [OF start _ operations.client client_run_possible]) (simp add: idle_def)
  from running_move [OF this, of 1]
  have "running (operations leftover rethrow) (idle(1 := (drop 1 client_run, [Client_life])))"
    by (simp add: client_run_def idle_def)
  from running_move [OF this, of 1] show ?thesis by (simp add: client_run_def idle_def)
qed

text \<open>It is about to take the item lock in the callback.\<close>

lemma client_in_callback:
  "running (operations leftover rethrow) (idle(1 := (drop 4 client_run, [Client_lock, Client_life])))"
  proof -
  from client_in_library [of leftover rethrow]
  have "running (operations leftover rethrow) (idle(1 := (drop 2 client_run, [Client_lock, Client_life])))" .
  from running_move [OF this, of 1]
  have "running (operations leftover rethrow) (idle(1 := (drop 3 client_run, [Client_lock, Client_life])))"
    by (simp add: client_run_def idle_def)
  from running_move [OF this, of 1] show ?thesis by (simp add: client_run_def idle_def)
qed

lemma subscribing_meets_callback:
  "running (operations leftover False)
     (idle(1 := (drop 4 client_run, [Client_lock, Client_life]), 0 := (tl subscribing_run, [Item_lock])))"
proof -
  let ?s = "idle(1 := (drop 4 client_run, [Client_lock, Client_life]))"
  have "running (operations leftover False) (?s(0 := (subscribing_run, [])))"
    by (rule running_begin [OF client_in_callback _ operations.construct_accessor subscribing_run_possible])
      (simp add: idle_def)
  from running_move [OF this, of 0] show ?thesis by (simp add: subscribing_run_def idle_def)
qed


lemma library_always_locked: "c \<in> operations leftover rethrow \<Longrightarrow> Library \<notin> unlocked c"
  by (induction rule: operations.induct; cases leftover; cases rethrow) (simp_all add: lock_program_defs)

text \<open>
  C17: Mutual exclusion: as long as \<open>createSubscription\<close> finds no subscription left over and reading the front of a
  queue does not throw, two threads are never about to access the same shared object (the open62541 client, the
  items with the subscription map, the data of an accessor), unless one of them is at an access that the code makes
  without the mutex. These are the tests of the items and the map in \<open>activate\<close>, \<open>responseHandler\<close>,
  \<open>unsubscribe\<close> and \<open>setExternalError\<close> and the accesses of a transfer to the data of its accessor. The
  client is not among them: no two threads are about to access it.
\<close>

theorem resources_exclusive:
  assumes "running (operations False False) s" and "t \<noteq> u"
    and "about_to_access s t r" and "about_to_access s u r"
  shows "r \<noteq> Library \<and> (about_to_access_unlocked s t r \<or> about_to_access_unlocked s u r)"
proof -
  have "\<not> (about_to_use s t r \<and> about_to_use s u r)"
    using uses_exclusive [OF running_disciplined [OF operations_strict assms(1)], of r "needs r" t u] assms(2)
    by (auto simp: strict_def)
  moreover have "r \<noteq> Library" if "about_to_access_unlocked s v r" for v
    using running_unlocked [OF assms(1), of r v] library_always_locked that
    by (auto simp: about_to_access_unlocked_def)
  ultimately show ?thesis using assms(3,4) by (auto simp: about_to_access_def)
qed

text \<open>The client thread is about to test the items without the lock in \<open>responseHandler\<close>, while another one constructs
  an accessor and is about to use them.\<close>

lemma subscribing_meets_test:
  "running (operations leftover False)
     (idle(1 := (drop 3 client_run, [Client_lock, Client_life]), 0 := (tl subscribing_run, [Item_lock])))"
proof -
  let ?s = "idle(1 := (drop 3 client_run, [Client_lock, Client_life]))"
  from client_in_library [of leftover False]
  have "running (operations leftover False) (idle(1 := (drop 2 client_run, [Client_lock, Client_life])))" .
  from running_move [OF this, of 1]
  have s: "running (operations leftover False) ?s" by (simp add: client_run_def idle_def)
  have "running (operations leftover False) (?s(0 := (subscribing_run, [])))"
    by (rule running_begin [OF s _ operations.construct_accessor subscribing_run_possible])
      (simp add: idle_def)
  from running_move [OF this, of 0] show ?thesis by (simp add: subscribing_run_def idle_def client_run_def)
qed

theorem resources_exclusive_witness:
  "about_to_access_unlocked
     (idle(1 := (drop 3 client_run, [Client_lock, Client_life]), 0 := (tl subscribing_run, [Item_lock]))) 1 Registry"
  (is "about_to_access_unlocked ?s 1 Registry")
proof -
  have "about_to_access ?s 0 Registry" "about_to_access ?s 1 Registry" "\<not> about_to_access_unlocked ?s 0 Registry"
    by (simp_all add: about_to_access_def about_to_use_def about_to_access_unlocked_def client_run_def subscribing_run_def)
  with resources_exclusive [OF subscribing_meets_test, of 0 1 Registry] show ?thesis by simp
qed

text \<open>
  When a subscription is left over, \<open>createSubscription\<close> removes it without the client lock: two
  threads can be about to use the open62541 client at the same time, the client thread in
  \<open>UA_Client_run_iterate\<close> and a thread in \<open>activateAsyncRead\<close>.
\<close>

theorem leftover_removed_unlocked:
  "\<exists>s. running (operations True False) s \<and> about_to_use s 0 Library \<and> about_to_use s 1 Library"
proof -
  let ?s = "idle(1 := (drop 2 client_run, [Client_lock, Client_life]))"
  have "\<exists>xs. branches 30 (activateAsyncRead_locks True)
      [False, False, False, False, False, True, False, False] = Some (Acquire Async_read # Use Library # xs, False, [])"
    by (simp add: lock_program_defs numeral_eq_Suc)
  then obtain xs where b: "branches 30 (activateAsyncRead_locks True)
      [False, False, False, False, False, True, False, False] = Some (Acquire Async_read # Use Library # xs, False, [])" ..
  have "running (operations True False) (?s(0 := (Acquire Async_read # Use Library # xs, [])))"
    by (rule running_begin [OF client_in_library _ operations.activateAsyncRead b]) (simp add: idle_def)
  from running_move [OF this, of 0]
  have "running (operations True False) (?s(0 := (Use Library # xs, [Async_read])))"
    by (simp add: idle_def)
  moreover have "about_to_use (?s(0 := (Use Library # xs, [Async_read]))) 0 Library"
    "about_to_use (?s(0 := (Use Library # xs, [Async_read]))) 1 Library"
    by (simp_all add: about_to_use_def client_run_def)
  ultimately show ?thesis by blast
qed

text \<open>
  C40: \<open>subscribe\<close> locks the items by hand. When the front of the queue it copies the initial value from
  is an exception, and reading it throws it, the lock is never given back: the client thread waits for
  it in its next callback, holding the client lock, while no thread can move any more.
\<close>

theorem subscribe_leaves_items_locked:
  "\<exists>s. running (operations False True) s \<and> s 0 = ([], [Item_lock]) \<and>
     todo s 1 \<noteq> [] \<and> Client_lock \<in> set (held s 1) \<and> (\<nexists>s'. move s s')"
proof -
  let ?c = "idle(1 := (drop 4 client_run, [Client_lock, Client_life]))"
  let ?r = "butlast subscribing_run"
  let ?s = "?c(0 := ([], [Item_lock]))"
  have "running (operations False True) (?c(0 := (?r, [])))"
    by (rule running_begin [OF client_in_callback _ operations.construct_accessor failing_run_possible])
      (simp add: idle_def)
  from running_move [OF this, of 0]
  have "running (operations False True) (?c(0 := (drop 1 ?r, [Item_lock])))"
    by (simp add: subscribing_run_def idle_def)
  from running_move [OF this, of 0]
  have "running (operations False True) (?c(0 := (drop 2 ?r, [Item_lock])))"
    by (simp add: subscribing_run_def idle_def)
  from running_move [OF this, of 0]
  have "running (operations False True) (?c(0 := (drop 3 ?r, [Data_lock 7, Item_lock])))"
    by (simp add: subscribing_run_def idle_def)
  from running_move [OF this, of 0]
  have "running (operations False True) ?s"
    by (simp add: subscribing_run_def idle_def)
  moreover have "\<not> ready ?s (Acquire Item_lock)"
    by (simp add: exI [of _ 0])
  then have "\<not> move ?s s'" for s'
    by (auto simp: client_run_def idle_def simp del: ready_simps elim!: moveE split: if_splits)
  ultimately show ?thesis
    by (intro exI [of _ ?s]) (simp add: client_run_def)
qed

end
