(* ===== verification/Queue_History.thy ===== *)
theory Queue_History
  imports Data_Frame Subscription_Properties
begin

text \<open>
  What comes through the notification queues: over any history of events of the device and reads of the
  queues, a reader gets entries that were pushed, in their order; every value among them was sent by the server,
  unless it is a copy of one that another accessor has; and what it gets is the accessor's data.
\<close>

section \<open>Growing queues\<close>

text \<open>The value a reader keeps after it has taken entries.\<close>

fun keep_entry :: "'v notification \<Rightarrow> 'v data_value \<Rightarrow> 'v data_value" where
  "keep_entry (Pushed d) d' = (if hasValue d then d else d')"
| "keep_entry _ d' = d'"

definition grown ::
    "(variant notification list \<Rightarrow> variant notification list) \<Rightarrow> (acc_id \<Rightarrow> variant notification list) \<Rightarrow>
     (acc_id \<Rightarrow> variant data_value) \<Rightarrow> variant data_value set \<Rightarrow> variant backend \<Rightarrow> bool" where
  "grown contents N D V s \<longleftrightarrow> (\<forall>a. \<exists>new. notifications (accessors s a) = N a @ new \<and>
     (\<forall>d. Pushed d \<in> set new \<longrightarrow> d \<in> V) \<and>
     acc_data (accessors s a) = fold keep_entry (taken_entries contents (N a) new) (D a))"

lemma grownE:
  assumes "grown contents N D V s"
  obtains new where "notifications (accessors s a) = N a @ new" and "\<And>d. Pushed d \<in> set new \<Longrightarrow> d \<in> V"
    and "acc_data (accessors s a) = fold keep_entry (taken_entries contents (N a) new) (D a)"
proof -
  from assms obtain new where "notifications (accessors s a) = N a @ new \<and>
     (\<forall>d. Pushed d \<in> set new \<longrightarrow> d \<in> V) \<and>
     acc_data (accessors s a) = fold keep_entry (taken_entries contents (N a) new) (D a)"
    unfolding grown_def by blast
  with that show thesis by blast
qed

lemma grown_refl:
  "grown contents (\<lambda>a. notifications (accessors s a)) (\<lambda>a. acc_data (accessors s a)) V s"
  by (simp add: grown_def)

lemma grown_push:
  assumes "grown contents N D V s" and "n \<noteq> Taken" and "\<forall>d. n = Pushed d \<longrightarrow> d \<in> V"
  shows "grown contents N D V (push_all n as s)"
  unfolding grown_def
proof
  fix a
  from assms(1) obtain new where "notifications (accessors s a) = N a @ new" "\<And>d. Pushed d \<in> set new \<Longrightarrow> d \<in> V"
    and "acc_data (accessors s a) = fold keep_entry (taken_entries contents (N a) new) (D a)" by (rule grownE) blast
  with assms(2,3) show "\<exists>new. notifications (accessors (push_all n as s) a) = N a @ new \<and>
      (\<forall>d. Pushed d \<in> set new \<longrightarrow> d \<in> V) \<and>
      acc_data (accessors (push_all n as s) a) = fold keep_entry (taken_entries contents (N a) new) (D a)"
    by (intro exI [of _ "new @ replicate (count_list as a) n"]) (auto simp: push_all_eq taken_entries_pushes)
qed

context future_queue
begin

lemma waiting_within:
  assumes "\<And>d. Pushed d \<in> set (contents h) \<Longrightarrow> d \<in> V" and "\<And>d. Pushed d \<in> set new \<Longrightarrow> d \<in> V"
    and "Pushed d \<in> set (taken_entries contents h new @ contents (h @ new))"
  shows "d \<in> V"
  using assms subseq_member [OF in_order assms(3)] by (auto simp: pushed_entries_def)

lemma kept_within:
  "(\<And>d. Pushed d \<in> set es \<Longrightarrow> d \<in> V) \<Longrightarrow> (hasValue d' \<Longrightarrow> d' \<in> V) \<Longrightarrow> hasValue (fold keep_entry es d') \<Longrightarrow>
   fold keep_entry es d' \<in> V"
proof (induction es arbitrary: d')
  case (Cons e es)
  show ?case unfolding fold_simps
    by (rule Cons.IH) (use Cons.prems in \<open>cases e; auto\<close>)+
qed simp

end

text \<open>The values there are before: in a queue, or taken from it.\<close>

definition holds_value :: "(variant notification list \<Rightarrow> variant notification list) \<Rightarrow> variant backend \<Rightarrow> variant data_value \<Rightarrow> bool" where
  "holds_value contents s d \<longleftrightarrow> (\<exists>b. Pushed d \<in> set (contents (notifications (accessors s b))) \<or>
     d = acc_data (accessors s b) \<and> hasValue d)"

text \<open>What the frame of the device needs of \<open>N\<close> and \<open>D\<close>.\<close>

definition all_within ::
    "(variant notification list \<Rightarrow> variant notification list) \<Rightarrow> (acc_id \<Rightarrow> variant notification list) \<Rightarrow>
     (acc_id \<Rightarrow> variant data_value) \<Rightarrow> variant data_value set \<Rightarrow> bool" where
  "all_within contents N D V \<longleftrightarrow> copied_value ` V \<subseteq> V \<and> (\<forall>b. hasValue (D b) \<longrightarrow> D b \<in> V) \<and>
     (\<forall>b d. Pushed d \<in> set (contents (N b)) \<longrightarrow> d \<in> V)"

lemma grown_within:
  assumes q: "future_queue contents n" and w: "all_within contents N D V" and s: "grown contents N D V s"
  shows "Pushed d \<in> set (contents (notifications (accessors s b))) \<Longrightarrow> d \<in> V"
    and "hasValue (acc_data (accessors s b)) \<Longrightarrow> acc_data (accessors s b) \<in> V"
proof -
  from s obtain new where new: "notifications (accessors s b) = N b @ new" "\<And>d. Pushed d \<in> set new \<Longrightarrow> d \<in> V"
    "acc_data (accessors s b) = fold keep_entry (taken_entries contents (N b) new) (D b)" by (rule grownE) blast
  have old: "\<And>d. Pushed d \<in> set (contents (N b)) \<Longrightarrow> d \<in> V" using w by (simp add: all_within_def)
  note all = future_queue.waiting_within [OF q old new(2)]
  show "d \<in> V" if "Pushed d \<in> set (contents (notifications (accessors s b)))"
    using that all [where d = d] by (simp add: new(1))
  show "acc_data (accessors s b) \<in> V" if "hasValue (acc_data (accessors s b))"
    using that unfolding new(3)
  proof (rule future_queue.kept_within [OF q, rotated -1])
    show "d \<in> V" if "Pushed d \<in> set (taken_entries contents (N b) new)" for d using that all [where d = d] by simp
    show "D b \<in> V" if "hasValue (D b)" using that w by (simp add: all_within_def)
  qed
qed

lemma growing_frame:
  assumes "future_queue contents n" and w: "all_within contents N D V"
  shows "device_frame (grown contents N D V) V"
proof
  show "grown contents N D V t" if "grown contents N D V s" "accessors t = accessors s" for s t :: "variant backend"
    using that by (simp add: grown_def)
  show "copied_value (acc_data (accessors s b)) \<in> V"
    if "grown contents N D V s" "hasValue (acc_data (accessors s b))" for s b
    using grown_within(2) [OF assms that] w by (auto simp: all_within_def)
qed (simp_all add: grown_push)

section \<open>Histories\<close>

text \<open>A history consists of events of the device and of reads of the queues. The front that \<open>subscribe\<close> and a reader see
  is that of the queue.\<close>

datatype queue_step = Device event | Read acc_id

fun sees_queue :: "(variant notification list \<Rightarrow> variant notification list) \<Rightarrow> event \<Rightarrow> bool" where
  "sees_queue contents (Attach a name node acc) \<longleftrightarrow> at_front a = front_of contents"
| "sees_queue contents _ \<longleftrightarrow> True"

fun step_brings :: "variant data_value set \<Rightarrow> queue_step \<Rightarrow> bool" where
  "step_brings V (Device e) \<longleftrightarrow> event_brings V e"
| "step_brings V (Read a) \<longleftrightarrow> True"

fun read_ends :: "variant backend result \<Rightarrow> variant backend \<Rightarrow> bool" where
  "read_ends (Done s) t \<longleftrightarrow> t = s"
| "read_ends (Throws e s) t \<longleftrightarrow> t = s"
| "read_ends _ t \<longleftrightarrow> False"

inductive history ::
    "(variant notification list \<Rightarrow> variant notification list) \<Rightarrow> variant backend \<Rightarrow> queue_step list \<Rightarrow> variant backend \<Rightarrow> bool"
  for contents where
  history_start: "history contents s [] s"
| history_event: "backend_step s e u \<Longrightarrow> sees_queue contents e \<Longrightarrow> history contents u es t \<Longrightarrow>
    history contents s (Device e # es) t"
| history_read: "read_ends (read_queue (front_of contents) a s) u \<Longrightarrow> history contents u es t \<Longrightarrow>
    history contents s (Read a # es) t"

lemma event_grown:
  assumes q: "future_queue contents n" and step: "backend_step s e t" "sees_queue contents e" and e: "event_brings V e"
    and w: "all_within contents N D V" and s: "grown contents N D V s"
  shows "grown contents N D V t"
proof -
  have "copied_value d \<in> V" if "front_of contents (notifications (accessors s b)) = Some (Inr d)" for b d
    using grown_within(1) [OF q w s, of d b] w that by (auto simp: front_of_value all_within_def)
  with step(2) have "front_within V e s" by (cases e) (auto simp: shows_within_def)
  with device_frame.perform_framed [OF growing_frame [OF q w] e _ s] have "post (grown contents N D V) (perform e s)" .
  with step(1) show ?thesis by (auto elim: backend_stepE)
qed

text \<open>A read takes the entry at the front of the queue, and its value becomes the accessor's data.\<close>

lemma read_queue_result:
  assumes q: "future_queue contents n" and r: "read_ends (read_queue (front_of contents) a s) u"
  shows "accessors u b = (if b \<noteq> a \<or> contents (notifications (accessors s a)) = [] then accessors s b
    else (accessors s a)\<lparr>notifications := notifications (accessors s a) @ [Taken],
      acc_data := keep_entry (hd (contents (notifications (accessors s a)))) (acc_data (accessors s a))\<rparr>)"
proof (cases "contents (notifications (accessors s a))")
  case Nil
  with r show ?thesis by (simp add: read_queue_def front_of_def)
next
  case (Cons e es)
  then have "e \<noteq> Taken" using future_queue.no_marker [OF q, of "notifications (accessors s a)"] by auto
  with Cons r show ?thesis
    by (cases e) (auto simp: read_queue_def front_of_def take_notification_def push_notification_def set_data_def)
qed

lemma read_grown:
  assumes q: "future_queue contents n" and r: "read_ends (read_queue (front_of contents) a s) u"
    and s: "grown contents N D V s"
  shows "grown contents N D V u"
  unfolding grown_def
proof
  fix b
  from s obtain new where new: "notifications (accessors s b) = N b @ new" "\<And>d. Pushed d \<in> set new \<Longrightarrow> d \<in> V"
    "acc_data (accessors s b) = fold keep_entry (taken_entries contents (N b) new) (D b)" by (rule grownE) blast
  show "\<exists>new. notifications (accessors u b) = N b @ new \<and> (\<forall>d. Pushed d \<in> set new \<longrightarrow> d \<in> V) \<and>
      acc_data (accessors u b) = fold keep_entry (taken_entries contents (N b) new) (D b)"
  proof (cases "b \<noteq> a \<or> contents (notifications (accessors s a)) = []")
    case True
    with new show ?thesis unfolding read_queue_result [OF q r] if_P [OF True] by blast
  next
    case False
    then have "take 1 (contents (N b @ new)) = [hd (contents (N b @ new))]"
      by (cases "contents (N b @ new)") (use new(1) in auto)
    with False new show ?thesis
      unfolding read_queue_result [OF q r] if_not_P [OF False]
      by (intro exI [of _ "new @ [Taken]"]) auto
  qed
qed

lemma history_grown:
  assumes "history contents s es t" and "list_all (step_brings V) es"
    and q: "future_queue contents n" and w: "all_within contents N D V" and "grown contents N D V s"
  shows "grown contents N D V t"
  using assms(1,2,5)
proof (induction rule: history.induct)
  case (history_event s e u es t)
  then show ?case using event_grown [OF q _ _ _ w] by simp
next
  case (history_read a s u es t)
  then show ?case using read_grown [OF q] by simp
qed

lemma brings_mono: "brings V e \<Longrightarrow> V \<subseteq> W \<Longrightarrow> brings W e"
  by (cases e) auto

lemma event_brings_mono:
  assumes "event_brings V e" and "V \<subseteq> W"
  shows "event_brings W e"
  using assms(1) brings_mono [OF _ assms(2)]
  by (cases e) (auto simp: open_brings_def reset_brings_def list_all_iff)

lemma step_brings_mono: "step_brings V e \<Longrightarrow> V \<subseteq> W \<Longrightarrow> step_brings W e"
  by (cases e) (auto intro: event_brings_mono)

section \<open>Property\<close>

text \<open>
  C13: What comes through a queue of three entries over any history of events of the device and reads of the queues:
  the entries that the reader has taken and those that still wait are, in this order, some of those that waited before
  and were pushed since, in their order; all of them if they are not more than three; and always the newest one. Never more
  than three wait. The data of the accessor is the last value that was taken, if any. Every value that was
  pushed had been sent by the server, or was with an accessor before, or is a copy of such a value with its
  status set to good.
\<close>

theorem queue_entries_sent:
  assumes "future_queue contents 3" and "history contents s es t" and "list_all (step_brings V) es"
  shows "\<exists>new. notifications (accessors t a) = notifications (accessors s a) @ new \<and>
    (let before = contents (notifications (accessors s a)); after = contents (notifications (accessors t a));
         taken = taken_entries contents (notifications (accessors s a)) new; pushed = pushed_entries new
     in length after \<le> 3 \<and> subseq (taken @ after) (before @ pushed) \<and>
        (length (before @ pushed) \<le> 3 \<longrightarrow> taken @ after = before @ pushed) \<and>
        (pushed \<noteq> [] \<longrightarrow> taken @ after \<noteq> [] \<and> last (taken @ after) = last pushed) \<and>
        acc_data (accessors t a) = fold keep_entry taken (acc_data (accessors s a)) \<and>
        (\<forall>d. Pushed d \<in> set pushed \<longrightarrow>
           (\<exists>d'. (d' \<in> V \<or> holds_value contents s d') \<and> (d = d' \<or> d = copied_value d'))))"
proof -
  let ?W = "{d. \<exists>d'. (d' \<in> V \<or> holds_value contents s d') \<and> (d = d' \<or> d = copied_value d')}"
  let ?N = "\<lambda>a. notifications (accessors s a)" and ?D = "\<lambda>a. acc_data (accessors s a)"
  have "list_all (step_brings ?W) es"
    using assms(3) by (auto simp: list_all_iff intro: step_brings_mono)
  moreover have "all_within contents ?N ?D ?W"
    by (auto simp: all_within_def copied_value_def holds_value_def)
  ultimately have "grown contents ?N ?D ?W t"
    by (rule history_grown [OF assms(2) _ assms(1) _ grown_refl])
  then obtain new where new: "notifications (accessors t a) = ?N a @ new" "\<And>d. Pushed d \<in> set new \<Longrightarrow> d \<in> ?W"
    "acc_data (accessors t a) = fold keep_entry (taken_entries contents (?N a) new) (?D a)" by (rule grownE) blast
  moreover have "Pushed d \<in> set (pushed_entries new) \<Longrightarrow> Pushed d \<in> set new" for d
    by (simp add: pushed_entries_def)
  ultimately show ?thesis
    using future_queue.bounded [OF assms(1)] future_queue.in_order [OF assms(1)]
      future_queue.nothing_lost [OF assms(1)] future_queue.newest_kept [OF assms(1)]
    by (intro exI [of _ new]) (simp add: Let_def)
qed

definition sent_value :: "variant data_value" where
  "sent_value = \<lparr>hasValue = True, dv_value = [UA_number 7], dv_status = 5, sourceTimestamp = 0\<rparr>"

text \<open>The server sends a value to accessor 2, accessor 7 is attached to the same node and reads.\<close>

definition sent_steps :: "queue_step list" where
  "sent_steps = [Device (Receive (Data_changed 2 sent_value)), Device (Attach \<lparr>at_deleted = False, at_create = good_create,
     at_monitor = good_monitor, at_front = front_of (last_overwritten 3)\<rparr> ''b'' UA_NODEID_NULL 7), Read 7]"

lemma sent_run:
  "\<exists>u v t. perform (Receive (Data_changed 2 sent_value)) busy_backend = Done u \<and>
     perform (Attach \<lparr>at_deleted = False, at_create = good_create, at_monitor = good_monitor,
       at_front = front_of (last_overwritten 3)\<rparr> ''b'' UA_NODEID_NULL 7) u = Done v \<and> thread_live busy_backend \<and>
     read_queue (front_of (last_overwritten 3)) 7 v = Done t \<and>
     notifications (accessors t 7) = [Pushed (copied_value sent_value), Taken]"
  by (simp add: sent_value_def backend_eval busy_backend_def active_backend_def
      opened_backend_def blank_backend_def busy_item_def responseHandler_def push_all_def
      push_notification_def copied_value_def front_of_def last_overwritten_def read_queue_def take_notification_def set_data_def)

theorem queue_entries_sent_witness:
  "\<exists>t. history (last_overwritten 3) busy_backend sent_steps t \<and>
     notifications (accessors t 7) = [Pushed (copied_value sent_value), Taken] \<and>
     acc_data (accessors t 7) = copied_value sent_value"
proof -
  obtain u v t where run: "perform (Receive (Data_changed 2 sent_value)) busy_backend = Done u"
    "perform (Attach \<lparr>at_deleted = False, at_create = good_create, at_monitor = good_monitor,
       at_front = front_of (last_overwritten 3)\<rparr> ''b'' UA_NODEID_NULL 7) u = Done v"
    "read_queue (front_of (last_overwritten 3)) 7 v = Done t" and live: "thread_live busy_backend"
    and n: "notifications (accessors t 7) = [Pushed (copied_value sent_value), Taken]"
    using sent_run by blast
  have "read_ends (read_queue (front_of (last_overwritten 3)) 7 v) t" using run(3) by simp
  with run(1,2) live valid_good_create have h: "history (last_overwritten 3) busy_backend sent_steps t"
    unfolding sent_steps_def by (auto intro!: history.intros backend_step.returns)
  have "list_all (step_brings {sent_value}) sent_steps"
    by (simp add: sent_steps_def good_create_def good_monitor_def)
  from queue_entries_sent [OF queue_3.future_queue_axioms h this, of 7]
  have "acc_data (accessors t 7) = copied_value sent_value"
    by (auto simp: n busy_backend_def active_backend_def opened_backend_def blank_backend_def Let_def
        last_overwritten_def sent_value_def)
  with h n show ?thesis by blast
qed

end
