(* ===== verification/Spec2Isabelle.thy ===== *)
theory Spec2Isabelle
  imports Device_Life End_To_End Value_Refinement Info_Ownership Recovery Lock_Discipline Queue_History
begin

text \<open>
  \<^bold>\<open>The program.\<close> The OPC UA backend lets an application of the ChimeraTK DeviceAccess library read and
  write the variables of an OPC UA server. The class \<^verbatim>\<open>OpcUABackend\<close> is the device: \<^verbatim>\<open>createInstance\<close>
  reads the parameters of a device descriptor, the constructor sets up the client connection and
  fills the catalogue of registers, from a cache file, a map file or by browsing the server, and
  \<^verbatim>\<open>getRegisterAccessor_impl\<close> makes accessors for its registers. An accessor reads and writes
  synchronously, or it subscribes: then the subscription manager has the server monitor the node,
  a client thread runs the client library, and the callbacks of the library push values and
  exceptions into the queues of the accessors. Opening, closing, connection errors and the callbacks
  all change the state that the device, the manager and the thread share.

  \<^bold>\<open>The theories and the code they model.\<close>

  \<^item> \<open>Prelude\<close>: outcomes of stateful operations (return, exception, undefined behaviour, a wait
    without end, \<^verbatim>\<open>std::terminate\<close>), their sequencing, the interface \<open>keeps_invariant\<close> of an operation that
    keeps an invariant, and deques whose elements are pointed at.
  \<^item> \<open>Cpp_Std\<close>: the text functions of the C++ standard library the code calls.
  \<^item> \<open>Connection\<close>: \<^verbatim>\<open>include/OPC-UA-Connection.h\<close>, the connection state and the client set-up.
  \<^item> \<open>Subscription_State\<close>, \<open>Subscription_Manager\<close>: \<^verbatim>\<open>SubscriptionManager.cc\<close> and its header. The first
    holds the state and the operations the client library never re-enters, the second those it may
    re-enter, for any callbacks that satisfy the interface \<open>client_callbacks\<close>.
  \<^item> \<open>Notification_Queue\<close>: the interface \<open>future_queue\<close> of the queue of an accessor. The model keeps for every
    accessor the history of what is pushed to its queue and taken from it (\<open>notifications\<close>); what the queue
    holds after a history, and so what it gives up when it is full, is the parameter \<open>contents\<close> of the theorems
    about queues, with the laws of the interface. A queue of three entries that overwrites the last one
    interprets it.
  \<^item> \<open>Backend\<close>: the callbacks and the life cycle of the device in \<^verbatim>\<open>OPC-UA-Backend.cc\<close>. Its callbacks
    interpret \<open>client_callbacks\<close>.
  \<^item> \<open>Register_Info\<close>, \<open>Version_Mapper\<close>, \<open>Converter\<close>, \<open>Accessor\<close>: \<^verbatim>\<open>RegisterInfo.cc\<close>, \<^verbatim>\<open>VersionMapper.cc\<close>
    and \<^verbatim>\<open>OPC-UA-BackendRegisterAccessor.h\<close>.
  \<^item> \<open>Xml_Tools\<close>, \<open>Map_File\<close>, \<open>Map_Element\<close>, \<open>Catalogue_Cache\<close>: \<^verbatim>\<open>XmlTools.cc\<close>, \<^verbatim>\<open>MapFile.cc\<close> (the reader,
    and the memory the elements own) and \<^verbatim>\<open>CatalogueCache.cc\<close>.
  \<^item> \<open>Managed_Types\<close>, \<open>Data_Ownership\<close>, \<open>Value_Refinement\<close>: \<^verbatim>\<open>ManagedTypes.cc\<close>, where a value lies and who frees its
    memory. The first has the members of the class on a memory of blocks with contents, the second their use by
    callbacks, queues, accessors, reads and writes, the third that they implement the plain values the
    theories of the device speak of.
  \<^item> \<open>Catalogue\<close>, \<open>Device_Creation\<close>: the rest of \<^verbatim>\<open>OPC-UA-Backend.cc\<close>, filling the catalogue, the
    parameters and the constructor of the device, and the making of accessors.
  \<^item> \<open>Device_Steps\<close>: the device as a transition system whose events are the calls from outside, with
    the states \<open>reachable\<close> by them.
  \<^item> \<open>Subscription_Spec\<close>: the abstract registry, a map from the names of nodes to their accessors.
  \<^item> \<open>Subscription_Properties\<close>, \<open>Accessor_Properties\<close>, \<open>Creation_Properties\<close>: what the operations deliver
    and where they fail.
  \<^item> \<open>Data_Frame\<close>: what the operations of the device do to the queues and the data of accessors: values that
    a set \<open>V\<close> of values has, or exceptions, are pushed at the ends of queues, and the data are left alone.
  \<^item> \<open>Queue_History\<close>: the contents of the queues over a history of events of the device and of reads.
  \<^item> \<open>Accessor_Types\<close>: conversions yield values of the destination type.
  \<^item> \<open>Device_System\<close>: the device, its accessor objects and the version map as one transition system.
  \<^item> \<open>Device_Life\<close>: from the constructor of the device to that system.
  \<^item> \<open>End_To_End\<close>: the way of a value from the server to the user buffer, and to the server and back.
  \<^item> \<open>Recovery\<close>: the way back after a loss of the connection, and what a failed transfer makes known.
  \<^item> \<open>Info_Ownership\<close>: \<^verbatim>\<open>RegisterInfo.h\<close>, the memory the descriptions of registers own.
  \<^item> \<open>Lock_Programs\<close>: programs reduced to what they do with mutexes, threads that run them, and a check of
    the order in which mutexes are acquired that excludes waiting in a circle.
  \<^item> \<open>Lock_Discipline\<close>: these programs for every function of \<^verbatim>\<open>SubscriptionManager.cc\<close>,
    \<^verbatim>\<open>OPC-UA-Backend.cc\<close> and \<^verbatim>\<open>OPC-UA-BackendRegisterAccessor.h\<close> that acquires a mutex or calls one that does.

  \<^bold>\<open>State and operations.\<close> A class is a record with the members of the class; an operation is a
  function from the state to a result of the next state. \<open>Throws e s\<close> keeps the state \<open>s\<close> in which an
  exception leaves the operation. The state of the manager is extended by that of the device,
  so that a callback that runs inside an operation of the manager sees both. Pointers from the
  subscription map into the deque of items are addresses, and an erasure from the middle of the deque moves the other
  elements, so that the use of a stale pointer is a value of the model. Integers have the width of
  the code; where signed arithmetic overflows the function has no value.

  \<^bold>\<open>What is shown.\<close>

  \<^item> Safety of the device: in every reachable state the items and the subscription map fit together, no
    event dereferences a stale pointer, no callback waits for the lock its thread holds, and no event waits for
    ever, as long as the client library reports an error at some time to a loop of the client thread that nobody
    stops (\<open>thread_can_end\<close> in \<open>Device_Steps\<close>). The preconditions of the events are those of \<open>enabled\<close>; the one about erasing from
    the deque is a demand on the application, and \<open>Subscription_Properties\<close> shows what happens without it.
  \<^item> Refinement: every event changes the registry as the abstract one (\<open>Subscription_Spec\<close>); a device that
    browsed and saved restarts from its cache file with the same catalogue (\<open>Creation_Properties\<close>).
  \<^item> The composed system: user buffers and received data stay in their types, and a live subscribed
    accessor is always found in the registry (\<open>Device_System\<close>). Every live accessor of a constructed device
    belongs to a register of its catalogue (\<open>Device_Life\<close>). A register the device did not take from a cache file
    says of a node of the server what the server says (\<open>matches_node\<close> in \<open>Catalogue\<close>); a cache file is believed.
  \<^item> Concurrency: as long as reading the front of a queue does not throw, what has begun can be finished,
    whatever the interleaving of threads and callbacks; and no two threads use the client, the items or the data of an
    accessor at once, except at the accesses the code makes without the mutex, which
    \<open>resources_exclusive\<close> lists, and while \<open>createSubscription\<close> removes a subscription that was left
    over (\<open>Lock_Discipline\<close>).
  \<^item> Recovery: \<open>open\<close> and \<open>activateAsyncRead\<close> bring every subscribed accessor back (\<open>Recovery\<close>).
  \<^item> Values: what the server sends for a monitored item arrives in the user buffer of every accessor attached
    to it, and what an accessor writes reads back unchanged if its register has no index range (\<open>End_To_End\<close>).
    A call of the library that writes is recorded with the value it sends.
  \<^item> Queues: over any history a queue never holds more than three entries, hands out what was pushed in
    its order, everything if there is room and always the newest, and makes up nothing (\<open>Queue_History\<close>).
  \<^item> Functional behaviour: who gets which value or exception, what is asked of the server, which words a
    transfer moves, how errors are reported, how parameters and map files are read.
  \<^item> Round trips: catalogue and cache file, values written and read back, decimal numbers, map files.
  \<^item> Equivalence with a reference: browsing is a loop over the depth-first list of variables; the test for a
    trailing \<^verbatim>\<open>Dir\<close>, written with wrapping arithmetic, is the plain test for a suffix.
  \<^item> Memory: the values in queues and accessors and those synchronous reads return are freed exactly once;
    the node ids of map elements and register descriptions are freed at most once, and exactly once as
    long as no description is assigned to another. The objects with their pointers implement the plain values of
    the model (\<open>Value_Refinement\<close>).
  \<^item> Faults: each is a theorem about the code as it is (stale pointers after an erasure in the middle, an accessor
    that stays registered when its construction fails, a request that outlives its subscription,
    a \<^verbatim>\<open>noexcept\<close> function that throws, a range check that wraps around, browsing that
    never ends on a cycle, null pointers in the cache and on writing, a second loss of the connection that is not
    reported, a mutex that stays locked, a call of the library without its lock, a part of an array that is
    written as the whole).

  \<^bold>\<open>Bounds and fuel.\<close> \<^verbatim>\<open>open\<close> waits at most five times, so \<open>wait_connected\<close> is a total function.
  \<open>client_loop\<close> runs over the list of answers of the client library and is \<open>Blocked\<close> when the loop still runs
  after the last; the theorems about it speak of lists after which it has stopped, or of
  every list. \<open>browseRecursive\<close> has the depth of the recursion as fuel and is \<open>Blocked\<close> when it is used
  up; \<open>browse_terminates_without_cycle\<close> shows that the number of nodes is depth enough when no reference of
  objects leads back, and that no depth is when one does. The depth \<open>branches\<close> takes is only used to
  exhibit executions.

  \<^bold>\<open>Parameters.\<close> Code outside the repository is an argument of the definitions that use it. What open62541
  answers to a call, with the callbacks it runs meanwhile, is an argument of the call; the server that is browsed
  is the record \<open>server\<close>. The numeric converter and the tokenizer of Boost, the parser and writer of XML
  text, \<open>RegisterPath\<close>, the catalogue container, version numbers, \<^verbatim>\<open>std::stod\<close>, the texts of
  standard exceptions and the parser of numeric ranges are functions. The hypotheses about them state
  documented behaviour (the converter rounds and reports overflows, a written document reads back)
  and each is shown to hold of a concrete function.

  \<^bold>\<open>Not modelled.\<close> Logging. In the model of the device an event is a critical section, and events
  interleave; the lock programs show that the mutexes make the parts of the functions critical sections, not that
  an event as a whole is one, and they leave values out: a condition is a choice, so that they have
  more executions than the code. The atomic flags and the state of the connection are not protected by a mutex
  and are left out there. The implementation of the queues of the accessors (\<^verbatim>\<open>cppext::future_queue\<close>):
  besides the laws of \<open>Notification_Queue\<close>, the ownership of their entries assumes that an entry is
  constructed once for each value and destroyed once, which nothing in the repository documents. Running
  out of memory. The singleton around the version map, the registration of the backend with its
  factory except for the names it hands over, tests and build files. An uninitialised \<^verbatim>\<open>rootNS\<close> is
  taken to be 0; the code only uses it when it was set. Numbers of floating types are rationals, without infinities and
  not-a-number.
\<close>

end
